(* ===== verification/Prelude.thy ===== *)
theory Prelude
  imports Main "HOL-Library.Word"
begin

text \<open>
  Shared vocabulary of the mini-idp development: the Java base types at their widths, the
  exceptions the code throws, the result shapes every operation returns, time, and the
  generic lemmas on words and results.

  \<^item> A Java \<open>String\<close> is the list of its UTF-16 code units, a \<open>byte\<close> an 8-bit word, an
    \<open>int\<close> a 32-bit word and a \<open>long\<close> a 64-bit word, both read by \<open>sint\<close> and compared by
    the signed orders.
  \<^item> \<open>null\<close> is \<open>None\<close>; a nullable reference is an \<open>option\<close>.
  \<^item> A call that may throw returns \<open>exn + 'a\<close>. A call that may throw and that changes
    state returns the pair of that result and the new state, because the changes made
    before the throw stay.
  \<^item> The clock, the random generator and the outcome of a file operation are arguments of
    the operation that reads them.
\<close>

section \<open>Base types\<close>

type_synonym byte = "8 word"
type_synonym jint = "32 word"
type_synonym long = "64 word"
type_synonym jchar = "16 word"
type_synonym jstring = "jchar list"

text \<open>An ASCII string literal of the source.\<close>

definition js :: "string \<Rightarrow> jstring" where
  "js s = map of_char s"

lemma unat_of_char_jchar: "unat (of_char c :: jchar) = of_char c"
proof -
  have "(of_char c :: nat) mod 256 < 256"
    by (rule mod_less_divisor) simp
  then have "(of_char c :: nat) < 256"
    by (simp only: of_char_mod_256)
  then have "(of_char c :: nat) < 2 ^ 16"
    by (rule less_trans) simp
  then have "unat (of_nat (of_char c) :: jchar) = (of_char c :: nat)"
    by (simp add: take_bit_nat_eq_self unsigned_of_nat del: of_nat_of_char)
  moreover have "(of_nat (of_char c) :: jchar) = of_char c"
    by (rule of_nat_of_char)
  ultimately show ?thesis by simp
qed

lemma of_char_jchar_eq_iff: "(of_char c :: jchar) = of_char d \<longleftrightarrow> c = d"
  by (metis unat_of_char_jchar of_char_eq_iff)

lemma js_eq_iff [simp]: "js s = js t \<longleftrightarrow> s = t"
  by (auto simp: js_def of_char_jchar_eq_iff inj_def intro!: inj_map_eq_map [THEN iffD1])

lemma js_Nil_iff [simp]: "js s = [] \<longleftrightarrow> s = []" "[] = js s \<longleftrightarrow> s = []"
  by (auto simp: js_def)

lemma length_js [simp]: "length (js s) = length s"
  by (simp add: js_def)

lemma js_append: "js (s @ t) = js s @ js t"
  by (simp add: js_def)


section \<open>Exceptions and results\<close>

text \<open>
  The exception classes the code throws or lets through. \<open>NumberFormatException\<close> is a
  subclass of \<open>IllegalArgumentException\<close> and is modelled by it; \<open>ApiException\<close> carries
  the HTTP status, the error code and the description.
\<close>

datatype exn =
    NullPointerException
  | IllegalArgumentException jstring
  | IllegalStateException jstring
  | UncheckedIOException jstring
  | IOException jstring
  | DateTimeException
  | ApiException jint jstring jstring

fun is_illegal_argument :: "exn \<Rightarrow> bool" where
  "is_illegal_argument (IllegalArgumentException _) = True"
| "is_illegal_argument _ = False"

text \<open>Sequencing of throwing calls: the first exception wins.\<close>

definition and_then :: "exn + 'a \<Rightarrow> ('a \<Rightarrow> exn + 'b) \<Rightarrow> exn + 'b" where
  "and_then r f = (case r of Inl e \<Rightarrow> Inl e | Inr x \<Rightarrow> f x)"

lemma and_then_simps [simp]:
  "and_then (Inl e) f = Inl e"
  "and_then (Inr x) f = f x"
  by (simp_all add: and_then_def)

lemma and_then_Inr_iff: "and_then r f = Inr y \<longleftrightarrow> (\<exists>x. r = Inr x \<and> f x = Inr y)"
  by (cases r) simp_all

lemma and_then_Inl_iff:
  "and_then r f = Inl e \<longleftrightarrow> r = Inl e \<or> (\<exists>x. r = Inr x \<and> f x = Inl e)"
  by (cases r) auto

definition of_option :: "exn \<Rightarrow> 'a option \<Rightarrow> exn + 'a" where
  "of_option e r = (case r of None \<Rightarrow> Inl e | Some x \<Rightarrow> Inr x)"

lemma of_option_simps [simp]:
  "of_option e None = Inl e"
  "of_option e (Some x) = Inr x"
  by (simp_all add: of_option_def)

lemma of_option_Inr_iff [simp]: "of_option e r = Inr x \<longleftrightarrow> r = Some x"
  by (cases r) simp_all

text \<open>A loop that maps a throwing function over a list and stops at the first throw.\<close>

fun map_throw :: "('a \<Rightarrow> exn + 'b) \<Rightarrow> 'a list \<Rightarrow> exn + 'b list" where
  "map_throw f [] = Inr []"
| "map_throw f (x # xs) =
     (case f x of Inl e \<Rightarrow> Inl e
      | Inr y \<Rightarrow> (case map_throw f xs of Inl e \<Rightarrow> Inl e | Inr ys \<Rightarrow> Inr (y # ys)))"

lemma map_throw_cong [fundef_cong]:
  "xs = ys \<Longrightarrow> (\<And>x. x \<in> set ys \<Longrightarrow> f x = g x) \<Longrightarrow> map_throw f xs = map_throw g ys"
  by (induction ys arbitrary: xs) (auto split: sum.splits)

lemma map_throw_Inr_iff:
  "map_throw f xs = Inr ys \<longleftrightarrow> list_all2 (\<lambda>x y. f x = Inr y) xs ys"
proof (induction xs arbitrary: ys)
  case (Cons x xs)
  have "map_throw f (x # xs) = Inr ys \<longleftrightarrow>
      (\<exists>y zs. f x = Inr y \<and> ys = y # zs \<and> map_throw f xs = Inr zs)"
    by (auto split: sum.splits)
  then show ?case
    by (simp only: Cons.IH) (auto simp: list_all2_Cons1)
qed auto

lemma map_throw_map: "map_throw f (map g xs) = map_throw (f \<circ> g) xs"
  by (induction xs) (auto split: sum.splits)

lemma map_throw_total:
  "(\<And>x. x \<in> set xs \<Longrightarrow> f x = Inr (g x)) \<Longrightarrow> map_throw f xs = Inr (map g xs)"
  by (induction xs) auto

lemma map_throw_Inl_ex: "map_throw f xs = Inl e \<Longrightarrow> \<exists>x \<in> set xs. f x = Inl e"
  by (induction xs) (auto split: sum.splits)

text \<open>
  Sequencing of steps on a state: a step that throws ends the sequence, and the state it
  left stays.
\<close>

definition st_then ::
  "('s \<Rightarrow> (exn + 'a) \<times> 's) \<Rightarrow> ('a \<Rightarrow> 's \<Rightarrow> (exn + 'b) \<times> 's) \<Rightarrow> 's \<Rightarrow> (exn + 'b) \<times> 's" where
  "st_then m f s =
     (case m s of
        (Inl e, s') \<Rightarrow> (Inl e, s')
      | (Inr x, s') \<Rightarrow> f x s')"

definition st_lift :: "exn + 'a \<Rightarrow> 's \<Rightarrow> (exn + 'a) \<times> 's" where
  "st_lift r s = (r, s)"

definition st_read :: "('s \<Rightarrow> 'a) \<Rightarrow> ('a \<Rightarrow> 's \<Rightarrow> 'r \<times> 's) \<Rightarrow> 's \<Rightarrow> 'r \<times> 's" where
  "st_read g f s = f (g s) s"

lemma st_then_lift [simp]:
  "st_then (st_lift (Inl e)) f s = (Inl e, s)"
  "st_then (st_lift (Inr x)) f s = f x s"
  by (simp_all add: st_then_def st_lift_def)

text \<open>A sequence returns exactly when each call of it does.\<close>

lemma st_then_Inr_iff:
  "st_then m f s = (Inr y, s') \<longleftrightarrow> (\<exists>x s1. m s = (Inr x, s1) \<and> f x s1 = (Inr y, s'))"
  by (cases "m s"; cases "fst (m s)") (auto simp: st_then_def)

text \<open>
  A relation between the states before and after that every step keeps is kept by a sequence
  of steps. \<open>settles X R\<close>: the step keeps \<open>R\<close> unless it throws one of the exceptions \<open>X\<close>.
\<close>

definition settles ::
  "(exn \<Rightarrow> bool) \<Rightarrow> ('s \<Rightarrow> 's \<Rightarrow> bool) \<Rightarrow> ('s \<Rightarrow> (exn + 'a) \<times> 's) \<Rightarrow> bool" where
  "settles X R m \<longleftrightarrow> (\<forall>s. R s (snd (m s)) \<or> (\<exists>e. fst (m s) = Inl e \<and> X e))"

abbreviation keeps :: "('s \<Rightarrow> 's \<Rightarrow> bool) \<Rightarrow> ('s \<Rightarrow> (exn + 'a) \<times> 's) \<Rightarrow> bool" where
  "keeps R m \<equiv> settles (\<lambda>_. False) R m"

definition preorder_rel :: "('s \<Rightarrow> 's \<Rightarrow> bool) \<Rightarrow> bool" where
  "preorder_rel R \<longleftrightarrow> (\<forall>s. R s s) \<and> (\<forall>s t u. R s t \<longrightarrow> R t u \<longrightarrow> R s u)"

named_theorems settles_intros

lemma settles_lift [settles_intros]: "preorder_rel R \<Longrightarrow> settles X R (st_lift r)"
  by (simp add: settles_def st_lift_def preorder_rel_def)

lemma settles_read [settles_intros]: "(\<And>x. settles X R (f x)) \<Longrightarrow> settles X R (st_read g f)"
  by (simp add: settles_def st_read_def)

lemma settles_if [settles_intros]:
  "settles X R f \<Longrightarrow> settles X R g \<Longrightarrow> settles X R (if b then f else g)"
  by simp

lemma settles_option [settles_intros]:
  "settles X R f \<Longrightarrow> (\<And>x. settles X R (g x)) \<Longrightarrow>
     settles X R (case x of None \<Rightarrow> f | Some y \<Rightarrow> g y)"
  by (simp split: option.split)

lemma settlesI:
  "(\<And>s r s'. m s = (r, s') \<Longrightarrow> R s s' \<or> (\<exists>e. r = Inl e \<and> X e)) \<Longrightarrow> settles X R m"
  by (simp add: settles_def)

lemma settlesD: "settles X R m \<Longrightarrow> m s = (r, s') \<Longrightarrow> R s s' \<or> (\<exists>e. r = Inl e \<and> X e)"
  by (metis settles_def fst_conv snd_conv)

lemma settles_then [settles_intros]:
  assumes "preorder_rel R" and "settles X R m" and "\<And>x. settles X R (f x)"
  shows "settles X R (st_then m f)"
proof (rule settlesI)
  fix s r s'
  assume run: "st_then m f s = (r, s')"
  obtain y t where m: "m s = (y, t)" by (rule prod.exhaust)
  note first = settlesD [OF assms(2) m]
  show "R s s' \<or> (\<exists>e. r = Inl e \<and> X e)"
  proof (cases y)
    case (Inl e)
    with run m first show ?thesis by (auto simp: st_then_def)
  next
    case (Inr x)
    with run m have "f x t = (r, s')" by (simp add: st_then_def)
    from settlesD [OF assms(3) this] first Inr assms(1) show ?thesis
      unfolding preorder_rel_def by blast
  qed
qed

lemma settles_then_lift [settles_intros]:
  "preorder_rel R \<Longrightarrow> (\<And>x. r = Inr x \<Longrightarrow> settles X R (f x)) \<Longrightarrow> settles X R (st_then (st_lift r) f)"
  by (cases r) (simp_all add: settles_def preorder_rel_def)

lemma keepsI: "(\<And>s r s'. m s = (r, s') \<Longrightarrow> R s s') \<Longrightarrow> keeps R m"
  by (rule settlesI) blast

lemma keepsD: "keeps R m \<Longrightarrow> m s = (r, s') \<Longrightarrow> R s s'"
  by (blast dest: settlesD)

lemma distinct_set_singleton: "distinct xs \<Longrightarrow> set xs = {x} \<Longrightarrow> xs = [x]"
  by (cases xs; cases "tl xs") auto

lemma list_all2_ex_right: "list_all2 P xs ys \<Longrightarrow> y \<in> set ys \<Longrightarrow> \<exists>x \<in> set xs. P x y"
  by (induction rule: list_all2_induct) auto

lemma list_all2_ex: "list_all2 P xs ys \<Longrightarrow> x \<in> set xs \<Longrightarrow> \<exists>y \<in> set ys. P x y"
  by (induction rule: list_all2_induct) auto


section \<open>Signed arithmetic and time\<close>

lemma sint_long_bounds: "- (2 ^ 63) \<le> sint (x :: long)" "sint (x :: long) < 2 ^ 63"
  using sint_ge [of x] sint_lt [of x] by simp_all

lemma sint_long_add:
  assumes "- (2 ^ 63) \<le> sint x + sint y" and "sint x + sint y < 2 ^ 63"
  shows "sint (x + y :: long) = sint x + sint y"
  using assms by (simp add: sint_word_ariths signed_take_bit_int_eq_self)

lemma sint_long_diff:
  assumes "- (2 ^ 63) \<le> sint x - sint y" and "sint x - sint y < 2 ^ 63"
  shows "sint (x - y :: long) = sint x - sint y"
  using assms by (simp add: sint_word_ariths signed_take_bit_int_eq_self)

text \<open>
  \<open>java.time.Instant\<close> at the resolution of its epoch second: every duration the code adds
  is a whole number of seconds, so the nanosecond field of an instant never changes the
  epoch second of a sum. \<open>Instant.plus\<close> throws outside the range of \<open>Instant\<close>.
\<close>

definition instant_min :: int where "instant_min = - 31557014167219200"
definition instant_max :: int where "instant_max = 31556889864403199"

definition instant_ok :: "long \<Rightarrow> bool" where
  "instant_ok t \<longleftrightarrow> instant_min \<le> sint t \<and> sint t \<le> instant_max"

definition instant_plus :: "long \<Rightarrow> long \<Rightarrow> exn + long" where
  "instant_plus t d =
     (let r = sint t + sint d
      in if instant_min \<le> r \<and> r \<le> instant_max then Inr (t + d)
         else Inl DateTimeException)"

lemma instant_plus_Inr:
  "instant_plus t d = Inr r \<Longrightarrow> sint r = sint t + sint d \<and> instant_ok r"
  by (auto simp: instant_plus_def instant_ok_def Let_def instant_min_def instant_max_def
      sint_long_add split: if_splits)

end
