(* ===== verification/Containers.thy ===== *)
theory Containers
  imports Prelude "HOL-Library.AList"
begin

text \<open>
  The insertion-ordered collections of \<open>java.util\<close> the services keep their state in:
  \<open>LinkedHashMap\<close> as an association list with distinct keys (a \<open>put\<close> on a present key
  keeps its position) and \<open>LinkedHashSet\<close> as a list without duplicates. The locale
  \<open>keyed_map\<close> states the laws a service relies on; the locale \<open>keyed_registry\<close> adds
  values that carry their own key, which is what makes rebuilding the map from its saved
  values exact.
\<close>

section \<open>The interface: a map that lists its values\<close>

locale keyed_map =
  fixes empty :: "'m"
    and put :: "'k \<Rightarrow> 'v \<Rightarrow> 'm \<Rightarrow> 'm"
    and remove :: "'k \<Rightarrow> 'm \<Rightarrow> 'm"
    and get :: "'m \<Rightarrow> 'k \<Rightarrow> 'v option"
    and vals :: "'m \<Rightarrow> 'v list"
    and ok :: "'m \<Rightarrow> bool"
  assumes ok_empty: "ok empty"
    and ok_put: "ok m \<Longrightarrow> ok (put k v m)"
    and ok_remove: "ok m \<Longrightarrow> ok (remove k m)"
    and get_empty: "get empty k = None"
    and get_put: "ok m \<Longrightarrow> get (put k v m) = (get m)(k \<mapsto> v)"
    and get_remove: "ok m \<Longrightarrow> get (remove k m) = (get m)(k := None)"
    and vals_ran: "ok m \<Longrightarrow> set (vals m) = ran (get m)"
begin

lemma get_put_same: "ok m \<Longrightarrow> get (put k v m) k = Some v"
  by (simp add: get_put)

lemma get_put_other: "ok m \<Longrightarrow> k' \<noteq> k \<Longrightarrow> get (put k v m) k' = get m k'"
  by (simp add: get_put)

lemma get_remove_same: "ok m \<Longrightarrow> get (remove k m) k = None"
  by (simp add: get_remove)

lemma get_remove_other: "ok m \<Longrightarrow> k' \<noteq> k \<Longrightarrow> get (remove k m) k' = get m k'"
  by (simp add: get_remove)

lemma get_in_vals: "ok m \<Longrightarrow> get m k = Some v \<Longrightarrow> v \<in> set (vals m)"
  by (auto simp: vals_ran intro: ranI)

lemma in_vals_get: "ok m \<Longrightarrow> v \<in> set (vals m) \<Longrightarrow> \<exists>k. get m k = Some v"
  by (auto simp: vals_ran ran_def)

end

text \<open>
  A registry: the values carry their key, and the map is rebuilt at start-up by putting the
  saved values one after the other.
\<close>

locale keyed_registry = keyed_map empty put remove get vals ok
  for empty :: "'m"
    and put :: "'k \<Rightarrow> 'v \<Rightarrow> 'm \<Rightarrow> 'm"
    and remove :: "'k \<Rightarrow> 'm \<Rightarrow> 'm"
    and get :: "'m \<Rightarrow> 'k \<Rightarrow> 'v option"
    and vals :: "'m \<Rightarrow> 'v list"
    and ok :: "'m \<Rightarrow> bool" +
  fixes key_of :: "'v \<Rightarrow> 'k"
begin

lemma ok_load: "ok m \<Longrightarrow> ok (foldl (\<lambda>m v. put (key_of v) v m) m vs)"
  by (induction vs arbitrary: m) (simp_all add: ok_put)

lemma get_load_notin:
  "ok m \<Longrightarrow> k \<notin> key_of ` set vs \<Longrightarrow>
     get (foldl (\<lambda>m v. put (key_of v) v m) m vs) k = get m k"
  by (induction vs arbitrary: m) (auto simp: ok_put get_put)

lemma get_load_distinct:
  "ok m \<Longrightarrow> distinct (map key_of vs) \<Longrightarrow> v \<in> set vs \<Longrightarrow>
     get (foldl (\<lambda>m v. put (key_of v) v m) m vs) (key_of v) = Some v"
proof (induction vs arbitrary: m)
  case (Cons a vs)
  show ?case
  proof (cases "v \<in> set vs")
    case True
    with Cons show ?thesis by (simp add: ok_put)
  next
    case False
    with Cons.prems have "v = a" and "key_of a \<notin> key_of ` set vs" by auto
    with Cons.prems(1) show ?thesis
      by (simp add: get_load_notin ok_put get_put)
  qed
qed simp

text \<open>Every key of a rebuilt map is the key of its own value.\<close>

lemma get_load_keyed:
  "ok m \<Longrightarrow> (\<And>k v. get m k = Some v \<Longrightarrow> key_of v = k) \<Longrightarrow>
     get (foldl (\<lambda>m v. put (key_of v) v m) m vs) k = Some v \<Longrightarrow> key_of v = k"
proof (induction vs arbitrary: m)
  case (Cons a vs)
  show ?case
  proof (rule Cons.IH)
    show "ok (put (key_of a) a m)" using Cons.prems(1) by (rule ok_put)
    show "key_of v = k" if "get (put (key_of a) a m) k = Some v" for k v
      using that Cons.prems(1,2) by (auto simp: get_put split: if_splits)
    show "get (foldl (\<lambda>m v. put (key_of v) v m) (put (key_of a) a m) vs) k = Some v"
      using Cons.prems(3) by simp
  qed
qed simp

text \<open>Saving the values and loading them again gives a map with the same lookups.\<close>

lemma get_reload:
  assumes ok: "ok m" and keyed: "\<And>k v. get m k = Some v \<Longrightarrow> key_of v = k"
    and dist: "distinct (map key_of (vals m))"
  shows "get (foldl (\<lambda>m v. put (key_of v) v m) empty (vals m)) = get m"
proof
  fix k
  let ?l = "foldl (\<lambda>m v. put (key_of v) v m) empty (vals m)"
  show "get ?l k = get m k"
  proof (cases "get m k")
    case None
    have "k \<notin> key_of ` set (vals m)"
    proof
      assume "k \<in> key_of ` set (vals m)"
      then obtain v where "v \<in> set (vals m)" "k = key_of v" by auto
      with in_vals_get [OF ok] keyed None show False by fastforce
    qed
    with None show ?thesis by (simp add: get_load_notin ok_empty get_empty)
  next
    case (Some v)
    with keyed have "key_of v = k" by blast
    with Some show ?thesis
      using get_load_distinct [OF ok_empty dist get_in_vals [OF ok Some]] by simp
  qed
qed

end

section \<open>LinkedHashMap\<close>

type_synonym ('k, 'v) linked_map = "('k \<times> 'v) list"

definition lhm_put :: "'k \<Rightarrow> 'v \<Rightarrow> ('k, 'v) linked_map \<Rightarrow> ('k, 'v) linked_map" where
  "lhm_put k v m = AList.update k v m"

definition lhm_get :: "('k, 'v) linked_map \<Rightarrow> 'k \<Rightarrow> 'v option" where
  "lhm_get m k = map_of m k"

definition lhm_remove :: "'k \<Rightarrow> ('k, 'v) linked_map \<Rightarrow> ('k, 'v) linked_map" where
  "lhm_remove k m = filter (\<lambda>p. fst p \<noteq> k) m"

definition lhm_values :: "('k, 'v) linked_map \<Rightarrow> 'v list" where
  "lhm_values m = map snd m"

text \<open>\<open>map.values().removeIf(p)\<close>\<close>

definition lhm_remove_if :: "('v \<Rightarrow> bool) \<Rightarrow> ('k, 'v) linked_map \<Rightarrow> ('k, 'v) linked_map" where
  "lhm_remove_if p m = filter (\<lambda>e. \<not> p (snd e)) m"

definition lhm_ok :: "('k, 'v) linked_map \<Rightarrow> bool" where
  "lhm_ok m \<longleftrightarrow> distinct (map fst m)"

named_theorems lhm_defs

lemmas lhm_definitions [lhm_defs] =
  lhm_put_def lhm_get_def lhm_remove_def lhm_values_def lhm_remove_if_def lhm_ok_def

lemma lhm_get_filter_key:
  "map_of (filter (\<lambda>p. fst p \<noteq> k) m) = (map_of m)(k := None)"
  by (induction m) (auto simp: fun_eq_iff)

interpretation lhm: keyed_map "[]" lhm_put lhm_remove lhm_get lhm_values lhm_ok
proof (unfold_locales, goal_cases)
  case (6 m k)
  show ?case by (auto simp: lhm_defs lhm_get_filter_key)
next
  case (7 m)
  then have "snd ` set m = ran (map_of m)"
    by (simp add: lhm_ok_def ran_distinct)
  moreover have "lhm_get m = map_of m"
    by (simp add: lhm_get_def fun_eq_iff)
  ultimately show ?case by (simp add: lhm_values_def)
qed (auto simp: lhm_defs AList.distinct_update AList.update_conv' distinct_map_filter)

lemma lhm_ok_remove_if: "lhm_ok m \<Longrightarrow> lhm_ok (lhm_remove_if p m)"
  by (simp add: lhm_defs distinct_map_filter)

lemma lhm_get_remove_if:
  assumes "lhm_ok m"
  shows "lhm_get (lhm_remove_if p m) k =
    (case lhm_get m k of None \<Rightarrow> None | Some v \<Rightarrow> if p v then None else Some v)"
  using assms
proof (induction m)
  case (Cons e m)
  then have "fst e \<notin> fst ` set m" by (simp add: lhm_defs)
  then have "map_of m (fst e) = None" by (simp add: map_of_eq_None_iff)
  with Cons show ?case
    by (cases e) (auto simp: lhm_defs split: option.splits if_splits)
qed (simp add: lhm_defs)

lemma lhm_remove_absent: "lhm_get m k = None \<Longrightarrow> lhm_remove k m = m"
  by (induction m) (auto simp: lhm_get_def lhm_remove_def split: if_splits)

lemma lhm_values_remove_if: "lhm_values (lhm_remove_if p m) = filter (\<lambda>v. \<not> p v) (lhm_values m)"
  by (induction m) (auto simp: lhm_defs)

lemma lhm_remove_if_idem:
  "(\<And>v. p v \<Longrightarrow> q v) \<Longrightarrow> lhm_remove_if q (lhm_remove_if p m) = lhm_remove_if q m"
  by (induction m) (auto simp: lhm_defs)

text \<open>
  Rebuilding from the values: for a map whose values carry their keys this is the very same
  map, order included.
\<close>

definition lhm_load :: "('v \<Rightarrow> 'k) \<Rightarrow> 'v list \<Rightarrow> ('k, 'v) linked_map" where
  "lhm_load key vs = foldl (\<lambda>m v. lhm_put (key v) v m) [] vs"

definition lhm_keyed :: "('v \<Rightarrow> 'k) \<Rightarrow> ('k, 'v) linked_map \<Rightarrow> bool" where
  "lhm_keyed key m \<longleftrightarrow> lhm_ok m \<and> (\<forall>e \<in> set m. key (snd e) = fst e)"

lemma lhm_put_new: "k \<notin> fst ` set m \<Longrightarrow> lhm_put k v m = m @ [(k, v)]"
  by (induction m) (auto simp: lhm_defs)

lemma lhm_load_append:
  "lhm_keyed key (m @ m') \<Longrightarrow>
     foldl (\<lambda>m v. lhm_put (key v) v m) m (lhm_values m') = m @ m'"
proof (induction m' arbitrary: m)
  case (Cons e m')
  then have "key (snd e) = fst e" and "fst e \<notin> fst ` set m"
    by (auto simp: lhm_keyed_def lhm_defs)
  then have "lhm_put (key (snd e)) (snd e) m = m @ [e]"
    by (simp add: lhm_put_new)
  with Cons show ?case by (simp add: lhm_values_def)
qed (simp add: lhm_values_def)

lemma lhm_load_values: "lhm_keyed key m \<Longrightarrow> lhm_load key (lhm_values m) = m"
  using lhm_load_append [of key "[]" m] by (simp add: lhm_load_def)

lemma lhm_keyed_put: "lhm_keyed key m \<Longrightarrow> key v = k \<Longrightarrow> lhm_keyed key (lhm_put k v m)"
  unfolding lhm_keyed_def
proof (elim conjE, intro conjI)
  assume "lhm_ok m" then show "lhm_ok (lhm_put k v m)" by (rule lhm.ok_put)
next
  assume k: "key v = k" and m: "\<forall>e \<in> set m. key (snd e) = fst e"
  from m show "\<forall>e \<in> set (lhm_put k v m). key (snd e) = fst e"
    by (induction m) (auto simp: lhm_defs k)
qed

lemma lhm_keyed_remove: "lhm_keyed key m \<Longrightarrow> lhm_keyed key (lhm_remove k m)"
  by (auto simp: lhm_keyed_def lhm.ok_remove) (auto simp: lhm_defs)

lemma lhm_keyed_remove_if: "lhm_keyed key m \<Longrightarrow> lhm_keyed key (lhm_remove_if p m)"
  by (auto simp: lhm_keyed_def lhm_ok_remove_if) (auto simp: lhm_defs)

lemma lhm_keyed_Nil [simp]: "lhm_keyed key []"
  by (simp add: lhm_keyed_def lhm_defs)

lemma lhm_keyed_load: "lhm_keyed key (lhm_load key vs)"
proof -
  have "lhm_keyed key m \<Longrightarrow> lhm_keyed key (foldl (\<lambda>m v. lhm_put (key v) v m) m vs)" for m
    by (induction vs arbitrary: m) (simp_all add: lhm_keyed_put)
  then show ?thesis by (simp add: lhm_load_def)
qed

lemma lhm_keyed_ok: "lhm_keyed key m \<Longrightarrow> lhm_ok m"
  by (simp add: lhm_keyed_def)

lemma lhm_keyed_get: "lhm_keyed key m \<Longrightarrow> lhm_get m k = Some v \<Longrightarrow> key v = k"
  by (auto simp: lhm_keyed_def lhm_defs dest: map_of_SomeD)

lemma lhm_keyed_dom:
  assumes "lhm_keyed key m"
  shows "lhm_get m k \<noteq> None \<longleftrightarrow> k \<in> key ` set (lhm_values m)"
proof
  assume "lhm_get m k \<noteq> None"
  then obtain v where v: "lhm_get m k = Some v" by blast
  have "v \<in> set (lhm_values m)" by (rule lhm.get_in_vals [OF lhm_keyed_ok [OF assms] v])
  moreover have "key v = k" by (rule lhm_keyed_get [OF assms v])
  ultimately show "k \<in> key ` set (lhm_values m)" by blast
next
  assume "k \<in> key ` set (lhm_values m)"
  then obtain v where v: "v \<in> set (lhm_values m)" "k = key v" by blast
  then obtain k' where k': "lhm_get m k' = Some v"
    using lhm.in_vals_get [OF lhm_keyed_ok [OF assms]] by blast
  with lhm_keyed_get [OF assms k'] v show "lhm_get m k \<noteq> None" by simp
qed

section \<open>LinkedHashSet\<close>

definition lhs_add :: "'a \<Rightarrow> 'a list \<Rightarrow> 'a list" where
  "lhs_add x xs = (if x \<in> set xs then xs else xs @ [x])"

definition lhs_of :: "'a list \<Rightarrow> 'a list" where
  "lhs_of xs = foldl (\<lambda>acc x. lhs_add x acc) [] xs"

lemma set_lhs_add [simp]: "set (lhs_add x xs) = insert x (set xs)"
  by (auto simp: lhs_add_def)

lemma distinct_lhs_add: "distinct xs \<Longrightarrow> distinct (lhs_add x xs)"
  by (simp add: lhs_add_def)

lemma lhs_fold_distinct:
  "distinct acc \<Longrightarrow> distinct (foldl (\<lambda>acc x. lhs_add x acc) acc xs)"
  by (induction xs arbitrary: acc) (simp_all add: distinct_lhs_add)

lemma lhs_fold_set: "set (foldl (\<lambda>acc x. lhs_add x acc) acc xs) = set acc \<union> set xs"
  by (induction xs arbitrary: acc) auto

lemma lhs_fold_id:
  "distinct (acc @ xs) \<Longrightarrow> foldl (\<lambda>acc x. lhs_add x acc) acc xs = acc @ xs"
  by (induction xs arbitrary: acc) (simp_all add: lhs_add_def)

lemma distinct_lhs_of [simp]: "distinct (lhs_of xs)"
  by (simp add: lhs_of_def lhs_fold_distinct)

lemma set_lhs_of [simp]: "set (lhs_of xs) = set xs"
  by (simp add: lhs_of_def lhs_fold_set)

lemma lhs_of_distinct: "distinct xs \<Longrightarrow> lhs_of xs = xs"
  by (simp add: lhs_of_def lhs_fold_id)

lemma lhs_of_Nil_iff [simp]: "lhs_of xs = [] \<longleftrightarrow> xs = []"
  by (metis set_lhs_of set_empty)

end
