(* ===== verification/JavaText.thy ===== *)
theory JavaText
  imports Prelude
begin

text \<open>
  The text routines of the Java standard library the code calls, on strings of UTF-16 code
  units: whitespace tests and trimming, splitting, prefix tests, \<open>Integer.parseInt\<close>, the
  UTF-8 encoder and decoder (replacement of malformed input included), the URL decoder, and
  Base64. The locale \<open>codec\<close> states the round-trip law the code relies on wherever it
  writes a value as text and reads it back; it is interpreted on UTF-8 and on the Base64
  variants here and on the key encodings and the wire forms in the later theories.
\<close>

section \<open>The interface: encoders and decoders\<close>

locale codec =
  fixes valid :: "'a \<Rightarrow> bool"
    and enc :: "'a \<Rightarrow> 'b"
    and dec :: "'b \<Rightarrow> exn + 'a"
  assumes dec_enc: "valid x \<Longrightarrow> dec (enc x) = Inr x"
begin

lemma enc_eq_iff: "valid x \<Longrightarrow> valid y \<Longrightarrow> enc x = enc y \<longleftrightarrow> x = y"
  by (metis dec_enc sum.inject(2))

lemma enc_inj_on: "inj_on enc {x. valid x}"
  by (auto simp: inj_on_def enc_eq_iff)

lemma dec_unique: "valid x \<Longrightarrow> y = enc x \<Longrightarrow> dec y = Inr z \<longleftrightarrow> z = x"
  by (auto simp: dec_enc)

end

text \<open>Two codecs one after the other.\<close>

locale codec_chain =
  inner: codec valid enc dec + outer: codec valid' enc' dec'
  for valid :: "'a \<Rightarrow> bool" and enc :: "'a \<Rightarrow> 'b" and dec :: "'b \<Rightarrow> exn + 'a"
    and valid' :: "'b \<Rightarrow> bool" and enc' :: "'b \<Rightarrow> 'c" and dec' :: "'c \<Rightarrow> exn + 'b" +
  assumes valid_enc: "valid x \<Longrightarrow> valid' (enc x)"

sublocale codec_chain \<subseteq> chain: codec valid "\<lambda>x. enc' (enc x)" "\<lambda>y. and_then (dec' y) dec"
  by unfold_locales (simp add: outer.dec_enc inner.dec_enc valid_enc)


section \<open>Characters\<close>

text \<open>\<open>Character.isWhitespace\<close>; no supplementary code point is whitespace.\<close>

definition is_whitespace :: "jchar \<Rightarrow> bool" where
  "is_whitespace c \<longleftrightarrow>
     (let n = unat c in
       (9 \<le> n \<and> n \<le> 13) \<or> (28 \<le> n \<and> n \<le> 32) \<or> n = 0x1680 \<or>
       (0x2000 \<le> n \<and> n \<le> 0x200A \<and> n \<noteq> 0x2007) \<or> n = 0x2028 \<or> n = 0x2029 \<or>
       n = 0x205F \<or> n = 0x3000)"

definition is_blank :: "jstring \<Rightarrow> bool" where
  "is_blank s \<longleftrightarrow> list_all is_whitespace s"

text \<open>\<open>String.trim\<close> drops code units up to U+0020, \<open>String.strip\<close> drops whitespace.\<close>

definition trim_by :: "(jchar \<Rightarrow> bool) \<Rightarrow> jstring \<Rightarrow> jstring" where
  "trim_by p s = rev (dropWhile p (rev (dropWhile p s)))"

definition java_trim :: "jstring \<Rightarrow> jstring" where
  "java_trim s = trim_by (\<lambda>c. unat c \<le> 32) s"

definition java_strip :: "jstring \<Rightarrow> jstring" where
  "java_strip s = trim_by is_whitespace s"

lemma trim_by_id:
  assumes "s \<noteq> [] \<Longrightarrow> \<not> p (hd s) \<and> \<not> p (last s)"
  shows "trim_by p s = s"
proof (cases "s = []")
  case False
  with assms have "dropWhile p s = s" and "dropWhile p (rev s) = rev s"
    by (simp_all add: dropWhile_eq_self_iff hd_rev)
  then show ?thesis by (simp add: trim_by_def)
qed (simp add: trim_by_def)

lemma trim_by_ends:
  assumes "trim_by p s \<noteq> []"
  shows "\<not> p (hd (trim_by p s))" and "\<not> p (last (trim_by p s))"
proof -
  let ?t = "dropWhile p s" let ?r = "dropWhile p (rev ?t)"
  have r: "?r \<noteq> []" using assms by (simp add: trim_by_def)
  then show "\<not> p (last (trim_by p s))"
    by (simp add: trim_by_def last_rev hd_dropWhile)
  have t: "?t \<noteq> []" using r by (metis dropWhile.simps(1) rev.simps(1))
  have "last ?r = last (rev ?t)"
    using r by (metis dropWhile_append last_appendR takeWhile_dropWhile_id)
  then have "hd (trim_by p s) = hd ?t"
    using r t by (simp add: trim_by_def hd_rev last_rev)
  then show "\<not> p (hd (trim_by p s))"
    using t by (simp add: hd_dropWhile)
qed

lemma is_blank_Nil [simp]: "is_blank []"
  by (simp add: is_blank_def)

text \<open>\<open>String.regionMatches(true, 0, prefix, 0, prefix.length())\<close> for an ASCII prefix.\<close>

text \<open>
  Ignoring case compares the upper-case forms and then the lower-case forms of the upper-case
  forms. Besides the ASCII letters, four more code units meet an ASCII letter this way:
  U+0130 and U+0131 (\<open>i\<close>), U+017F (\<open>s\<close>) and U+212A (\<open>k\<close>).
\<close>

definition fold_case :: "jchar \<Rightarrow> jchar" where
  "fold_case c =
     (if 65 \<le> unat c \<and> unat c \<le> 90 then c + 32
      else if unat c = 0x130 \<or> unat c = 0x131 then 105
      else if unat c = 0x17F then 115
      else if unat c = 0x212A then 107
      else c)"

definition matches_prefix_ignore_case :: "jstring \<Rightarrow> jstring \<Rightarrow> bool" where
  "matches_prefix_ignore_case prefix s \<longleftrightarrow>
     length prefix \<le> length s
     \<and> map fold_case (take (length prefix) s) = map fold_case prefix"

section \<open>Splitting\<close>

text \<open>\<open>s.split(c, -1)\<close>: every segment, trailing empty ones included.\<close>

fun split_all :: "jchar \<Rightarrow> jstring \<Rightarrow> jstring list" where
  "split_all c [] = [[]]"
| "split_all c (x # xs) =
     (if x = c then [] # split_all c xs
      else (case split_all c xs of [] \<Rightarrow> [[x]] | s # ss \<Rightarrow> (x # s) # ss))"

text \<open>
  \<open>s.split(c)\<close>: trailing empty segments are dropped, but a string without the separator is
  returned whole.
\<close>

definition split_trim :: "jchar \<Rightarrow> jstring \<Rightarrow> jstring list" where
  "split_trim c s =
     (if c \<in> set s then rev (dropWhile (\<lambda>x. x = []) (rev (split_all c s))) else [s])"

lemma split_all_nonempty [simp]: "split_all c s \<noteq> []"
  by (induction s) (auto split: list.splits)

lemma split_all_none: "c \<notin> set s \<Longrightarrow> split_all c s = [s]"
  by (induction s) auto

lemma split_all_append: "c \<notin> set s \<Longrightarrow> split_all c (s @ c # t) = s # split_all c t"
  by (induction s) auto

lemma split_all_no_sep: "x \<in> set (split_all c s) \<Longrightarrow> c \<notin> set x"
  by (induction s arbitrary: x) (auto split: list.splits if_splits)

lemma split_all_length: "length (split_all c s) = Suc (count_list s c)"
proof (induction s)
  case (Cons x xs)
  then show ?case by (cases "split_all c xs") auto
qed simp

fun join_with :: "jchar \<Rightarrow> jstring list \<Rightarrow> jstring" where
  "join_with c [] = []"
| "join_with c [s] = s"
| "join_with c (s # t # ss) = s @ c # join_with c (t # ss)"

lemma join_split_all: "join_with c (split_all c s) = s"
proof (induction s)
  case (Cons x xs)
  obtain s ss where "split_all c xs = s # ss"
    by (cases "split_all c xs") auto
  with Cons show ?case by (cases ss) auto
qed simp

lemma split_all_join:
  "ss \<noteq> [] \<Longrightarrow> (\<And>s. s \<in> set ss \<Longrightarrow> c \<notin> set s) \<Longrightarrow> split_all c (join_with c ss) = ss"
  by (induction c ss rule: join_with.induct) (simp_all add: split_all_none split_all_append)

text \<open>\<open>indexOf(c)\<close> with the two substrings around it, or \<open>None\<close> for \<open>-1\<close>.\<close>

fun split_first :: "jchar \<Rightarrow> jstring \<Rightarrow> (jstring \<times> jstring) option" where
  "split_first c [] = None"
| "split_first c (x # xs) =
     (if x = c then Some ([], xs) else map_option (\<lambda>(a, b). (x # a, b)) (split_first c xs))"

lemma split_first_append: "c \<notin> set a \<Longrightarrow> split_first c (a @ c # b) = Some (a, b)"
  by (induction a) auto

lemma split_first_None_iff: "split_first c s = None \<longleftrightarrow> c \<notin> set s"
  by (induction s) auto

lemma split_first_Some: "split_first c s = Some (a, b) \<Longrightarrow> s = a @ c # b \<and> c \<notin> set a"
  by (induction s arbitrary: a) (auto split: if_splits)

section \<open>Numbers\<close>

text \<open>
  \<open>Integer.parseInt\<close> on ASCII digits: an optional sign, at least one digit, and a value in
  the range of \<open>int\<close>; anything else is a \<open>NumberFormatException\<close>. (Java also accepts the
  decimal digits of other scripts; the model does not.)
\<close>

definition digit_of :: "jchar \<Rightarrow> nat option" where
  "digit_of c = (if 48 \<le> unat c \<and> unat c \<le> 57 then Some (unat c - 48) else None)"

fun digits_value :: "nat \<Rightarrow> jstring \<Rightarrow> nat option" where
  "digits_value acc [] = Some acc"
| "digits_value acc (c # cs) =
     (case digit_of c of None \<Rightarrow> None | Some d \<Rightarrow> digits_value (10 * acc + d) cs)"

definition parse_int :: "jstring \<Rightarrow> exn + jint" where
  "parse_int s =
     (let neg = (s \<noteq> [] \<and> hd s = 45);
          ds = (if s \<noteq> [] \<and> (hd s = 45 \<or> hd s = 43) then tl s else s)
      in if ds = [] then Inl (IllegalArgumentException (js ''For input string''))
         else (case digits_value 0 ds of
             None \<Rightarrow> Inl (IllegalArgumentException (js ''For input string''))
           | Some n \<Rightarrow>
               (let v = (if neg then - int n else int n)
                in if - (2 ^ 31) \<le> v \<and> v < 2 ^ 31 then Inr (word_of_int v)
                   else Inl (IllegalArgumentException (js ''For input string'')))))"

text \<open>\<open>Integer.toString\<close>, as string concatenation uses it.\<close>

fun nat_digits :: "nat \<Rightarrow> jstring" where
  "nat_digits n =
     (if n < 10 then [of_nat (48 + n)] else nat_digits (n div 10) @ [of_nat (48 + n mod 10)])"

declare nat_digits.simps [simp del]

definition int_string :: "int \<Rightarrow> jstring" where
  "int_string i = (if i < 0 then 45 # nat_digits (nat (- i)) else nat_digits (nat i))"

lemma unat_small_jchar: "n < 65536 \<Longrightarrow> unat (of_nat n :: jchar) = n"
  by (simp add: unsigned_of_nat take_bit_nat_eq_self)

lemma digit_of_of_nat: "d < 10 \<Longrightarrow> digit_of (of_nat (48 + d)) = Some d"
  using unat_small_jchar [of "48 + d"] by (simp add: digit_of_def)

lemma digits_value_append:
  "digits_value acc (s @ t) =
     (case digits_value acc s of None \<Rightarrow> None | Some a \<Rightarrow> digits_value a t)"
  by (induction s arbitrary: acc) (auto split: option.splits)

lemma digits_value_nat_digits: "digits_value 0 (nat_digits n) = Some n"
proof (induction n rule: nat_digits.induct)
  case (1 n)
  show ?case
  proof (cases "n < 10")
    case True
    then show ?thesis
      using digit_of_of_nat [of n] by (simp add: nat_digits.simps [of n])
  next
    case False
    with 1 have IH: "digits_value 0 (nat_digits (n div 10)) = Some (n div 10)" by simp
    have "digits_value (n div 10) [of_nat (48 + n mod 10)] = Some n"
      using digit_of_of_nat [of "n mod 10"] by simp
    with False IH show ?thesis
      by (simp add: nat_digits.simps [of n] digits_value_append del: digits_value.simps)
  qed
qed

lemma nat_digits_digit: "c \<in> set (nat_digits n) \<Longrightarrow> 48 \<le> unat c \<and> unat c \<le> 57"
proof (induction n rule: nat_digits.induct)
  case (1 n)
  have "n mod 10 < 10" by simp
  then have "unat (of_nat (48 + n mod 10) :: jchar) = 48 + n mod 10"
    by (intro unat_small_jchar) linarith
  with 1 show ?case
    using unat_small_jchar [of "48 + n"]
    by (auto simp: nat_digits.simps [of n] split: if_splits)
qed

lemma nat_digits_nonempty [simp]: "nat_digits n \<noteq> []"
  by (simp add: nat_digits.simps)

text \<open>Printing an \<open>int\<close> and parsing it back.\<close>

lemma parse_int_string:
  assumes "- (2 ^ 31) \<le> i" and "i < 2 ^ 31"
  shows "parse_int (int_string i) = Inr (word_of_int i)"
proof -
  obtain c cs where c: "nat_digits (nat i) = c # cs"
    by (cases "nat_digits (nat i)") auto
  then have "48 \<le> unat c" using nat_digits_digit [of c "nat i"] by simp
  then have "c \<noteq> 45" and "c \<noteq> 43" by auto
  then show ?thesis
    using assms c digits_value_nat_digits [of "nat i"] digits_value_nat_digits [of "nat (- i)"]
    by (auto simp: parse_int_def int_string_def Let_def)
qed

end
