(* ===== verification/JsonTree.thy ===== *)
theory JsonTree
  imports Prelude
begin

text \<open>
  JSON documents as trees. The repository's records say with Jackson annotations which
  fields they have, under which names and which are left out when \<open>null\<close>; the functions
  ending in \<open>_json\<close> in the later theories are that mapping. Turning a tree into bytes, and
  bytes into a record, is Jackson's work: it is a parameter of the definitions that use it.
\<close>

datatype json =
    JNull
  | JBool bool
  | JNumber int
  | JString jstring
  | JArray "json list"
  | JObject "(jstring \<times> json) list"

definition json_nullable :: "('a \<Rightarrow> json) \<Rightarrow> 'a option \<Rightarrow> json" where
  "json_nullable f x = (case x of None \<Rightarrow> JNull | Some y \<Rightarrow> f y)"

lemma json_nullable_simps [simp]:
  "json_nullable f None = JNull"
  "json_nullable f (Some x) = f x"
  by (simp_all add: json_nullable_def)

text \<open>\<open>@JsonInclude(NON_NULL)\<close>: members whose value is \<open>null\<close> are left out.\<close>

definition non_null :: "(jstring \<times> json) list \<Rightarrow> (jstring \<times> json) list" where
  "non_null ms = filter (\<lambda>m. snd m \<noteq> JNull) ms"

definition json_long :: "long \<Rightarrow> json" where
  "json_long x = JNumber (sint x)"

lemma json_long_eq_iff [simp]: "json_long x = json_long y \<longleftrightarrow> x = y"
proof
  assume "json_long x = json_long y"
  then have "sint x = sint y" by (simp add: json_long_def)
  then have "(word_of_int (sint x) :: long) = word_of_int (sint y)" by (rule arg_cong)
  then show "x = y" by simp
qed simp

text \<open>The strings that occur in a document, member names left aside.\<close>

fun json_strings :: "json \<Rightarrow> jstring set" where
  "json_strings (JString s) = {s}"
| "json_strings (JArray xs) = (\<Union>x \<in> set xs. json_strings x)"
| "json_strings (JObject ms) = (\<Union>m \<in> set ms. json_strings (snd m))"
| "json_strings _ = {}"

lemma json_strings_nullable [simp]:
  "json_strings (json_nullable f x) = (case x of None \<Rightarrow> {} | Some y \<Rightarrow> json_strings (f y))"
  by (cases x) simp_all

lemma json_strings_long [simp]: "json_strings (json_long x) = {}"
  by (simp add: json_long_def)

lemma json_strings_non_null [simp]:
  "(\<Union>m \<in> set (non_null ms). json_strings (snd m)) = (\<Union>m \<in> set ms. json_strings (snd m))"
  by (auto simp: non_null_def)

end
