(* ===== verification/Auth.thy ===== *)
theory Auth
  imports Containers JavaText JsonTree
begin

text \<open>
  The authorization model: \<open>auth/KeyOperation.java\<close>, \<open>auth/Grant.java\<close>,
  \<open>auth/Authorization.java\<close> and their wire form \<open>token/GrantsClaim.java\<close>. The wire form
  may hold anything JSON can express (absent groups, blank names, unknown operations); the
  domain form cannot, and the lemmas show that the step between them loses nothing and
  admits nothing: it is a \<open>codec\<close>, and a successful conversion permits exactly what the
  claim says.
\<close>

section \<open>auth/KeyOperation.java\<close>

datatype KeyOperation = GENERATE_DATA_KEY | ENCRYPT | DECRYPT | RE_ENCRYPT

fun KeyOperation_name :: "KeyOperation \<Rightarrow> jstring" where
  "KeyOperation_name GENERATE_DATA_KEY = js ''GENERATE_DATA_KEY''"
| "KeyOperation_name ENCRYPT = js ''ENCRYPT''"
| "KeyOperation_name DECRYPT = js ''DECRYPT''"
| "KeyOperation_name RE_ENCRYPT = js ''RE_ENCRYPT''"

fun KeyOperation_ordinal :: "KeyOperation \<Rightarrow> nat" where
  "KeyOperation_ordinal GENERATE_DATA_KEY = 0"
| "KeyOperation_ordinal ENCRYPT = 1"
| "KeyOperation_ordinal DECRYPT = 2"
| "KeyOperation_ordinal RE_ENCRYPT = 3"

definition KeyOperation_values :: "KeyOperation list" where
  "KeyOperation_values = [GENERATE_DATA_KEY, ENCRYPT, DECRYPT, RE_ENCRYPT]"

text \<open>\<open>Enum.valueOf\<close>: a null name and an unknown name are different exceptions.\<close>

definition KeyOperation_valueOf :: "jstring option \<Rightarrow> exn + KeyOperation" where
  "KeyOperation_valueOf name =
     (case name of
        None \<Rightarrow> Inl NullPointerException
      | Some s \<Rightarrow>
          (case find (\<lambda>k. KeyOperation_name k = s) KeyOperation_values of
             Some k \<Rightarrow> Inr k
           | None \<Rightarrow> Inl (IllegalArgumentException
               (js ''No enum constant com.codeheadsystems.miniidp.auth.KeyOperation.'' @ s))))"

instantiation KeyOperation :: linorder
begin

definition less_eq_KeyOperation :: "KeyOperation \<Rightarrow> KeyOperation \<Rightarrow> bool" where
  "less_eq_KeyOperation a b \<longleftrightarrow> KeyOperation_ordinal a \<le> KeyOperation_ordinal b"

definition less_KeyOperation :: "KeyOperation \<Rightarrow> KeyOperation \<Rightarrow> bool" where
  "less_KeyOperation a b \<longleftrightarrow> KeyOperation_ordinal a < KeyOperation_ordinal b"

instance
proof
  fix x y :: KeyOperation
  show "x \<le> y \<Longrightarrow> y \<le> x \<Longrightarrow> x = y"
    by (cases x; cases y) (simp_all add: less_eq_KeyOperation_def)
qed (auto simp: less_eq_KeyOperation_def less_KeyOperation_def)

end

lemma KeyOperation_name_eq_iff [simp]: "KeyOperation_name a = KeyOperation_name b \<longleftrightarrow> a = b"
  by (cases a; cases b) simp_all

lemma KeyOperation_in_values [simp]: "k \<in> set KeyOperation_values"
  by (cases k) (simp_all add: KeyOperation_values_def)

lemma valueOf_name [simp]: "KeyOperation_valueOf (Some (KeyOperation_name k)) = Inr k"
  by (cases k) (simp_all add: KeyOperation_valueOf_def KeyOperation_values_def)

lemma valueOf_Inr_iff: "KeyOperation_valueOf n = Inr k \<longleftrightarrow> n = Some (KeyOperation_name k)"
proof
  assume "KeyOperation_valueOf n = Inr k"
  then show "n = Some (KeyOperation_name k)"
    by (auto simp: KeyOperation_valueOf_def find_Some_iff split: option.splits)
qed simp

lemma valueOf_Inl_iff:
  "(\<exists>e. KeyOperation_valueOf n = Inl e) \<longleftrightarrow> (\<forall>k. n \<noteq> Some (KeyOperation_name k))"
  by (metis valueOf_Inr_iff sum.exhaust sum.distinct(1))

section \<open>auth/Grant.java\<close>

record Grant =
  g_keyGroup :: jstring
  g_operations :: "KeyOperation list"

text \<open>
  The compact constructor, on a possibly null name and a possibly null set that may hold
  null: its checks in order, and the copy into a \<open>LinkedHashSet\<close>.
\<close>

definition mk_Grant :: "jstring option \<Rightarrow> KeyOperation option list option \<Rightarrow> exn + Grant" where
  "mk_Grant keyGroup operations =
     (case keyGroup of
        None \<Rightarrow> Inl (IllegalArgumentException (js ''grant keyGroup must not be blank''))
      | Some k \<Rightarrow>
          if is_blank k then Inl (IllegalArgumentException (js ''grant keyGroup must not be blank''))
          else (case operations of
              None \<Rightarrow> Inl (IllegalArgumentException (js ''grant operations must not be empty''))
            | Some ops \<Rightarrow>
                if ops = [] then
                  Inl (IllegalArgumentException (js ''grant operations must not be empty''))
                else (let copy = lhs_of ops in
                  if None \<in> set copy then
                    Inl (IllegalArgumentException (js ''grant operations must not contain null''))
                  else Inr \<lparr>g_keyGroup = k, g_operations = map the copy\<rparr>)))"

text \<open>
  \<open>Grant.of\<close>: \<open>Set.of\<close> rejects null and duplicates, \<open>EnumSet.copyOf\<close> rejects an empty
  collection and lists its members in declaration order.
\<close>

definition Grant_of :: "jstring option \<Rightarrow> KeyOperation option list \<Rightarrow> exn + Grant" where
  "Grant_of keyGroup operations =
     (if None \<in> set operations then Inl NullPointerException
      else if \<not> distinct operations then
        Inl (IllegalArgumentException (js ''duplicate element''))
      else if operations = [] then
        Inl (IllegalArgumentException (js ''Collection is empty''))
      else mk_Grant keyGroup (Some (map Some (sort (map the operations)))))"

definition wf_grant :: "Grant \<Rightarrow> bool" where
  "wf_grant g \<longleftrightarrow> \<not> is_blank (g_keyGroup g) \<and> g_operations g \<noteq> [] \<and> distinct (g_operations g)"

lemma mk_Grant_Some:
  "mk_Grant (Some k) (Some (map Some ops)) =
     (if is_blank k then Inl (IllegalArgumentException (js ''grant keyGroup must not be blank''))
      else if ops = [] then
        Inl (IllegalArgumentException (js ''grant operations must not be empty''))
      else Inr \<lparr>g_keyGroup = k, g_operations = map the (lhs_of (map Some ops))\<rparr>)"
  by (auto simp: mk_Grant_def Let_def)

lemma mk_Grant_distinct:
  "distinct ops \<Longrightarrow> \<not> is_blank k \<Longrightarrow> ops \<noteq> [] \<Longrightarrow>
     mk_Grant (Some k) (Some (map Some ops)) = Inr \<lparr>g_keyGroup = k, g_operations = ops\<rparr>"
  by (simp add: mk_Grant_Some lhs_of_distinct distinct_map comp_def)

lemma mk_Grant_wf: "mk_Grant k ops = Inr g \<Longrightarrow> wf_grant g"
  by (auto simp: mk_Grant_def Let_def wf_grant_def distinct_map inj_on_def
      split: option.splits if_splits)
     (metis option.expand)

lemma mk_Grant_Inl: "mk_Grant k ops = Inl e \<Longrightarrow> is_illegal_argument e"
  by (auto simp: mk_Grant_def Let_def split: option.splits if_splits)

lemma mk_Grant_fields:
  "mk_Grant k (Some (map Some ops)) = Inr g \<Longrightarrow>
     k = Some (g_keyGroup g) \<and> set (g_operations g) = set ops"
  by (auto simp: mk_Grant_def Let_def image_image split: option.splits if_splits)

lemma Grant_of_sorted: "Grant_of k ops = Inr g \<Longrightarrow> sorted (g_operations g) \<and> wf_grant g"
proof -
  assume r: "Grant_of k ops = Inr g"
  then have d: "distinct ops" and n: "None \<notin> set ops" and
    m: "mk_Grant k (Some (map Some (sort (map the ops)))) = Inr g"
    by (auto simp: Grant_of_def split: if_splits)
  from d n have "distinct (map the ops)"
    by (auto simp: distinct_map inj_on_def) (metis option.expand)
  then have "lhs_of (map Some (sort (map the ops))) = map Some (sort (map the ops))"
    by (intro lhs_of_distinct) (simp add: distinct_map)
  with m have "g_operations g = sort (map the ops)"
    by (auto simp: mk_Grant_def Let_def comp_def split: option.splits if_splits)
  with mk_Grant_wf [OF m] show ?thesis by simp
qed

section \<open>auth/Authorization.java\<close>

record Authorization =
  a_controlPlane :: bool
  a_grants :: "Grant list"

text \<open>The compact constructor: \<open>List.copyOf\<close> rejects null elements.\<close>

definition mk_Authorization :: "bool \<Rightarrow> Grant option list option \<Rightarrow> exn + Authorization" where
  "mk_Authorization controlPlane grants =
     (case grants of
        None \<Rightarrow> Inr \<lparr>a_controlPlane = controlPlane, a_grants = []\<rparr>
      | Some gs \<Rightarrow>
          if None \<in> set gs then Inl NullPointerException
          else Inr \<lparr>a_controlPlane = controlPlane, a_grants = map the gs\<rparr>)"

definition Authorization_none :: Authorization where
  "Authorization_none = \<lparr>a_controlPlane = False, a_grants = []\<rparr>"

definition Authorization_ofGrants :: "Grant option list option \<Rightarrow> exn + Authorization" where
  "Authorization_ofGrants grants = mk_Authorization False grants"

definition Authorization_grantsCopy :: "Authorization \<Rightarrow> Grant list" where
  "Authorization_grantsCopy a = a_grants a"

definition wf_authorization :: "Authorization \<Rightarrow> bool" where
  "wf_authorization a \<longleftrightarrow> (\<forall>g \<in> set (a_grants a). wf_grant g)"

lemma wf_authorization_none [simp]: "wf_authorization Authorization_none"
  by (simp add: wf_authorization_def Authorization_none_def)

text \<open>What an authorization permits on the data plane: the lookup a verifier makes.\<close>

definition permits :: "Authorization \<Rightarrow> jstring \<Rightarrow> KeyOperation \<Rightarrow> bool" where
  "permits a k op \<longleftrightarrow> list_ex (\<lambda>g. g_keyGroup g = k \<and> op \<in> set (g_operations g)) (a_grants a)"

section \<open>token/GrantsClaim.java\<close>

record Group =
  gp_keyGroup :: "jstring option"
  gp_operations :: "jstring option list option"

record GrantsClaim =
  gc_control :: bool
  gc_groups :: "Group option list option"

definition GrantsClaim_from :: "Authorization \<Rightarrow> GrantsClaim" where
  "GrantsClaim_from authorization =
     \<lparr>gc_control = a_controlPlane authorization,
      gc_groups = Some (map (\<lambda>grant. Some
        \<lparr>gp_keyGroup = Some (g_keyGroup grant),
         gp_operations = Some (map (\<lambda>op. Some (KeyOperation_name op)) (g_operations grant))\<rparr>)
        (a_grants authorization))\<rparr>"

text \<open>The inner loop of \<open>toAuthorization\<close>: parse the operations into a \<open>LinkedHashSet\<close>.\<close>

definition Group_ops :: "Group \<Rightarrow> exn + KeyOperation list" where
  "Group_ops grp =
     (case gp_operations grp of
        None \<Rightarrow> Inr []
      | Some ops \<Rightarrow> and_then (map_throw KeyOperation_valueOf ops) (\<lambda>ks. Inr (lhs_of ks)))"

definition Group_grant :: "Group option \<Rightarrow> exn + Grant" where
  "Group_grant grp =
     (case grp of
        None \<Rightarrow> Inl NullPointerException
      | Some g \<Rightarrow> and_then (Group_ops g) (\<lambda>ops. mk_Grant (gp_keyGroup g) (Some (map Some ops))))"

definition GrantsClaim_toAuthorization :: "GrantsClaim \<Rightarrow> exn + Authorization" where
  "GrantsClaim_toAuthorization claim =
     (case gc_groups claim of
        None \<Rightarrow> mk_Authorization (gc_control claim) (Some [])
      | Some groups \<Rightarrow>
          and_then (map_throw Group_grant groups)
            (\<lambda>grants. mk_Authorization (gc_control claim) (Some (map Some grants))))"

text \<open>What a claim says on the wire.\<close>

definition claim_permits :: "GrantsClaim \<Rightarrow> jstring \<Rightarrow> KeyOperation \<Rightarrow> bool" where
  "claim_permits c k op \<longleftrightarrow>
     (case gc_groups c of
        None \<Rightarrow> False
      | Some gs \<Rightarrow> list_ex (\<lambda>g. case g of
            None \<Rightarrow> False
          | Some grp \<Rightarrow> gp_keyGroup grp = Some k \<and>
              (case gp_operations grp of
                 None \<Rightarrow> False
               | Some ops \<Rightarrow> Some (KeyOperation_name op) \<in> set ops)) gs)"

lemma mk_Authorization_Some [simp]:
  "mk_Authorization c (Some (map Some gs)) = Inr \<lparr>a_controlPlane = c, a_grants = gs\<rparr>"
  by (auto simp: mk_Authorization_def comp_def)

lemma Group_grant_from:
  assumes "wf_grant g"
  shows "Group_grant (Some
     \<lparr>gp_keyGroup = Some (g_keyGroup g),
      gp_operations = Some (map (\<lambda>op. Some (KeyOperation_name op)) (g_operations g))\<rparr>) = Inr g"
proof -
  have "map_throw KeyOperation_valueOf (map (\<lambda>op. Some (KeyOperation_name op)) ops) = Inr ops" for ops
    by (simp add: map_throw_map map_throw_total [where g = id, simplified])
  with assms show ?thesis
    by (simp add: Group_grant_def Group_ops_def wf_grant_def lhs_of_distinct mk_Grant_distinct)
qed

interpretation grants: codec wf_authorization GrantsClaim_from GrantsClaim_toAuthorization
proof
  fix a assume wf: "wf_authorization a"
  have "map_throw Group_grant (map (\<lambda>grant. Some
        \<lparr>gp_keyGroup = Some (g_keyGroup grant),
         gp_operations = Some (map (\<lambda>op. Some (KeyOperation_name op)) (g_operations grant))\<rparr>)
        (a_grants a)) = Inr (map id (a_grants a))"
    unfolding map_throw_map
    by (rule map_throw_total) (use wf in \<open>simp add: wf_authorization_def Group_grant_from\<close>)
  then show "GrantsClaim_toAuthorization (GrantsClaim_from a) = Inr a"
    by (simp add: GrantsClaim_toAuthorization_def GrantsClaim_from_def)
qed

lemma map_throw_valueOf:
  "map_throw KeyOperation_valueOf ops = Inr ks \<longleftrightarrow> ops = map (\<lambda>k. Some (KeyOperation_name k)) ks"
  by (simp add: map_throw_Inr_iff valueOf_Inr_iff list_eq_iff_nth_eq list_all2_conv_all_nth)
     auto

lemma Group_ops_Inr:
  "Group_ops g = Inr ops \<Longrightarrow>
     op \<in> set ops \<longleftrightarrow>
       (case gp_operations g of None \<Rightarrow> False | Some os \<Rightarrow> Some (KeyOperation_name op) \<in> set os)"
  by (auto simp: Group_ops_def and_then_Inr_iff map_throw_valueOf split: option.splits)

lemma Group_grant_Inr:
  assumes "Group_grant grp = Inr g"
  shows "wf_grant g"
    and "\<exists>g'. grp = Some g' \<and> gp_keyGroup g' = Some (g_keyGroup g)
          \<and> (\<forall>op. op \<in> set (g_operations g) \<longleftrightarrow>
               (case gp_operations g' of None \<Rightarrow> False
                | Some os \<Rightarrow> Some (KeyOperation_name op) \<in> set os))"
proof -
  from assms obtain g' ops where g': "grp = Some g'" "Group_ops g' = Inr ops"
      "mk_Grant (gp_keyGroup g') (Some (map Some ops)) = Inr g"
    by (auto simp: Group_grant_def and_then_Inr_iff split: option.splits)
  from g'(3) show "wf_grant g" by (rule mk_Grant_wf)
  from mk_Grant_fields [OF g'(3)] Group_ops_Inr [OF g'(2)] g'(1)
  show "\<exists>g'. grp = Some g' \<and> gp_keyGroup g' = Some (g_keyGroup g)
          \<and> (\<forall>op. op \<in> set (g_operations g) \<longleftrightarrow>
               (case gp_operations g' of None \<Rightarrow> False
                | Some os \<Rightarrow> Some (KeyOperation_name op) \<in> set os))"
    by auto
qed

lemma toAuthorization_Inr:
  assumes "GrantsClaim_toAuthorization c = Inr a"
  obtains grants where "a = \<lparr>a_controlPlane = gc_control c, a_grants = grants\<rparr>"
    and "(gc_groups c = None \<and> grants = []) \<or>
         (\<exists>gs. gc_groups c = Some gs \<and> list_all2 (\<lambda>x y. Group_grant x = Inr y) gs grants)"
  using assms
  by (cases "gc_groups c")
     (auto simp: GrantsClaim_toAuthorization_def and_then_Inr_iff map_throw_Inr_iff
       mk_Authorization_def)

lemma toAuthorization_wf: "GrantsClaim_toAuthorization c = Inr a \<Longrightarrow> wf_authorization a"
  by (erule toAuthorization_Inr)
     (auto simp: wf_authorization_def dest: list_all2_ex_right Group_grant_Inr(1))

lemma permits_iff: "permits a k op \<longleftrightarrow>
    (\<exists>g \<in> set (a_grants a). g_keyGroup g = k \<and> op \<in> set (g_operations g))"
  by (simp add: permits_def list_ex_iff)

lemma claim_permits_iff: "claim_permits c k op \<longleftrightarrow>
    (\<exists>gs g ops. gc_groups c = Some gs \<and> Some g \<in> set gs \<and> gp_keyGroup g = Some k
       \<and> gp_operations g = Some ops \<and> Some (KeyOperation_name op) \<in> set ops)"
  by (auto simp: claim_permits_def list_ex_iff split: option.splits)
     (metis option.exhaust_sel)+

section \<open>Properties\<close>

text \<open>
  \<open>toAuthorization\<close> is the inverse of \<open>from\<close>: an authorization whose grants passed the
  \<open>Grant\<close> constructor survives the trip through the wire form unchanged.
\<close>

lemma grants_claim_roundtrip:
  "wf_authorization a \<Longrightarrow> GrantsClaim_toAuthorization (GrantsClaim_from a) = Inr a"
  by (rule grants.dec_enc)

lemma grants_claim_roundtrip_example:
  "GrantsClaim_toAuthorization (GrantsClaim_from
     \<lparr>a_controlPlane = True, a_grants =
       [\<lparr>g_keyGroup = js ''billing'', g_operations = [ENCRYPT, DECRYPT]\<rparr>]\<rparr>)
   = Inr \<lparr>a_controlPlane = True, a_grants =
       [\<lparr>g_keyGroup = js ''billing'', g_operations = [ENCRYPT, DECRYPT]\<rparr>]\<rparr>"
  by (rule grants_claim_roundtrip)
     (simp add: wf_authorization_def wf_grant_def is_blank_def js_def is_whitespace_def)

text \<open>
  C28. A successful \<open>toAuthorization\<close> neither widens nor narrows access: the authorization
  permits an operation on a key group exactly when the claim names it, the control flag is
  the claim's, and every grant is well formed.
\<close>

theorem toAuthorization_exact:
  assumes "GrantsClaim_toAuthorization c = Inr a"
  shows "(permits a k op \<longleftrightarrow> claim_permits c k op)
     \<and> a_controlPlane a = gc_control c \<and> wf_authorization a"
proof -
  from assms obtain gs where a: "a = \<lparr>a_controlPlane = gc_control c, a_grants = gs\<rparr>"
    and gs: "(gc_groups c = None \<and> gs = []) \<or>
      (\<exists>ws. gc_groups c = Some ws \<and> list_all2 (\<lambda>x y. Group_grant x = Inr y) ws gs)"
    by (rule toAuthorization_Inr)
  have "permits a k op \<longleftrightarrow> claim_permits c k op"
  proof
    assume "permits a k op"
    then obtain g where g: "g \<in> set gs" "g_keyGroup g = k" "op \<in> set (g_operations g)"
      using a by (auto simp: permits_iff)
    with gs obtain ws w where "gc_groups c = Some ws" "w \<in> set ws" "Group_grant w = Inr g"
      by (auto dest: list_all2_ex_right)
    with g Group_grant_Inr(2) [of w g] show "claim_permits c k op"
      by (fastforce simp: claim_permits_iff split: option.splits)
  next
    assume "claim_permits c k op"
    then obtain ws w ops where w: "gc_groups c = Some ws" "Some w \<in> set ws"
      "gp_keyGroup w = Some k" "gp_operations w = Some ops"
      "Some (KeyOperation_name op) \<in> set ops"
      by (auto simp: claim_permits_iff)
    with gs obtain g where "g \<in> set gs" "Group_grant (Some w) = Inr g"
      by (auto dest: list_all2_ex)
    with w a Group_grant_Inr(2) [of "Some w" g] show "permits a k op"
      by (auto simp: permits_iff)
  qed
  with a toAuthorization_wf [OF assms] show ?thesis by simp
qed

theorem toAuthorization_exact_witness:
  "permits \<lparr>a_controlPlane = False, a_grants =
       [\<lparr>g_keyGroup = js ''billing'', g_operations = [ENCRYPT]\<rparr>]\<rparr> (js ''billing'') ENCRYPT
   \<and> \<not> permits \<lparr>a_controlPlane = False, a_grants =
       [\<lparr>g_keyGroup = js ''billing'', g_operations = [ENCRYPT]\<rparr>]\<rparr> (js ''billing'') DECRYPT"
proof -
  let ?c = "\<lparr>gc_control = False, gc_groups = Some [Some \<lparr>gp_keyGroup = Some (js ''billing''),
      gp_operations = Some [Some (js ''ENCRYPT'')]\<rparr>]\<rparr>"
  have c: "GrantsClaim_toAuthorization ?c = Inr \<lparr>a_controlPlane = False, a_grants =
       [\<lparr>g_keyGroup = js ''billing'', g_operations = [ENCRYPT]\<rparr>]\<rparr>"
    by code_simp
  show ?thesis
    using toAuthorization_exact [OF c, of "js ''billing''" ENCRYPT]
      toAuthorization_exact [OF c, of "js ''billing''" DECRYPT]
    by (simp add: claim_permits_def)
qed

text \<open>
  An operation name outside the enum is rejected loudly: no claim that mentions one
  becomes an authorization.
\<close>

lemma toAuthorization_unknown_operation:
  assumes "gc_groups c = Some gs" and "Some g \<in> set gs" and "gp_operations g = Some ops"
    and "Some name \<in> set ops" and "\<forall>k. name \<noteq> KeyOperation_name k"
  shows "\<exists>e. GrantsClaim_toAuthorization c = Inl e"
proof (rule ccontr)
  assume "\<not> ?thesis"
  then obtain a where "GrantsClaim_toAuthorization c = Inr a"
    by (cases "GrantsClaim_toAuthorization c") auto
  with assms(1) obtain gs' where "list_all2 (\<lambda>x y. Group_grant x = Inr y) gs gs'"
    by (auto elim: toAuthorization_Inr)
  with assms(2) obtain g' where "Group_grant (Some g) = Inr g'"
    by (auto dest: list_all2_ex)
  then obtain ks where "map_throw KeyOperation_valueOf ops = Inr ks"
    using assms(3) by (auto simp: Group_grant_def Group_ops_def and_then_Inr_iff)
  with assms(4,5) show False by (auto simp: map_throw_valueOf)
qed

lemma toAuthorization_unknown_operation_example:
  "\<exists>e. GrantsClaim_toAuthorization \<lparr>gc_control = False, gc_groups =
     Some [Some \<lparr>gp_keyGroup = Some (js ''billing''),
                 gp_operations = Some [Some (js ''ENCYRPT'')]\<rparr>]\<rparr> = Inl e"
proof -
  have "\<forall>k. js ''ENCYRPT'' \<noteq> KeyOperation_name k"
    by (intro allI, rename_tac k, case_tac k) simp_all
  then show ?thesis
    by (intro toAuthorization_unknown_operation [where name = "js ''ENCYRPT''"
          and g = "\<lparr>gp_keyGroup = Some (js ''billing''),
                    gp_operations = Some [Some (js ''ENCYRPT'')]\<rparr>"
          and ops = "[Some (js ''ENCYRPT'')]"]) (simp; fail)+
qed

end
