(* ===== verification/Encodings.thy ===== *)
theory Encodings
  imports JavaText
begin

text \<open>
  Byte encodings. UTF-8 as the Java library writes and reads it (unpaired surrogates and
  malformed bytes are replaced), the percent-decoder of \<open>java.net.URLDecoder\<close>, the Base64
  encoders and decoders of \<open>java.util.Base64\<close>, and on top of them the repository's own
  \<open>token/Base64Url.java\<close>. The round-trip laws are interpretations of the locale \<open>codec\<close>.
\<close>

section \<open>Bytes and naturals\<close>

lemma unat_byte: "n < 256 \<Longrightarrow> unat (of_nat n :: byte) = n"
  by (simp add: unsigned_of_nat take_bit_nat_eq_self)

lemma unat_byte_less: "unat (b :: byte) < 256"
  using unsigned_less [of b] by simp

lemma unat_jchar_less: "unat (c :: jchar) < 65536"
  using unsigned_less [of c] by simp

lemma map_unat_of_nat:
  "(\<And>n. n \<in> set ns \<Longrightarrow> n < 256) \<Longrightarrow> map unat (map of_nat ns :: byte list) = ns"
  by (induction ns) (simp_all add: unat_byte)

lemma map_of_nat_unat: "map of_nat (map unat bs) = (bs :: byte list)"
  by (simp add: comp_def)

lemma digits64_3: "n div 0x1000 * 0x1000 + n div 64 mod 64 * 64 + n mod 64 = (n :: nat)"
proof -
  have "n = n div 64 * 64 + n mod 64" and "n div 64 = n div 64 div 64 * 64 + n div 64 mod 64"
    by simp_all
  moreover have "n div 0x1000 = n div 64 div 64"
    by (simp add: div_mult2_eq [symmetric])
  ultimately show ?thesis by linarith
qed

lemma digits64_4:
  "n div 0x40000 * 0x40000 + n div 0x1000 mod 64 * 0x1000 + n div 64 mod 64 * 64 + n mod 64
     = (n :: nat)"
proof -
  have "n div 0x1000 = n div 0x1000 div 64 * 64 + n div 0x1000 mod 64"
    by simp
  moreover have "n div 0x40000 = n div 0x1000 div 64"
    by (simp add: div_mult2_eq [symmetric])
  ultimately show ?thesis using digits64_3 [of n] by linarith
qed

section \<open>UTF-8\<close>

definition is_high :: "jchar \<Rightarrow> bool" where
  "is_high c \<longleftrightarrow> 0xD800 \<le> unat c \<and> unat c < 0xDC00"

definition is_low :: "jchar \<Rightarrow> bool" where
  "is_low c \<longleftrightarrow> 0xDC00 \<le> unat c \<and> unat c < 0xE000"

text \<open>Encoding: an unpaired surrogate becomes \<open>?\<close>.\<close>

fun utf8_units :: "jstring \<Rightarrow> nat list" where
  "utf8_units [] = []"
| "utf8_units (c # cs) =
     (let n = unat c in
      if n < 0x80 then n # utf8_units cs
      else if n < 0x800 then (0xC0 + n div 64) # (0x80 + n mod 64) # utf8_units cs
      else if is_high c then
        (case cs of
           [] \<Rightarrow> [63]
         | d # ds \<Rightarrow>
             if is_low d then
               (let p = 0x10000 + (n - 0xD800) * 0x400 + (unat d - 0xDC00)
                in (0xF0 + p div 0x40000) # (0x80 + p div 0x1000 mod 64)
                     # (0x80 + p div 64 mod 64) # (0x80 + p mod 64) # utf8_units ds)
             else 63 # utf8_units cs)
      else if is_low c then 63 # utf8_units cs
      else (0xE0 + n div 0x1000) # (0x80 + n div 64 mod 64) # (0x80 + n mod 64)
             # utf8_units cs)"

definition utf8_encode :: "jstring \<Rightarrow> byte list" where
  "utf8_encode s = map of_nat (utf8_units s)"

text \<open>
  Decoding: each maximal malformed part becomes one U+FFFD, in the order the JDK's decoder
  finds them.
\<close>

definition is_cont :: "nat \<Rightarrow> bool" where
  "is_cont b \<longleftrightarrow> 0x80 \<le> b \<and> b < 0xC0"

definition bad_second3 :: "nat \<Rightarrow> nat \<Rightarrow> bool" where
  "bad_second3 b1 b2 \<longleftrightarrow> (b1 = 0xE0 \<and> 0x80 \<le> b2 \<and> b2 < 0xA0) \<or> \<not> is_cont b2"

definition bad_second4 :: "nat \<Rightarrow> nat \<Rightarrow> bool" where
  "bad_second4 b1 b2 \<longleftrightarrow>
     b1 > 0xF4 \<or> (b1 = 0xF0 \<and> (b2 < 0x90 \<or> b2 > 0xBF))
     \<or> (b1 = 0xF4 \<and> \<not> (0x80 \<le> b2 \<and> b2 < 0x90)) \<or> \<not> is_cont b2"

definition repl :: jchar where "repl = 0xFFFD"

definition code_point_units :: "nat \<Rightarrow> jstring" where
  "code_point_units p = [of_nat (0xD800 + (p - 0x10000) div 0x400),
                         of_nat (0xDC00 + (p - 0x10000) mod 0x400)]"

fun utf8_chars :: "nat list \<Rightarrow> jstring" where
  "utf8_chars [] = []"
| "utf8_chars (b # bs) =
     (if b < 0x80 then of_nat b # utf8_chars bs
      else if 0xC2 \<le> b \<and> b < 0xE0 then
        (case bs of
           [] \<Rightarrow> [repl]
         | b2 # r \<Rightarrow>
             if is_cont b2 then of_nat ((b - 0xC0) * 64 + (b2 - 0x80)) # utf8_chars r
             else repl # utf8_chars bs)
      else if 0xE0 \<le> b \<and> b < 0xF0 then
        (case bs of
           [] \<Rightarrow> [repl]
         | [b2] \<Rightarrow> if bad_second3 b b2 then repl # utf8_chars bs else [repl]
         | b2 # b3 # r \<Rightarrow>
             if bad_second3 b b2 then repl # utf8_chars bs
             else if \<not> is_cont b3 then repl # utf8_chars (b3 # r)
             else (let p = (b - 0xE0) * 0x1000 + (b2 - 0x80) * 64 + (b3 - 0x80)
                   in (if 0xD800 \<le> p \<and> p < 0xE000 then repl else of_nat p) # utf8_chars r))
      else if 0xF0 \<le> b \<and> b < 0xF8 then
        (case bs of
           [] \<Rightarrow> if b > 0xF4 then repl # utf8_chars bs else [repl]
         | [b2] \<Rightarrow> if bad_second4 b b2 then repl # utf8_chars bs else [repl]
         | [b2, b3] \<Rightarrow>
             if bad_second4 b b2 then repl # utf8_chars bs
             else if \<not> is_cont b3 then repl # utf8_chars [b3] else [repl]
         | b2 # b3 # b4 # r \<Rightarrow>
             if bad_second4 b b2 then repl # utf8_chars bs
             else if \<not> is_cont b3 then repl # utf8_chars (b3 # b4 # r)
             else if \<not> is_cont b4 then repl # utf8_chars (b4 # r)
             else code_point_units
                    ((b - 0xF0) * 0x40000 + (b2 - 0x80) * 0x1000 + (b3 - 0x80) * 64 + (b4 - 0x80))
                  @ utf8_chars r)
      else repl # utf8_chars bs)"

definition utf8_decode :: "byte list \<Rightarrow> jstring" where
  "utf8_decode bs = utf8_chars (map unat bs)"

text \<open>Strings without unpaired surrogates.\<close>

fun utf16_ok :: "jstring \<Rightarrow> bool" where
  "utf16_ok [] = True"
| "utf16_ok (c # cs) =
     (if is_high c then (case cs of [] \<Rightarrow> False | d # ds \<Rightarrow> is_low d \<and> utf16_ok ds)
      else \<not> is_low c \<and> utf16_ok cs)"

lemma utf16_ok_ascii: "(\<And>c. c \<in> set s \<Longrightarrow> unat c < 0x80) \<Longrightarrow> utf16_ok s"
proof (induction s)
  case (Cons c s)
  then have "unat c < 0x80" by simp
  then have "\<not> is_high c" and "\<not> is_low c" by (simp_all add: is_high_def is_low_def)
  with Cons show ?case by simp
qed simp

lemma utf16_ok_js: "list_all (\<lambda>c. of_char c < (128 :: nat)) s \<Longrightarrow> utf16_ok (js s)"
  by (auto simp: js_def list_all_iff unat_of_char_jchar intro!: utf16_ok_ascii)

lemma utf8_chars_two:
  assumes "0x80 \<le> n" and "n < 0x800"
  shows "utf8_chars ((0xC0 + n div 64) # (0x80 + n mod 64) # r) = of_nat n # utf8_chars r"
proof -
  have "0xC2 \<le> 0xC0 + n div 64" and "0xC0 + n div 64 < 0xE0" and "is_cont (0x80 + n mod 64)"
    using assms by (auto simp: is_cont_def)
  moreover have "(0xC0 + n div 64 - 0xC0) * 64 + (0x80 + n mod 64 - 0x80) = n" by simp
  ultimately show ?thesis by (simp del: of_nat_add of_nat_mult)
qed

lemma utf8_chars_three:
  assumes "0x800 \<le> n" and "n < 0x10000" and "\<not> (0xD800 \<le> n \<and> n < 0xE000)"
  shows "utf8_chars ((0xE0 + n div 0x1000) # (0x80 + n div 64 mod 64) # (0x80 + n mod 64) # r)
         = of_nat n # utf8_chars r"
proof -
  let ?b1 = "0xE0 + n div 0x1000" and ?b2 = "0x80 + n div 64 mod 64" and ?b3 = "0x80 + n mod 64"
  have b1: "0xE0 \<le> ?b1" "?b1 < 0xF0" using assms(2) by auto
  have b3: "is_cont ?b3" by (auto simp: is_cont_def)
  have b2: "\<not> bad_second3 ?b1 ?b2"
  proof -
    have "?b1 = 0xE0 \<Longrightarrow> 0xA0 \<le> ?b2"
    proof -
      assume "?b1 = 0xE0"
      then have "n < 0x1000" by simp
      then have "n div 64 < 64" by simp
      then have "n div 64 mod 64 = n div 64" by simp
      moreover have "0x20 \<le> n div 64" using assms(1) by auto
      ultimately show ?thesis by simp
    qed
    then show ?thesis by (auto simp: bad_second3_def is_cont_def)
  qed
  show ?thesis
    using b1 b2 b3 assms(3) by (auto simp: Let_def digits64_3)
qed

lemma utf8_chars_four:
  assumes "0x10000 \<le> p" and "p < 0x110000"
  shows "utf8_chars ((0xF0 + p div 0x40000) # (0x80 + p div 0x1000 mod 64)
           # (0x80 + p div 64 mod 64) # (0x80 + p mod 64) # r)
         = code_point_units p @ utf8_chars r"
proof -
  let ?b1 = "0xF0 + p div 0x40000" and ?b2 = "0x80 + p div 0x1000 mod 64"
    and ?b3 = "0x80 + p div 64 mod 64" and ?b4 = "0x80 + p mod 64"
  have b1: "0xF0 \<le> ?b1" "?b1 \<le> 0xF4" using assms(2) by auto
  have b3: "is_cont ?b3" and b4: "is_cont ?b4" by (auto simp: is_cont_def)
  have split: "p div 0x40000 = p div 0x1000 div 64"
    by (simp add: div_mult2_eq [symmetric])
  have q: "p div 0x1000 = p div 0x40000 * 64 + p div 0x1000 mod 64"
    unfolding split by simp
  have "p div 0x1000 < 0x110" and "0x10 \<le> p div 0x1000"
    using assms by auto
  with q have "p div 0x40000 = 4 \<Longrightarrow> p div 0x1000 mod 64 < 16"
    and "p div 0x40000 = 0 \<Longrightarrow> 16 \<le> p div 0x1000 mod 64"
    by linarith+
  then have b2: "\<not> bad_second4 ?b1 ?b2"
    using b1 by (auto simp: bad_second4_def is_cont_def)
  show ?thesis
    using b1 b2 b3 b4 by (simp add: digits64_4)
qed

lemma code_point_units_pair:
  assumes "is_high c" and "is_low d"
  shows "code_point_units (0x10000 + (unat c - 0xD800) * 0x400 + (unat d - 0xDC00)) = [c, d]"
proof -
  have "unat d - 0xDC00 < 0x400" using assms(2) by (auto simp: is_low_def)
  then have "((unat c - 0xD800) * 0x400 + (unat d - 0xDC00)) div 0x400 = unat c - 0xD800"
    and "((unat c - 0xD800) * 0x400 + (unat d - 0xDC00)) mod 0x400 = unat d - 0xDC00"
    by simp_all
  moreover have "0xD800 + (unat c - 0xD800) = unat c" and "0xDC00 + (unat d - 0xDC00) = unat d"
    using assms by (auto simp: is_high_def is_low_def)
  ultimately show ?thesis
    by (simp add: code_point_units_def del: of_nat_add)
qed

lemma utf8_chars_units: "utf16_ok s \<Longrightarrow> utf8_chars (utf8_units s) = s"
proof (induction s rule: utf8_units.induct)
  case 1
  then show ?case by simp
next
  case (2 c cs)
  let ?n = "unat c"
  have n16: "?n < 65536" by (rule unat_jchar_less)
  consider (a) "?n < 0x80" | (b) "0x80 \<le> ?n" "?n < 0x800"
    | (h) "0x800 \<le> ?n" "is_high c" | (t) "0x800 \<le> ?n" "\<not> is_high c" by linarith
  then show ?case
  proof cases
    case a
    then have "\<not> is_high c" "\<not> is_low c" by (simp_all add: is_high_def is_low_def)
    with a 2 show ?thesis by (simp add: Let_def)
  next
    case b
    then have "\<not> is_high c" "\<not> is_low c" by (simp_all add: is_high_def is_low_def)
    with b 2 show ?thesis
      by (simp add: Let_def utf8_chars_two del: utf8_chars.simps)
  next
    case h
    with "2.prems" obtain d ds where cs: "cs = d # ds" and d: "is_low d" and ds: "utf16_ok ds"
      by (auto split: list.splits)
    let ?p = "0x10000 + (?n - 0xD800) * 0x400 + (unat d - 0xDC00)"
    have "0x10000 \<le> ?p" and "?p < 0x110000"
      using h(2) d by (auto simp: is_high_def is_low_def)
    then show ?thesis
      using h cs d ds 2
      by (simp add: Let_def utf8_chars_four code_point_units_pair del: utf8_chars.simps)
  next
    case t
    with "2.prems" have "\<not> is_low c" and ok: "utf16_ok cs" by simp_all
    with t have "\<not> (0xD800 \<le> ?n \<and> ?n < 0xE000)" by (auto simp: is_high_def is_low_def)
    with t \<open>\<not> is_low c\<close> ok 2 n16 show ?thesis
      by (simp add: Let_def utf8_chars_three del: utf8_chars.simps)
  qed
qed

lemma utf8_pair_bytes:
  assumes "is_high c" and "is_low d"
  shows "0xF0 + (0x10000 + (unat c - 0xD800) * 0x400 + (unat d - 0xDC00)) div 0x40000 < 256"
proof -
  have "0x10000 + (unat c - 0xD800) * 0x400 + (unat d - 0xDC00) < 0x110000"
    using assms by (auto simp: is_high_def is_low_def)
  then have "(0x10000 + (unat c - 0xD800) * 0x400 + (unat d - 0xDC00)) div 0x40000 < 5"
    by (intro less_mult_imp_div_less) linarith
  then show ?thesis by simp
qed

lemma utf8_units_byte: "list_all (\<lambda>n. n < 256) (utf8_units s)"
proof (induction s rule: utf8_units.induct)
  case (2 c cs)
  let ?n = "unat c"
  have low: "0x80 + k mod 64 < 256" for k :: nat
    using mod_less_divisor [of 64 k] by simp
  consider (a) "?n < 0x80" | (b) "0x80 \<le> ?n" "?n < 0x800"
    | (h) "0x800 \<le> ?n" "is_high c" | (l) "0x800 \<le> ?n" "\<not> is_high c" "is_low c"
    | (t) "0x800 \<le> ?n" "\<not> is_high c" "\<not> is_low c" by linarith
  then show ?case
  proof cases
    case b
    then have "?n div 64 < 32" by (simp add: less_mult_imp_div_less)
    with b 2 low show ?thesis by (simp add: Let_def)
  next
    case h
    with 2 low show ?thesis
      using utf8_pair_bytes [of c] by (auto simp: Let_def split: list.split)
  next
    case t
    have "?n div 0x1000 < 16"
      using unat_jchar_less [of c] by (simp add: less_mult_imp_div_less)
    with t 2 low show ?thesis by (simp add: Let_def)
  qed (use 2 in \<open>simp_all add: Let_def\<close>)
qed simp

interpretation utf8: codec utf16_ok utf8_encode "\<lambda>bs. Inr (utf8_decode bs)"
proof
  fix s :: jstring
  assume "utf16_ok s"
  moreover have "map unat (map of_nat (utf8_units s) :: byte list) = utf8_units s"
    using utf8_units_byte [of s] by (intro map_unat_of_nat) (auto simp: list_all_iff)
  ultimately show "Inr (utf8_decode (utf8_encode s)) = Inr s"
    by (simp only: utf8_decode_def utf8_encode_def utf8_chars_units)
qed


section \<open>URLDecoder\<close>

definition hex_digit :: "jchar \<Rightarrow> nat option" where
  "hex_digit c =
     (let n = unat c in
      if 48 \<le> n \<and> n \<le> 57 then Some (n - 48)
      else if 65 \<le> n \<and> n \<le> 70 then Some (n - 55)
      else if 97 \<le> n \<and> n \<le> 102 then Some (n - 87)
      else None)"

text \<open>
  The two characters after a \<open>%\<close> are read by \<open>Integer.parseInt(_, 16)\<close>, which takes a
  sign; a negative value is rejected.
\<close>

definition hex_pair :: "jchar \<Rightarrow> jchar \<Rightarrow> nat option" where
  "hex_pair a b =
     (case hex_digit b of
        None \<Rightarrow> None
      | Some lo \<Rightarrow>
          if a = 43 then Some lo
          else if a = 45 then (if lo = 0 then Some 0 else None)
          else map_option (\<lambda>hi. 16 * hi + lo) (hex_digit a))"

text \<open>
  Consecutive escapes are collected (in \<open>acc\<close>) and decoded as UTF-8 together; \<open>+\<close> is a
  space, and a truncated or malformed escape is an \<open>IllegalArgumentException\<close>.
\<close>

fun url_chars :: "nat list \<Rightarrow> jstring \<Rightarrow> jstring option" where
  "url_chars acc [] = Some (utf8_chars acc)"
| "url_chars acc (c # cs) =
     (if c = 37 then
        (case cs of
           a # b # r \<Rightarrow>
             (case hex_pair a b of None \<Rightarrow> None | Some v \<Rightarrow> url_chars (acc @ [v]) r)
         | _ \<Rightarrow> None)
      else map_option (\<lambda>t. utf8_chars acc @ (if c = 43 then 32 else c) # t) (url_chars [] cs))"

definition url_decode :: "jstring \<Rightarrow> exn + jstring" where
  "url_decode s =
     of_option (IllegalArgumentException (js ''URLDecoder: malformed escape'')) (url_chars [] s)"

lemma url_decode_plain:
  assumes "\<And>c. c \<in> set s \<Longrightarrow> c \<noteq> 37 \<and> c \<noteq> 43"
  shows "url_decode s = Inr s"
proof -
  have "url_chars [] s = Some s"
    using assms by (induction s) auto
  then show ?thesis by (simp add: url_decode_def)
qed

section \<open>Base64\<close>

definition sextet_char :: "bool \<Rightarrow> nat \<Rightarrow> jchar" where
  "sextet_char url i =
     (if i < 26 then of_nat (65 + i)
      else if i < 52 then of_nat (71 + i)
      else if i < 62 then of_nat (i - 4)
      else if i = 62 then (if url then 45 else 43)
      else (if url then 95 else 47))"

definition sextet_of :: "bool \<Rightarrow> jchar \<Rightarrow> nat option" where
  "sextet_of url c =
     (let n = unat c in
      if 65 \<le> n \<and> n \<le> 90 then Some (n - 65)
      else if 97 \<le> n \<and> n \<le> 122 then Some (n - 71)
      else if 48 \<le> n \<and> n \<le> 57 then Some (n + 4)
      else if n = (if url then 45 else 43) then Some 62
      else if n = (if url then 95 else 47) then Some 63
      else None)"

lemma unat_sextet_char:
  "i < 64 \<Longrightarrow> unat (sextet_char url i) =
     (if i < 26 then 65 + i else if i < 52 then 71 + i else if i < 62 then i - 4
      else if i = 62 then (if url then 45 else 43) else (if url then 95 else 47))"
  using unat_small_jchar [of "65 + i"] unat_small_jchar [of "71 + i"] unat_small_jchar [of "i - 4"]
  by (auto simp: sextet_char_def simp del: of_nat_add)

lemma sextet_of_char: "i < 64 \<Longrightarrow> sextet_of url (sextet_char url i) = Some i"
  by (auto simp: sextet_of_def Let_def unat_sextet_char)

lemma sextet_of_pad: "sextet_of url 61 = None"
  by (simp add: sextet_of_def Let_def)

fun b64_chars :: "bool \<Rightarrow> bool \<Rightarrow> nat list \<Rightarrow> jstring" where
  "b64_chars url pad [] = []"
| "b64_chars url pad [a] =
     [sextet_char url (a div 4), sextet_char url (a mod 4 * 16)] @ (if pad then [61, 61] else [])"
| "b64_chars url pad [a, b] =
     [sextet_char url (a div 4), sextet_char url (a mod 4 * 16 + b div 16),
      sextet_char url (b mod 16 * 4)] @ (if pad then [61] else [])"
| "b64_chars url pad (a # b # c # r) =
     sextet_char url (a div 4) # sextet_char url (a mod 4 * 16 + b div 16)
       # sextet_char url (b mod 16 * 4 + c div 64) # sextet_char url (c mod 64)
       # b64_chars url pad r"

text \<open>
  The decoder of the JDK: groups of four; the last group may be short or padded, a single
  leftover character, padding in another place, anything after the padding, or a character
  outside the alphabet is an \<open>IllegalArgumentException\<close>; unused low bits are ignored.
\<close>

fun b64_bytes :: "bool \<Rightarrow> jstring \<Rightarrow> nat list option" where
  "b64_bytes url [] = Some []"
| "b64_bytes url [w] = None"
| "b64_bytes url [w, x] =
     (case (sextet_of url w, sextet_of url x) of
        (Some a, Some b) \<Rightarrow> Some [a * 4 + b div 16]
      | _ \<Rightarrow> None)"
| "b64_bytes url [w, x, y] =
     (case (sextet_of url w, sextet_of url x, sextet_of url y) of
        (Some a, Some b, Some c) \<Rightarrow> Some [a * 4 + b div 16, b mod 16 * 16 + c div 4]
      | _ \<Rightarrow> None)"
| "b64_bytes url (w # x # y # z # r) =
     (case (sextet_of url w, sextet_of url x) of
        (Some a, Some b) \<Rightarrow>
          (if y = 61 then (if z = 61 \<and> r = [] then Some [a * 4 + b div 16] else None)
           else (case sextet_of url y of
               None \<Rightarrow> None
             | Some c \<Rightarrow>
                 if z = 61 then
                   (if r = [] then Some [a * 4 + b div 16, b mod 16 * 16 + c div 4] else None)
                 else (case sextet_of url z of
                     None \<Rightarrow> None
                   | Some d \<Rightarrow>
                       map_option
                         (\<lambda>t. (a * 4 + b div 16) # (b mod 16 * 16 + c div 4) # (c mod 4 * 64 + d) # t)
                         (b64_bytes url r))))
      | _ \<Rightarrow> None)"

lemma b64_bytes_chars:
  "(\<And>n. n \<in> set ns \<Longrightarrow> n < 256) \<Longrightarrow> b64_bytes url (b64_chars url pad ns) = Some ns"
proof (induction url pad ns rule: b64_chars.induct)
  case (2 url pad a)
  then have "a < 256" by simp
  then have "a div 4 < 64" and "a mod 4 * 16 < 64" by auto
  then show ?case by (simp add: sextet_of_char)
next
  case (3 url pad a b)
  then have "a < 256" and "b < 256" by simp_all
  then have "a div 4 < 64" and "a mod 4 * 16 + b div 16 < 64" and "b mod 16 * 4 < 64" by auto
  moreover have "(a mod 4 * 16 + b div 16) div 16 = a mod 4"
    and "(a mod 4 * 16 + b div 16) mod 16 = b div 16"
    using \<open>b < 256\<close> by (simp_all add: less_mult_imp_div_less)
  moreover have "sextet_char url (b mod 16 * 4) \<noteq> 61"
    using sextet_of_char [of "b mod 16 * 4" url] sextet_of_pad [of url]
      \<open>b mod 16 * 4 < 64\<close> by auto
  ultimately show ?case by (simp add: sextet_of_char)
next
  case (4 url pad a b c r)
  then have "a < 256" and "b < 256" and "c < 256" by simp_all
  then have lt: "a div 4 < 64" "a mod 4 * 16 + b div 16 < 64" "b mod 16 * 4 + c div 64 < 64"
    "c mod 64 < 64" by auto
  have "sextet_char url i \<noteq> 61" if "i < 64" for i
    using sextet_of_char [OF that, of url] sextet_of_pad [of url] by auto
  note ne = this [OF lt(3)] this [OF lt(4)]
  have "(a mod 4 * 16 + b div 16) div 16 = a mod 4"
    and "(a mod 4 * 16 + b div 16) mod 16 = b div 16"
    and "(b mod 16 * 4 + c div 64) div 4 = b mod 16"
    and "(b mod 16 * 4 + c div 64) mod 4 = c div 64"
    using \<open>b < 256\<close> \<open>c < 256\<close> by (simp_all add: less_mult_imp_div_less)
  with 4 lt ne show ?case by (simp add: sextet_of_char)
qed simp

lemma b64_chars_padded:
  "(\<And>n. n \<in> set ns \<Longrightarrow> n < 256) \<Longrightarrow>
     set (b64_chars url pad ns) \<subseteq> sextet_char url ` {..<64} \<union> (if pad then {61} else {})"
proof (induction url pad ns rule: b64_chars.induct)
  case (2 url pad a)
  then have "a div 4 < 64" and "a mod 4 * 16 < 64" by auto
  then show ?case by (auto intro!: imageI)
next
  case (3 url pad a b)
  then have "a < 256" and "b < 256" by simp_all
  then have "a div 4 < 64" and "a mod 4 * 16 + b div 16 < 64" and "b mod 16 * 4 < 64" by auto
  then show ?case by (auto intro!: imageI)
next
  case (4 url pad a b c r)
  then have "a < 256" and "b < 256" and "c < 256" by simp_all
  then have "a div 4 < 64" "a mod 4 * 16 + b div 16 < 64" "b mod 16 * 4 + c div 64 < 64"
    "c mod 64 < 64" by auto
  then have "{sextet_char url (a div 4), sextet_char url (a mod 4 * 16 + b div 16),
      sextet_char url (b mod 16 * 4 + c div 64), sextet_char url (c mod 64)}
      \<subseteq> sextet_char url ` {..<64}" by (auto intro!: imageI)
  moreover have "set (b64_chars url pad r) \<subseteq> sextet_char url ` {..<64} \<union> (if pad then {61} else {})"
    using 4 by simp
  ultimately show ?case by auto
qed simp

lemma b64_chars_alphabet:
  "(\<And>n. n \<in> set ns \<Longrightarrow> n < 256) \<Longrightarrow>
     set (b64_chars url False ns) \<subseteq> sextet_char url ` {..<64}"
  using b64_chars_padded [of ns url False] by simp

lemma length_b64_chars: "length (b64_chars url False ns) = (4 * length ns + 2) div 3"
  by (induction url "False" ns rule: b64_chars.induct) simp_all

definition b64_encode :: "bool \<Rightarrow> bool \<Rightarrow> byte list \<Rightarrow> jstring" where
  "b64_encode url pad bs = b64_chars url pad (map unat bs)"

definition b64_decode :: "bool \<Rightarrow> jstring \<Rightarrow> exn + byte list" where
  "b64_decode url s =
     of_option (IllegalArgumentException (js ''Illegal base64''))
       (map_option (map of_nat) (b64_bytes url s))"

lemma b64_decode_encode: "b64_decode url (b64_encode url pad bs) = Inr bs"
proof -
  have "b64_bytes url (b64_chars url pad (map unat bs)) = Some (map unat bs)"
    by (rule b64_bytes_chars) (auto simp: unat_byte_less)
  then show ?thesis
    by (simp add: b64_decode_def b64_encode_def map_of_nat_unat del: map_map)
qed

text \<open>\<open>Base64.getEncoder()\<close> and \<open>Base64.getDecoder()\<close>.\<close>

definition base64_std :: "byte list \<Rightarrow> jstring" where
  "base64_std bs = b64_encode False True bs"

definition unbase64_std :: "jstring \<Rightarrow> exn + byte list" where
  "unbase64_std s = b64_decode False s"

interpretation base64: codec "\<lambda>_. True" base64_std unbase64_std
  by unfold_locales (simp add: base64_std_def unbase64_std_def b64_decode_encode)

lemma base64_std_visible: "c \<in> set (base64_std bs) \<Longrightarrow> 32 < unat c"
proof -
  assume "c \<in> set (base64_std bs)"
  moreover have "set (base64_std bs) \<subseteq> sextet_char False ` {..<64} \<union> {61}"
    using b64_chars_padded [of "map unat bs" False True] unat_byte_less
    by (auto simp: base64_std_def b64_encode_def)
  ultimately consider "c = 61" | i where "i < 64" "c = sextet_char False i" by auto
  then show ?thesis by cases (auto simp: unat_sextet_char)
qed

lemma base64_std_Nil_iff [simp]: "base64_std bs = [] \<longleftrightarrow> bs = []"
  by (metis base64.enc_eq_iff base64_std_def b64_encode_def b64_chars.simps(1) list.map(1))

section \<open>token/Base64Url.java\<close>

text \<open>\<open>Base64.getUrlEncoder().withoutPadding()\<close> and \<open>Base64.getUrlDecoder()\<close>.\<close>

definition Base64Url_encode :: "byte list \<Rightarrow> jstring" where
  "Base64Url_encode bytes = b64_encode True False bytes"

definition Base64Url_decode :: "jstring \<Rightarrow> exn + byte list" where
  "Base64Url_decode text = b64_decode True text"

interpretation base64url: codec "\<lambda>_. True" Base64Url_encode Base64Url_decode
  by unfold_locales (simp add: Base64Url_encode_def Base64Url_decode_def b64_decode_encode)

definition url_safe :: "jchar \<Rightarrow> bool" where
  "url_safe c \<longleftrightarrow>
     (let n = unat c in
       (65 \<le> n \<and> n \<le> 90) \<or> (97 \<le> n \<and> n \<le> 122) \<or> (48 \<le> n \<and> n \<le> 57) \<or> n = 45 \<or> n = 95)"

lemma Base64Url_encode_url_safe: "c \<in> set (Base64Url_encode bs) \<Longrightarrow> url_safe c"
proof -
  assume "c \<in> set (Base64Url_encode bs)"
  moreover have "set (Base64Url_encode bs) \<subseteq> sextet_char True ` {..<64}"
    unfolding Base64Url_encode_def b64_encode_def
    by (rule b64_chars_alphabet) (auto simp: unat_byte_less)
  ultimately obtain i where "i < 64" and "c = sextet_char True i" by auto
  then show "url_safe c"
    by (auto simp: url_safe_def Let_def unat_sextet_char)
qed

lemma url_safe_ascii: "url_safe c \<Longrightarrow> unat c < 0x80 \<and> c \<noteq> 63 \<and> c \<noteq> 46"
  by (auto simp: url_safe_def Let_def)

lemma Base64Url_encode_no_dot: "(46 :: jchar) \<notin> set (Base64Url_encode bs)"
  using Base64Url_encode_url_safe [of 46 bs] by (auto simp: url_safe_def)

lemma length_Base64Url_encode: "length (Base64Url_encode bs) = (4 * length bs + 2) div 3"
  by (simp add: Base64Url_encode_def b64_encode_def length_b64_chars)

lemma Base64Url_encode_Nil_iff [simp]: "Base64Url_encode bs = [] \<longleftrightarrow> bs = []"
proof -
  have "Base64Url_encode bs = [] \<longleftrightarrow> length (Base64Url_encode bs) = 0" by simp
  then show ?thesis by (cases bs) (simp_all add: length_Base64Url_encode)
qed

end
