(* ===== verification/Secrets.thy ===== *)
theory Secrets
  imports Encodings
begin

text \<open>
  Client secrets and random identifiers: \<open>secret/Argon2Settings.java\<close>,
  \<open>secret/SecretHash.java\<close>, \<open>secret/Argon2SecretHasher.java\<close> and \<open>util/RandomIds.java\<close>.
  The Argon2id generator is Bouncy Castle's and is a parameter: a function of the password
  bytes, the salt and the cost settings that yields the bytes it writes into the 32-byte
  buffer, or the exception its \<open>init\<close> throws. The bytes of \<open>SecureRandom\<close> are arguments.
\<close>

section \<open>secret/Argon2Settings.java\<close>

record Argon2Settings =
  as_memoryKiB :: jint
  as_iterations :: jint
  as_parallelism :: jint

definition mk_Argon2Settings :: "jint \<Rightarrow> jint \<Rightarrow> jint \<Rightarrow> exn + Argon2Settings" where
  "mk_Argon2Settings memoryKiB iterations parallelism =
     (if memoryKiB <s 8 then
        Inl (IllegalArgumentException (js ''Argon2 memory must be at least 8 KiB''))
      else if iterations <s 1 then
        Inl (IllegalArgumentException (js ''Argon2 iterations must be at least 1''))
      else if parallelism <s 1 then
        Inl (IllegalArgumentException (js ''Argon2 parallelism must be at least 1''))
      else Inr \<lparr>as_memoryKiB = memoryKiB, as_iterations = iterations,
                as_parallelism = parallelism\<rparr>)"

definition DEFAULT_MEMORY_KIB :: jint where "DEFAULT_MEMORY_KIB = 64 * 1024"
definition DEFAULT_ITERATIONS :: jint where "DEFAULT_ITERATIONS = 3"
definition DEFAULT_PARALLELISM :: jint where "DEFAULT_PARALLELISM = 1"

definition Argon2Settings_defaults :: "exn + Argon2Settings" where
  "Argon2Settings_defaults =
     mk_Argon2Settings DEFAULT_MEMORY_KIB DEFAULT_ITERATIONS DEFAULT_PARALLELISM"

definition wf_settings :: "Argon2Settings \<Rightarrow> bool" where
  "wf_settings s \<longleftrightarrow> 8 \<le> sint (as_memoryKiB s) \<and> 1 \<le> sint (as_iterations s)
     \<and> 1 \<le> sint (as_parallelism s)"

lemma mk_Argon2Settings_Inr_iff:
  "mk_Argon2Settings m i p = Inr s \<longleftrightarrow>
     s = \<lparr>as_memoryKiB = m, as_iterations = i, as_parallelism = p\<rparr> \<and> wf_settings s"
  by (auto simp: mk_Argon2Settings_def wf_settings_def word_sless_alt)

lemma mk_Argon2Settings_same:
  "wf_settings s \<Longrightarrow>
     mk_Argon2Settings (as_memoryKiB s) (as_iterations s) (as_parallelism s) = Inr s"
  by (simp add: mk_Argon2Settings_Inr_iff)

lemma Argon2Settings_defaults_ok:
  "Argon2Settings_defaults =
     Inr \<lparr>as_memoryKiB = 65536, as_iterations = 3, as_parallelism = 1\<rparr>"
  by (simp add: Argon2Settings_defaults_def mk_Argon2Settings_def DEFAULT_MEMORY_KIB_def
      DEFAULT_ITERATIONS_def DEFAULT_PARALLELISM_def word_sless_alt)

section \<open>secret/SecretHash.java\<close>

record SecretHash =
  sh_algorithm :: jstring
  sh_saltBase64 :: jstring
  sh_hashBase64 :: jstring
  sh_memoryKiB :: jint
  sh_iterations :: jint
  sh_parallelism :: jint

definition ALGORITHM_ARGON2ID :: jstring where "ALGORITHM_ARGON2ID = js ''argon2id''"

definition SecretHash_settings :: "SecretHash \<Rightarrow> exn + Argon2Settings" where
  "SecretHash_settings h =
     mk_Argon2Settings (sh_memoryKiB h) (sh_iterations h) (sh_parallelism h)"

section \<open>secret/Argon2SecretHasher.java\<close>

type_synonym argon2 = "byte list \<Rightarrow> byte list \<Rightarrow> Argon2Settings \<Rightarrow> exn + byte list"

definition HASH_LENGTH_BYTES :: nat where "HASH_LENGTH_BYTES = 32"
definition SALT_LENGTH_BYTES :: nat where "SALT_LENGTH_BYTES = 16"

definition toUtf8 :: "jstring \<Rightarrow> byte list" where
  "toUtf8 chars = utf8_encode chars"

definition derive :: "argon2 \<Rightarrow> jstring \<Rightarrow> byte list \<Rightarrow> Argon2Settings \<Rightarrow> exn + byte list" where
  "derive argon2 secret salt settings = argon2 (toUtf8 secret) salt settings"

definition hash_secret ::
  "argon2 \<Rightarrow> Argon2Settings \<Rightarrow> byte list \<Rightarrow> jstring option \<Rightarrow> exn + SecretHash" where
  "hash_secret argon2 settings salt secret =
     (case secret of
        None \<Rightarrow> Inl (IllegalArgumentException (js ''secret must not be empty''))
      | Some s \<Rightarrow>
          if s = [] then Inl (IllegalArgumentException (js ''secret must not be empty''))
          else and_then (derive argon2 s salt settings) (\<lambda>hash.
            Inr \<lparr>sh_algorithm = ALGORITHM_ARGON2ID,
                 sh_saltBase64 = base64_std salt,
                 sh_hashBase64 = base64_std hash,
                 sh_memoryKiB = as_memoryKiB settings,
                 sh_iterations = as_iterations settings,
                 sh_parallelism = as_parallelism settings\<rparr>))"

definition verify_secret :: "argon2 \<Rightarrow> jstring option \<Rightarrow> SecretHash option \<Rightarrow> exn + bool" where
  "verify_secret argon2 presented stored =
     (case (presented, stored) of
        (Some p, Some h) \<Rightarrow>
          if p = [] then Inr False
          else and_then (unbase64_std (sh_saltBase64 h)) (\<lambda>salt.
               and_then (unbase64_std (sh_hashBase64 h)) (\<lambda>expected.
               and_then (SecretHash_settings h) (\<lambda>settings.
               and_then (derive argon2 p salt settings) (\<lambda>candidate.
               Inr (expected = candidate)))))
      | _ \<Rightarrow> Inr False)"

lemma hash_secret_Inr:
  assumes "hash_secret argon2 settings salt secret = Inr h"
  obtains s hash where "secret = Some s" and "s \<noteq> []"
    and "argon2 (toUtf8 s) salt settings = Inr hash"
    and "h = \<lparr>sh_algorithm = ALGORITHM_ARGON2ID, sh_saltBase64 = base64_std salt,
              sh_hashBase64 = base64_std hash, sh_memoryKiB = as_memoryKiB settings,
              sh_iterations = as_iterations settings, sh_parallelism = as_parallelism settings\<rparr>"
  using assms
  by (auto simp: hash_secret_def derive_def and_then_Inr_iff split: option.splits if_splits)

lemma verify_secret_hashed:
  assumes "hash_secret argon2 settings salt (Some s) = Inr h" and "wf_settings settings"
    and "p \<noteq> []"
  shows "verify_secret argon2 (Some p) (Some h) =
     and_then (argon2 (toUtf8 p) salt settings)
       (\<lambda>c. Inr (argon2 (toUtf8 s) salt settings = Inr c))"
proof -
  from assms(1) obtain hash where
    "argon2 (toUtf8 s) salt settings = Inr hash" and
    "h = \<lparr>sh_algorithm = ALGORITHM_ARGON2ID, sh_saltBase64 = base64_std salt,
          sh_hashBase64 = base64_std hash, sh_memoryKiB = as_memoryKiB settings,
          sh_iterations = as_iterations settings, sh_parallelism = as_parallelism settings\<rparr>"
    by (auto elim: hash_secret_Inr)
  with assms(2,3) show ?thesis
    by (simp add: verify_secret_def base64.dec_enc derive_def SecretHash_settings_def
        mk_Argon2Settings_same)
qed

section \<open>util/RandomIds.java\<close>

definition randomBase64Url :: "byte list \<Rightarrow> jstring" where
  "randomBase64Url bytes = Base64Url_encode bytes"

text \<open>The random bytes of each identifier: how many it draws, and what it renders them to.\<close>

definition client_id_bytes :: nat where "client_id_bytes = 12"
definition client_secret_bytes :: nat where "client_secret_bytes = 32"
definition kid_bytes :: nat where "kid_bytes = 8"
definition jti_bytes :: nat where "jti_bytes = 16"

definition newClientId :: "byte list \<Rightarrow> jstring" where
  "newClientId bytes = js ''client_'' @ randomBase64Url bytes"

definition newClientSecret :: "byte list \<Rightarrow> jstring" where
  "newClientSecret bytes = randomBase64Url bytes"

definition newKid :: "byte list \<Rightarrow> jstring" where
  "newKid bytes = js ''k_'' @ randomBase64Url bytes"

definition newJti :: "byte list \<Rightarrow> jstring" where
  "newJti bytes = randomBase64Url bytes"

lemma randomBase64Url_inj [simp]: "randomBase64Url a = randomBase64Url b \<longleftrightarrow> a = b"
  by (simp add: randomBase64Url_def base64url.enc_eq_iff)

lemma random_ids_inj [simp]:
  "newClientId a = newClientId b \<longleftrightarrow> a = b"
  "newClientSecret a = newClientSecret b \<longleftrightarrow> a = b"
  "newKid a = newKid b \<longleftrightarrow> a = b"
  "newJti a = newJti b \<longleftrightarrow> a = b"
  by (simp_all add: newClientId_def newClientSecret_def newKid_def newJti_def)

lemma newClientSecret_nonempty: "bytes \<noteq> [] \<Longrightarrow> newClientSecret bytes \<noteq> []"
  by (simp add: newClientSecret_def randomBase64Url_def)

lemma url_safe_not_whitespace: "url_safe c \<Longrightarrow> \<not> is_whitespace c"
  by (auto simp: url_safe_def is_whitespace_def Let_def)

lemma randomBase64Url_not_blank: "bytes \<noteq> [] \<Longrightarrow> \<not> is_blank (randomBase64Url bytes)"
proof -
  assume "bytes \<noteq> []"
  then obtain c cs where "Base64Url_encode bytes = c # cs"
    by (cases "Base64Url_encode bytes") auto
  then show ?thesis
    using Base64Url_encode_url_safe [of c bytes] url_safe_not_whitespace
    by (auto simp: randomBase64Url_def is_blank_def)
qed

lemma utf16_ok_secret: "utf16_ok (newClientSecret bytes)"
proof (rule utf16_ok_ascii)
  fix c assume "c \<in> set (newClientSecret bytes)"
  then have "url_safe c"
    by (auto simp: newClientSecret_def randomBase64Url_def dest: Base64Url_encode_url_safe)
  then show "unat c < 0x80" by (auto simp: url_safe_def Let_def)
qed

section \<open>Properties\<close>

text \<open>
  C29. A secret hashed under any valid settings verifies against its stored hash, whatever
  settings the hasher uses by then: verification reads the cost back from the record.
\<close>

theorem secret_verifies_after_cost_change:
  assumes "hash_secret argon2 settings salt (Some s) = Inr h" and "wf_settings settings"
  shows "verify_secret argon2 (Some s) (Some h) = Inr True"
proof -
  from assms(1) obtain hash where "s \<noteq> []" and "argon2 (toUtf8 s) salt settings = Inr hash"
    by (auto elim: hash_secret_Inr)
  with verify_secret_hashed [OF assms] show ?thesis by simp
qed

definition demo_argon2 :: argon2 where
  "demo_argon2 pw salt st = Inr (pw @ salt)"

definition demo_settings :: Argon2Settings where
  "demo_settings = \<lparr>as_memoryKiB = 8, as_iterations = 1, as_parallelism = 1\<rparr>"

lemma wf_demo_settings [simp]: "wf_settings demo_settings"
  by (simp add: wf_settings_def demo_settings_def)

theorem secret_verifies_after_cost_change_witness:
  "\<exists>h. hash_secret demo_argon2 demo_settings [1, 2] (Some (js ''s3cret'')) = Inr h \<and>
       verify_secret demo_argon2 (Some (js ''s3cret'')) (Some h) = Inr True"
proof -
  obtain h where h: "hash_secret demo_argon2 demo_settings [1, 2] (Some (js ''s3cret'')) = Inr h"
    by (simp add: hash_secret_def derive_def demo_argon2_def)
  from secret_verifies_after_cost_change [OF h wf_demo_settings] h show ?thesis by blast
qed

text \<open>
  Where the Argon2id function separates two password byte strings under one salt and one
  cost, a wrong secret is rejected: the UTF-8 step does not merge two different secrets.
\<close>

lemma wrong_secret_rejected:
  assumes "hash_secret argon2 settings salt (Some s) = Inr h" and "wf_settings settings"
    and "utf16_ok s" and "utf16_ok p" and "p \<noteq> s"
    and "\<And>a b. argon2 a salt settings = argon2 b salt settings \<Longrightarrow> a = b"
    and "\<And>a. \<exists>c. argon2 a salt settings = Inr c"
  shows "verify_secret argon2 (Some p) (Some h) = Inr False"
proof (cases "p = []")
  case True
  then show ?thesis by (simp add: verify_secret_def)
next
  case False
  obtain c where c: "argon2 (toUtf8 p) salt settings = Inr c"
    using assms(7) by blast
  have "toUtf8 p \<noteq> toUtf8 s"
    using assms(3-5) utf8.enc_eq_iff by (simp add: toUtf8_def)
  then have "argon2 (toUtf8 s) salt settings \<noteq> Inr c"
    using assms(6) [of "toUtf8 p" "toUtf8 s"] c by auto
  with verify_secret_hashed [OF assms(1,2) False] c show ?thesis by simp
qed

lemma wrong_secret_rejected_example:
  "\<exists>h. hash_secret demo_argon2 demo_settings [1, 2] (Some (js ''s3cret'')) = Inr h \<and>
       verify_secret demo_argon2 (Some (js ''guess'')) (Some h) = Inr False"
proof -
  obtain h where h: "hash_secret demo_argon2 demo_settings [1, 2] (Some (js ''s3cret'')) = Inr h"
    by (simp add: hash_secret_def derive_def demo_argon2_def)
  have "utf16_ok (js ''s3cret'')" and "utf16_ok (js ''guess'')"
    by (simp_all add: js_def is_high_def is_low_def)
  from wrong_secret_rejected [OF h wf_demo_settings this] h show ?thesis
    by (auto simp: demo_argon2_def)
qed

end
