(* ===== verification/Store.thy ===== *)
theory Store
  imports Prelude
begin

text \<open>
  \<open>store/JsonStore.java\<close>: one JSON document per file, written to a temporary file that is
  then moved over the target. The model keeps every intermediate state of the file system,
  so that a crash at any point is one of the listed states. The services do not see files:
  they rely on the contract of the locale \<open>document_store\<close>, with the abstract \<open>cell\<close> as
  their view of the store; the interpretation at the end shows that the file operations
  implement that contract.
\<close>

section \<open>The abstract store\<close>

text \<open>
  A document file is absent, present but not parseable, or holds a document. A save can
  succeed, fail leaving the file as it was, or throw after the file has been replaced.
\<close>

datatype 'd cell = Absent | Unreadable | Doc 'd

datatype outcome = Saved | NotSaved | SavedThenFailed

definition save_error :: exn where
  "save_error = UncheckedIOException (js ''failed to write'')"

definition load_error :: exn where
  "load_error = UncheckedIOException (js ''failed to read'')"

fun cell_save :: "outcome \<Rightarrow> 'd \<Rightarrow> 'd cell \<Rightarrow> (exn + unit) \<times> 'd cell" where
  "cell_save Saved d c = (Inr (), Doc d)"
| "cell_save NotSaved d c = (Inl save_error, c)"
| "cell_save SavedThenFailed d c = (Inl save_error, Doc d)"

fun cell_exists :: "'d cell \<Rightarrow> bool" where
  "cell_exists Absent = False"
| "cell_exists _ = True"

fun cell_load :: "'d cell \<Rightarrow> exn + 'd" where
  "cell_load (Doc d) = Inr d"
| "cell_load _ = Inl load_error"

text \<open>The contract of a document store.\<close>

locale document_store =
  fixes look :: "'s \<Rightarrow> 'd cell"
    and save :: "'i \<Rightarrow> 'd \<Rightarrow> 's \<Rightarrow> (exn + unit) \<times> 's"
    and usable :: "'i \<Rightarrow> 'd \<Rightarrow> 's \<Rightarrow> bool"
    and outcome_of :: "'i \<Rightarrow> 'd \<Rightarrow> outcome"
  assumes save_refines: "usable i d s \<Longrightarrow>
    (fst (save i d s), look (snd (save i d s))) = cell_save (outcome_of i d) d (look s)"
begin

lemma save_returns: "usable i d s \<Longrightarrow> fst (save i d s) = Inr () \<longleftrightarrow> outcome_of i d = Saved"
  using save_refines [of i d s] by (cases "outcome_of i d") auto

lemma save_stores: "usable i d s \<Longrightarrow> fst (save i d s) = Inr () \<Longrightarrow> look (snd (save i d s)) = Doc d"
  using save_refines [of i d s] by (cases "outcome_of i d") auto

lemma save_old_or_new: "usable i d s \<Longrightarrow> look (snd (save i d s)) \<in> {look s, Doc d}"
  using save_refines [of i d s] by (cases "outcome_of i d") auto

lemma load_after_save:
  "usable i d s \<Longrightarrow> fst (save i d s) = Inr () \<Longrightarrow> cell_load (look (snd (save i d s))) = Inr d"
  by (simp add: save_stores)

end

interpretation cell: document_store "\<lambda>c. c" cell_save "\<lambda>_ _ _. True" "\<lambda>i _. i"
  by unfold_locales simp

text \<open>
  The contract of a service that keeps its state in memory and rewrites one document after
  each change: starting again from the document of a good state gives the same service, up
  to \<open>same\<close>.
\<close>

locale restartable =
  fixes inv :: "'s \<Rightarrow> bool"
    and document :: "'s \<Rightarrow> 'd"
    and restart :: "'d cell \<Rightarrow> exn + 's"
    and same :: "'s \<Rightarrow> 's \<Rightarrow> bool"
  assumes restart_document: "inv s \<Longrightarrow> \<exists>s'. restart (Doc (document s)) = Inr s' \<and> same s s'"
begin

lemma restart_saved:
  "inv s \<Longrightarrow> cell_save Saved (document s) c = (r, c') \<Longrightarrow>
     \<exists>s'. restart c' = Inr s' \<and> same s s'"
  by (auto dest: restart_document)

text \<open>A save that fails, at any point, leaves the old or the new service to start from.\<close>

lemma restart_old_or_new:
  "inv s \<Longrightarrow> inv t \<Longrightarrow> cell_save out (document t) (Doc (document s)) = (r, c') \<Longrightarrow>
     \<exists>s'. restart c' = Inr s' \<and> (same s s' \<or> same t s')"
  using restart_document [of s] restart_document [of t] by (cases out) auto

end

text \<open>
  \<open>store/StoreDocuments.java\<close>: the four documents hold one list each (the signing keys with
  the active kid); their constructors turn a null list into the empty one and refuse null
  elements. A list the services save passes unchanged, so a document is that list.
\<close>

definition StoreDocuments_copy :: "'a option list option \<Rightarrow> exn + 'a list" where
  "StoreDocuments_copy xs =
     (case xs of
        None \<Rightarrow> Inr []
      | Some ys \<Rightarrow> if None \<in> set ys then Inl NullPointerException else Inr (map the ys))"

lemma StoreDocuments_copy_Some: "StoreDocuments_copy (Some (map Some xs)) = Inr xs"
  by (auto simp: StoreDocuments_copy_def comp_def)

section \<open>Files\<close>

datatype PosixFilePermission =
    OWNER_READ | OWNER_WRITE | OWNER_EXECUTE
  | GROUP_READ | GROUP_WRITE | GROUP_EXECUTE
  | OTHERS_READ | OTHERS_WRITE | OTHERS_EXECUTE

definition OWNER_ONLY :: "PosixFilePermission set" where
  "OWNER_ONLY = {OWNER_READ, OWNER_WRITE}"

record stored_file =
  f_bytes :: "byte list"
  f_mode :: "PosixFilePermission set"

type_synonym path = "jstring list"
type_synonym fs = "path \<Rightarrow> stored_file option"

text \<open>
  \<open>Files.createTempFile\<close> makes a new, empty file, with the permissions that the operating
  system chooses.
\<close>

definition create_temp :: "PosixFilePermission set \<Rightarrow> path \<Rightarrow> fs \<Rightarrow> fs" where
  "create_temp mode tmp fs = fs(tmp \<mapsto> \<lparr>f_bytes = [], f_mode = mode\<rparr>)"

definition write_file :: "path \<Rightarrow> byte list \<Rightarrow> fs \<Rightarrow> fs" where
  "write_file p bs fs = (case fs p of None \<Rightarrow> fs | Some f \<Rightarrow> fs(p \<mapsto> f\<lparr>f_bytes := bs\<rparr>))"

definition move_file :: "path \<Rightarrow> path \<Rightarrow> fs \<Rightarrow> fs" where
  "move_file src dst fs = (fs(dst := fs src))(src := None)"

definition delete_file :: "path \<Rightarrow> fs \<Rightarrow> fs" where
  "delete_file p fs = fs(p := None)"

text \<open>
  \<open>restrictPermissions\<close>: best effort. \<open>works\<close> says whether \<open>setPosixFilePermissions\<close> does what
  it is asked; its two exceptions (no POSIX file system, an I/O error) are ignored.
\<close>

definition restrictPermissions :: "bool \<Rightarrow> path \<Rightarrow> fs \<Rightarrow> fs" where
  "restrictPermissions works p fs =
     (if works then (case fs p of None \<Rightarrow> fs | Some f \<Rightarrow> fs(p \<mapsto> f\<lparr>f_mode := OWNER_ONLY\<rparr>))
      else fs)"

text \<open>
  What the operating system does during one \<open>save\<close>: whether each call succeeds, the name of
  the temporary file and the permissions it is created with, and how many bytes a reader could see half way through the write (the
  bytes left behind when the write fails).
\<close>

record io =
  io_mkdirs :: bool
  io_temp :: "path option"
  io_mode :: "PosixFilePermission set"
  io_partial :: nat
  io_write :: bool
  io_restrict_tmp :: bool
  io_move :: bool
  io_delete :: bool
  io_restrict_path :: bool

section \<open>store/JsonStore.java\<close>

definition JsonStore_exists :: "path \<Rightarrow> fs \<Rightarrow> bool" where
  "JsonStore_exists path fs = (fs path \<noteq> None)"

text \<open>\<open>reader\<close> is Jackson's \<open>readValue\<close>, \<open>None\<close> its \<open>IOException\<close>.\<close>

definition JsonStore_load :: "(byte list \<Rightarrow> 'd option) \<Rightarrow> path \<Rightarrow> fs \<Rightarrow> exn + 'd" where
  "JsonStore_load reader path fs =
     (case fs path of
        None \<Rightarrow> Inl load_error
      | Some f \<Rightarrow> of_option load_error (reader (f_bytes f)))"

text \<open>
  \<open>writer\<close> is Jackson's \<open>writeValueAsBytes\<close>, \<open>None\<close> its \<open>IOException\<close>. The result is what
  the call returns together with the file-system states it goes through, the last one being
  the state it leaves.
\<close>

definition JsonStore_save ::
  "('d \<Rightarrow> byte list option) \<Rightarrow> path \<Rightarrow> io \<Rightarrow> 'd \<Rightarrow> fs \<Rightarrow> (exn + unit) \<times> fs list" where
  "JsonStore_save writer path i document fs =
     (if \<not> io_mkdirs i then (Inl save_error, [fs])
      else (case writer document of
        None \<Rightarrow> (Inl save_error, [fs])
      | Some json \<Rightarrow>
          (case io_temp i of
             None \<Rightarrow> (Inl save_error, [fs])
           | Some tmp \<Rightarrow>
               (let created = create_temp (io_mode i) tmp fs;
                    part = write_file tmp (take (io_partial i) json) created;
                    deleted = (\<lambda>s. if io_delete i then delete_file tmp s else s)
                in if \<not> io_write i then
                     (Inl save_error, [fs, created, part, deleted part])
                   else
                     (let written = write_file tmp json created;
                          restricted = restrictPermissions (io_restrict_tmp i) tmp written
                      in if \<not> io_move i then
                           (Inl save_error,
                            [fs, created, part, written, restricted, deleted restricted])
                         else
                           (let moved = move_file tmp path restricted
                            in if \<not> io_delete i then
                                 (Inl save_error,
                                  [fs, created, part, written, restricted, moved])
                               else
                                 (Inr (),
                                  [fs, created, part, written, restricted, moved,
                                   restrictPermissions (io_restrict_path i) path moved])))))))"

text \<open>The guarantee of \<open>createTempFile\<close> about the name: new, hence not the target.\<close>

definition temp_fresh :: "io \<Rightarrow> path \<Rightarrow> fs \<Rightarrow> bool" where
  "temp_fresh i path fs \<longleftrightarrow>
     (case io_temp i of None \<Rightarrow> True | Some tmp \<Rightarrow> tmp \<noteq> path \<and> fs tmp = None)"

definition JsonStore_cell :: "(byte list \<Rightarrow> 'd option) \<Rightarrow> path \<Rightarrow> fs \<Rightarrow> 'd cell" where
  "JsonStore_cell reader path fs =
     (case fs path of
        None \<Rightarrow> Absent
      | Some f \<Rightarrow> (case reader (f_bytes f) of None \<Rightarrow> Unreadable | Some d \<Rightarrow> Doc d))"

definition JsonStore_outcome :: "('d \<Rightarrow> byte list option) \<Rightarrow> io \<Rightarrow> 'd \<Rightarrow> outcome" where
  "JsonStore_outcome writer i d =
     (if io_mkdirs i \<and> writer d \<noteq> None \<and> io_temp i \<noteq> None \<and> io_write i \<and> io_move i
      then (if io_delete i then Saved else SavedThenFailed)
      else NotSaved)"

named_theorems fs_defs

lemmas fs_definitions [fs_defs] =
  create_temp_def write_file_def move_file_def delete_file_def restrictPermissions_def

lemma save_states_nonempty [simp]: "snd (JsonStore_save writer path i d fs) \<noteq> []"
  by (auto simp: JsonStore_save_def Let_def split: option.splits)

lemma JsonStore_exists_cell: "JsonStore_exists path fs = cell_exists (JsonStore_cell reader path fs)"
  by (auto simp: JsonStore_exists_def JsonStore_cell_def split: option.splits)

lemma JsonStore_load_cell: "JsonStore_load reader path fs = cell_load (JsonStore_cell reader path fs)"
  by (auto simp: JsonStore_load_def JsonStore_cell_def split: option.splits)

lemma JsonStore_save_states:
  assumes "temp_fresh i path fs" and "s \<in> set (snd (JsonStore_save writer path i d fs))"
  shows "s path = fs path \<or>
     (\<exists>json m. writer d = Some json \<and> s path = Some \<lparr>f_bytes = json, f_mode = m\<rparr>
        \<and> m \<in> {io_mode i, OWNER_ONLY} \<and> (io_restrict_tmp i \<longrightarrow> m = OWNER_ONLY))"
    and "\<And>q. q \<noteq> path \<Longrightarrow> io_temp i \<noteq> Some q \<Longrightarrow> s q = fs q"
  using assms
  by (auto simp: JsonStore_save_def temp_fresh_def Let_def fs_defs
      split: option.splits if_splits)

text \<open>A save that returns leaves the new document, for its owner only where the last call works.\<close>

lemma JsonStore_save_returned:
  assumes "temp_fresh i path fs" and "fst (JsonStore_save writer path i d fs) = Inr ()"
  shows "\<exists>json m. writer d = Some json
     \<and> last (snd (JsonStore_save writer path i d fs)) path = Some \<lparr>f_bytes = json, f_mode = m\<rparr>
     \<and> (io_restrict_tmp i \<or> io_restrict_path i \<longrightarrow> m = OWNER_ONLY)"
  using assms
  by (auto simp: JsonStore_save_def temp_fresh_def Let_def fs_defs
      split: option.splits if_splits)

lemma JsonStore_save_refines:
  assumes "temp_fresh i path fs" and "\<And>json. writer d = Some json \<Longrightarrow> reader json = Some d"
  shows "(fst (JsonStore_save writer path i d fs),
          JsonStore_cell reader path (last (snd (JsonStore_save writer path i d fs))))
       = cell_save (JsonStore_outcome writer i d) d (JsonStore_cell reader path fs)"
  using assms
  by (auto simp: JsonStore_save_def temp_fresh_def JsonStore_outcome_def JsonStore_cell_def
      Let_def fs_defs split: option.splits if_splits)

interpretation json_store: document_store
  "JsonStore_cell reader path"
  "\<lambda>i d fs. (fst (JsonStore_save writer path i d fs), last (snd (JsonStore_save writer path i d fs)))"
  "\<lambda>i d fs. temp_fresh i path fs \<and> (\<forall>json. writer d = Some json \<longrightarrow> reader json = Some d)"
  "JsonStore_outcome writer"
  for reader :: "byte list \<Rightarrow> 'd option" and writer :: "'d \<Rightarrow> byte list option" and path :: path
  by unfold_locales (simp only: fst_conv snd_conv, rule JsonStore_save_refines, simp_all)

lemma JsonStore_save_temp_gone:
  assumes "temp_fresh i path fs" and "fst (JsonStore_save writer path i d fs) = Inr ()"
    and "q \<noteq> path"
  shows "last (snd (JsonStore_save writer path i d fs)) q = fs q"
  using assms
  by (auto simp: JsonStore_save_def temp_fresh_def Let_def fs_defs
      split: option.splits if_splits)

section \<open>Properties\<close>

text \<open>
  C23. A crash at any point of a save leaves the document file as it was, or complete and new,
  and touches no other file but the temporary one. Whatever permissions the temporary file was
  created with, a new document is readable by its owner only from the moment it is in place,
  where the file system takes the permissions for the temporary file; and after a save that
  returned, where it takes them for either file.
\<close>

theorem save_crash_atomic:
  assumes "temp_fresh i path fs" and "s \<in> set (snd (JsonStore_save writer path i d fs))"
  shows "(s path = fs path \<or>
           (\<exists>json m. writer d = Some json \<and> s path = Some \<lparr>f_bytes = json, f_mode = m\<rparr>
              \<and> m \<in> {io_mode i, OWNER_ONLY} \<and> (io_restrict_tmp i \<longrightarrow> m = OWNER_ONLY)))
       \<and> (\<forall>q. q \<noteq> path \<longrightarrow> io_temp i \<noteq> Some q \<longrightarrow> s q = fs q)
       \<and> (fst (JsonStore_save writer path i d fs) = Inr () \<longrightarrow>
           (\<exists>json m. writer d = Some json
              \<and> last (snd (JsonStore_save writer path i d fs)) path = Some \<lparr>f_bytes = json, f_mode = m\<rparr>
              \<and> (io_restrict_tmp i \<or> io_restrict_path i \<longrightarrow> m = OWNER_ONLY)))"
  by (intro conjI allI impI; rule JsonStore_save_states [OF assms] JsonStore_save_returned [OF assms(1)];
      assumption)

text \<open>A save in which every call succeeds, on a system that creates world-readable files.\<close>

definition demo_io :: io where
  "demo_io = \<lparr>io_mkdirs = True, io_temp = Some [js ''data'', js ''.store1.tmp''],
     io_mode = {OWNER_READ, OWNER_WRITE, GROUP_READ, OTHERS_READ}, io_partial = 1,
     io_write = True, io_restrict_tmp = True, io_move = True, io_delete = True,
     io_restrict_path = True\<rparr>"

theorem save_crash_atomic_witness:
  "list_all (\<lambda>s. s [js ''data'', js ''audit.json''] \<in>
       {None, Some \<lparr>f_bytes = [7, 7], f_mode = OWNER_ONLY\<rparr>})
     (snd (JsonStore_save (\<lambda>d. Some [d, d]) [js ''data'', js ''audit.json''] demo_io
        (7 :: byte) (\<lambda>_. None)))"
  unfolding list_all_iff
proof
  fix s
  assume s: "s \<in> set (snd (JsonStore_save (\<lambda>d. Some [d, d]) [js ''data'', js ''audit.json''] demo_io
                   (7 :: byte) (\<lambda>_. None)))"
  have "temp_fresh demo_io [js ''data'', js ''audit.json''] (\<lambda>_. None)"
    by (simp add: temp_fresh_def demo_io_def)
  moreover have "io_restrict_tmp demo_io" by (simp add: demo_io_def)
  ultimately show "s [js ''data'', js ''audit.json''] \<in>
       {None, Some \<lparr>f_bytes = [7, 7], f_mode = OWNER_ONLY\<rparr>}"
    using save_crash_atomic [OF _ s] by auto
qed

text \<open>
  C24. The file operations implement the abstract store: whether the document exists and what
  loading it gives are those of the abstract cell the file stands for; and with a reader that
  reads back what the writer wrote, a save returns and stores exactly what the abstract cell
  does for the same outcome, failures before and after the replacement included.
\<close>

theorem json_store_refines_cell:
  assumes "temp_fresh i path fs" and "\<And>json. writer d = Some json \<Longrightarrow> reader json = Some d"
  shows "JsonStore_exists path fs = cell_exists (JsonStore_cell reader path fs)
     \<and> JsonStore_load reader path fs = cell_load (JsonStore_cell reader path fs)
     \<and> (fst (JsonStore_save writer path i d fs),
          JsonStore_cell reader path (last (snd (JsonStore_save writer path i d fs))))
       = cell_save (JsonStore_outcome writer i d) d (JsonStore_cell reader path fs)"
  using JsonStore_save_refines [OF assms] by (simp add: JsonStore_exists_cell [of path fs reader] JsonStore_load_cell)

theorem json_store_refines_cell_witness:
  "JsonStore_cell (\<lambda>bs. case bs of [a] \<Rightarrow> Some a | _ \<Rightarrow> None) [js ''audit.json'']
     (last (snd (JsonStore_save (\<lambda>d. Some [d]) [js ''audit.json''] demo_io (7 :: byte) (\<lambda>_. None))))
   = Doc 7"
proof -
  have "temp_fresh demo_io [js ''audit.json''] (\<lambda>_. None)"
    by (simp add: temp_fresh_def demo_io_def)
  from json_store_refines_cell [OF this, of "\<lambda>d. Some [d]" "7 :: byte"
      "\<lambda>bs. case bs of [a] \<Rightarrow> Some a | _ \<Rightarrow> None"]
  show ?thesis
    by (simp add: JsonStore_outcome_def demo_io_def)
qed

end
