(* ===== verification/Clients.thy ===== *)
theory Clients
  imports Auth Secrets Store
begin

text \<open>
  The client registry: \<open>model/ClientRecord.java\<close> and \<open>service/ClientService.java\<close>. The
  state is the in-memory \<open>LinkedHashMap\<close> and the document file \<open>clients.json\<close>, seen as a
  \<open>cell\<close>. Each public method of the Java class is \<open>synchronized\<close>, so each is one
  transition here; the random bytes, the clock reading and the outcome of the file write are
  its arguments.
\<close>

section \<open>model/ClientRecord.java\<close>

record ClientRecord =
  cr_clientId :: jstring
  cr_displayName :: "jstring option"
  cr_secretHash :: "SecretHash option"
  cr_authorization :: Authorization
  cr_enabled :: bool
  cr_createdAt :: long

definition withAuthorization :: "Authorization \<Rightarrow> ClientRecord \<Rightarrow> ClientRecord" where
  "withAuthorization newAuthorization r = r\<lparr>cr_authorization := newAuthorization\<rparr>"

definition withEnabled :: "bool \<Rightarrow> ClientRecord \<Rightarrow> ClientRecord" where
  "withEnabled newEnabled r = r\<lparr>cr_enabled := newEnabled\<rparr>"

section \<open>service/ClientService.java\<close>

record ClientService =
  cs_clients :: "(jstring, ClientRecord) linked_map"
  cs_store :: "ClientRecord list cell"

record Registration =
  rg_client :: ClientRecord
  rg_secret :: jstring

definition DUMMY_HASH :: SecretHash where
  "DUMMY_HASH =
     \<lparr>sh_algorithm = ALGORITHM_ARGON2ID,
      sh_saltBase64 = js ''AAAAAAAAAAAAAAAAAAAAAA=='',
      sh_hashBase64 = js ''AAAAAAAAAAAAAAAAAAAAAAAAAAAAAAAAAAAAAAAAAAA='',
      sh_memoryKiB = 8, sh_iterations = 1, sh_parallelism = 1\<rparr>"

text \<open>The constructor: load the saved records, if the file exists.\<close>

definition ClientService_new :: "ClientRecord list cell \<Rightarrow> exn + ClientService" where
  "ClientService_new store =
     (if cell_exists store then
        and_then (cell_load store) (\<lambda>records.
          Inr \<lparr>cs_clients = lhm_load cr_clientId records, cs_store = store\<rparr>)
      else Inr \<lparr>cs_clients = [], cs_store = store\<rparr>)"

definition ClientService_persist :: "outcome \<Rightarrow> ClientService \<Rightarrow> (exn + unit) \<times> ClientService" where
  "ClientService_persist out s =
     (let (r, c) = cell_save out (lhm_values (cs_clients s)) (cs_store s)
      in (r, s\<lparr>cs_store := c\<rparr>))"

definition ClientService_register ::
  "argon2 \<Rightarrow> Argon2Settings \<Rightarrow> byte list \<Rightarrow> byte list \<Rightarrow> byte list \<Rightarrow> long \<Rightarrow> outcome
   \<Rightarrow> jstring option \<Rightarrow> Authorization option \<Rightarrow> ClientService
   \<Rightarrow> (exn + Registration) \<times> ClientService" where
  "ClientService_register argon2 settings idBytes secretBytes salt now out
       displayName authorization s =
     (let clientId = newClientId idBytes;
          secret = newClientSecret secretBytes
      in case hash_secret argon2 settings salt (Some secret) of
           Inl e \<Rightarrow> (Inl e, s)
         | Inr secretHash \<Rightarrow>
             (let record' = \<lparr>cr_clientId = clientId, cr_displayName = displayName,
                    cr_secretHash = Some secretHash,
                    cr_authorization =
                      (case authorization of None \<Rightarrow> Authorization_none | Some a \<Rightarrow> a),
                    cr_enabled = True, cr_createdAt = now\<rparr>;
                  s1 = s\<lparr>cs_clients := lhm_put clientId record' (cs_clients s)\<rparr>
              in case ClientService_persist out s1 of
                   (Inl e, s2) \<Rightarrow> (Inl e, s2)
                 | (Inr _, s2) \<Rightarrow> (Inr \<lparr>rg_client = record', rg_secret = secret\<rparr>, s2)))"

definition ClientService_list :: "ClientService \<Rightarrow> ClientRecord list" where
  "ClientService_list s = lhm_values (cs_clients s)"

definition ClientService_get :: "jstring \<Rightarrow> ClientService \<Rightarrow> ClientRecord option" where
  "ClientService_get clientId s = lhm_get (cs_clients s) clientId"

definition ClientService_remove ::
  "outcome \<Rightarrow> jstring \<Rightarrow> ClientService \<Rightarrow> (exn + bool) \<times> ClientService" where
  "ClientService_remove out clientId s =
     (let removed = (lhm_get (cs_clients s) clientId \<noteq> None);
          s1 = s\<lparr>cs_clients := lhm_remove clientId (cs_clients s)\<rparr>
      in if removed then
           (case ClientService_persist out s1 of
              (Inl e, s2) \<Rightarrow> (Inl e, s2)
            | (Inr _, s2) \<Rightarrow> (Inr True, s2))
         else (Inr False, s1))"

definition ClientService_setAuthorization ::
  "outcome \<Rightarrow> jstring \<Rightarrow> Authorization option \<Rightarrow> ClientService
   \<Rightarrow> (exn + ClientRecord option) \<times> ClientService" where
  "ClientService_setAuthorization out clientId authorization s =
     (case lhm_get (cs_clients s) clientId of
        None \<Rightarrow> (Inr None, s)
      | Some existing \<Rightarrow>
          (let updated = withAuthorization
                 (case authorization of None \<Rightarrow> Authorization_none | Some a \<Rightarrow> a) existing;
               s1 = s\<lparr>cs_clients := lhm_put clientId updated (cs_clients s)\<rparr>
           in case ClientService_persist out s1 of
                (Inl e, s2) \<Rightarrow> (Inl e, s2)
              | (Inr _, s2) \<Rightarrow> (Inr (Some updated), s2)))"

definition ClientService_authenticate ::
  "argon2 \<Rightarrow> jstring option \<Rightarrow> jstring option \<Rightarrow> ClientService
   \<Rightarrow> exn + ClientRecord option" where
  "ClientService_authenticate argon2 clientId secret s =
     (case (case clientId of None \<Rightarrow> None | Some i \<Rightarrow> lhm_get (cs_clients s) i) of
        None \<Rightarrow> and_then (verify_secret argon2 secret (Some DUMMY_HASH)) (\<lambda>_. Inr None)
      | Some r \<Rightarrow>
          and_then (if cr_enabled r then verify_secret argon2 secret (cr_secretHash r)
                    else Inr False)
            (\<lambda>ok. Inr (if ok then Some r else None)))"

section \<open>The registry invariant\<close>

text \<open>
  Keys and records agree, every record's authorization passed the \<open>Grant\<close> constructor and
  its hash was made under valid settings.
\<close>

definition wf_hash :: "SecretHash \<Rightarrow> bool" where
  "wf_hash h \<longleftrightarrow>
     (\<exists>salt hash settings. wf_settings settings \<and> h =
        \<lparr>sh_algorithm = ALGORITHM_ARGON2ID, sh_saltBase64 = base64_std salt,
         sh_hashBase64 = base64_std hash, sh_memoryKiB = as_memoryKiB settings,
         sh_iterations = as_iterations settings, sh_parallelism = as_parallelism settings\<rparr>)"

definition wf_client :: "ClientRecord \<Rightarrow> bool" where
  "wf_client r \<longleftrightarrow> wf_authorization (cr_authorization r)
     \<and> (\<exists>h. cr_secretHash r = Some h \<and> wf_hash h)"

definition clients_inv :: "ClientService \<Rightarrow> bool" where
  "clients_inv s \<longleftrightarrow> lhm_keyed cr_clientId (cs_clients s)
     \<and> (\<forall>r \<in> set (lhm_values (cs_clients s)). wf_client r)"

named_theorems client_ops

lemmas client_op_defs [client_ops] =
  ClientService_register_def ClientService_remove_def ClientService_setAuthorization_def
  ClientService_persist_def

interpretation clients: keyed_registry
  "[]" lhm_put lhm_remove lhm_get lhm_values lhm_ok cr_clientId
  by unfold_locales

lemma clients_inv_ok: "clients_inv s \<Longrightarrow> lhm_ok (cs_clients s)"
  by (auto simp: clients_inv_def intro: lhm_keyed_ok)

lemma hash_secret_wf:
  "hash_secret argon2 st salt sec = Inr h \<Longrightarrow> wf_settings st \<Longrightarrow> wf_hash h"
  by (erule hash_secret_Inr) (auto simp: wf_hash_def)

lemma lhm_values_put: "set (lhm_values (lhm_put k v m)) \<subseteq> insert v (set (lhm_values m))"
  by (induction m) (auto simp: lhm_defs)

lemma lhm_values_remove: "set (lhm_values (lhm_remove k m)) \<subseteq> set (lhm_values m)"
  by (auto simp: lhm_defs)

lemma clients_inv_put:
  "clients_inv s \<Longrightarrow> wf_client r \<Longrightarrow> cr_clientId r = k \<Longrightarrow>
     clients_inv (s\<lparr>cs_clients := lhm_put k r (cs_clients s)\<rparr>)"
  using lhm_values_put [of k r "cs_clients s"]
  by (auto simp: clients_inv_def lhm_keyed_put)

lemma clients_inv_remove:
  "clients_inv s \<Longrightarrow> clients_inv (s\<lparr>cs_clients := lhm_remove k (cs_clients s)\<rparr>)"
  using lhm_values_remove [of k "cs_clients s"]
  by (auto simp: clients_inv_def lhm_keyed_remove)

lemma persist_clients [simp]: "cs_clients (snd (ClientService_persist out s)) = cs_clients s"
  by (cases out) (simp_all add: ClientService_persist_def)

lemma persist_inv: "clients_inv (snd (ClientService_persist out s)) \<longleftrightarrow> clients_inv s"
  by (simp add: clients_inv_def)

lemma persist_result:
  "fst (ClientService_persist out s) = (if out = Saved then Inr () else Inl save_error)"
  by (cases out) (simp_all add: ClientService_persist_def)

lemma persist_saved:
  "cs_store (snd (ClientService_persist Saved s)) = Doc (lhm_values (cs_clients s))"
  by (simp add: ClientService_persist_def)

lemma clients_get_wf: "clients_inv s \<Longrightarrow> lhm_get (cs_clients s) k = Some r \<Longrightarrow>
    wf_client r \<and> cr_clientId r = k"
  using lhm.get_in_vals [of "cs_clients s" k r] lhm_keyed_get [of cr_clientId "cs_clients s" k r]
  by (auto simp: clients_inv_def lhm_keyed_ok)

text \<open>Each operation, reduced to its effect on the map and its result.\<close>

lemma register_cases:
  assumes "ClientService_register argon2 st ib sb salt now out dn au s = (r, s')"
  obtains (throws) e where "hash_secret argon2 st salt (Some (newClientSecret sb)) = Inl e"
      and "r = Inl e" and "s' = s"
    | (puts) h c where "hash_secret argon2 st salt (Some (newClientSecret sb)) = Inr h"
      and "c = \<lparr>cr_clientId = newClientId ib, cr_displayName = dn, cr_secretHash = Some h,
                cr_authorization = (case au of None \<Rightarrow> Authorization_none | Some a \<Rightarrow> a),
                cr_enabled = True, cr_createdAt = now\<rparr>"
      and "cs_clients s' = lhm_put (newClientId ib) c (cs_clients s)"
      and "out = Saved \<Longrightarrow> cs_store s' = Doc (lhm_values (cs_clients s'))"
      and "r = (if out = Saved then Inr \<lparr>rg_client = c, rg_secret = newClientSecret sb\<rparr>
                else Inl save_error)"
proof (cases "hash_secret argon2 st salt (Some (newClientSecret sb))")
  case (Inl e)
  with assms show ?thesis by (intro throws) (auto simp: ClientService_register_def)
next
  case (Inr h)
  show ?thesis
    by (rule puts [OF Inr refl])
       (use assms Inr in \<open>cases out; auto simp: client_ops Let_def\<close>)+
qed

lemma register_inv:
  assumes inv: "clients_inv s" and st: "wf_settings st"
    and au: "\<And>a. au = Some a \<Longrightarrow> wf_authorization a"
    and reg: "ClientService_register argon2 st ib sb salt now out dn au s = (r, s')"
  shows "clients_inv s'"
  using reg
proof (cases rule: register_cases)
  case (puts h c)
  have "wf_client c"
    using au hash_secret_wf [OF puts(1) st]
    by (cases au) (auto simp: wf_client_def puts(2))
  then have "clients_inv (s\<lparr>cs_clients := lhm_put (newClientId ib) c (cs_clients s)\<rparr>)"
    by (intro clients_inv_put [OF inv]) (simp_all add: puts(2))
  with puts(3) show ?thesis by (simp add: clients_inv_def)
qed (use inv in simp)

lemma remove_clients:
  "ClientService_remove out k s = (r, s') \<Longrightarrow> cs_clients s' = lhm_remove k (cs_clients s)"
  by (cases out) (auto simp: client_ops Let_def split: if_splits)

lemma remove_inv:
  assumes "clients_inv s" and "ClientService_remove out k s = (r, s')"
  shows "clients_inv s'"
  using clients_inv_remove [OF assms(1), of k] remove_clients [OF assms(2)]
  by (simp add: clients_inv_def)

lemma setAuthorization_cases:
  assumes "ClientService_setAuthorization out k au s = (r, s')"
  obtains (absent) "lhm_get (cs_clients s) k = None" and "r = Inr None" and "s' = s"
    | (puts) c c' where "lhm_get (cs_clients s) k = Some c"
      and "c' = c\<lparr>cr_authorization := (case au of None \<Rightarrow> Authorization_none | Some a \<Rightarrow> a)\<rparr>"
      and "cs_clients s' = lhm_put k c' (cs_clients s)"
      and "out = Saved \<Longrightarrow> cs_store s' = Doc (lhm_values (cs_clients s'))"
      and "r = (if out = Saved then Inr (Some c') else Inl save_error)"
proof (cases "lhm_get (cs_clients s) k")
  case None
  with assms show ?thesis by (intro absent) (auto simp: ClientService_setAuthorization_def)
next
  case (Some c)
  show ?thesis
    by (rule puts [OF Some refl])
       (use assms Some in \<open>cases out; auto simp: client_ops withAuthorization_def Let_def\<close>)+
qed

lemma setAuthorization_inv:
  assumes inv: "clients_inv s" and au: "\<And>a. au = Some a \<Longrightarrow> wf_authorization a"
    and set: "ClientService_setAuthorization out k au s = (r, s')"
  shows "clients_inv s'"
  using set
proof (cases rule: setAuthorization_cases)
  case (puts c c')
  from clients_get_wf [OF inv puts(1)] au have "wf_client c'" and "cr_clientId c' = k"
    by (cases au; simp add: wf_client_def puts(2))+
  then have "clients_inv (s\<lparr>cs_clients := lhm_put k c' (cs_clients s)\<rparr>)"
    by (intro clients_inv_put [OF inv])
  with puts(3) show ?thesis by (simp add: clients_inv_def)
qed (use inv in simp)

lemma restart_clients:
  "clients_inv s \<Longrightarrow> ClientService_new (Doc (lhm_values (cs_clients s))) =
     Inr \<lparr>cs_clients = cs_clients s, cs_store = Doc (lhm_values (cs_clients s))\<rparr>"
  by (simp add: ClientService_new_def clients_inv_def lhm_load_values)

interpretation clients_restart: restartable clients_inv "\<lambda>s. lhm_values (cs_clients s)"
  ClientService_new "\<lambda>s s'. cs_clients s' = cs_clients s"
  by unfold_locales (simp add: restart_clients)

section \<open>Authentication\<close>

lemma dummy_salt: "js ''AAAAAAAAAAAAAAAAAAAAAA=='' = base64_std (replicate 16 0)"
  by code_simp

lemma dummy_hash:
  "js ''AAAAAAAAAAAAAAAAAAAAAAAAAAAAAAAAAAAAAAAAAAA='' = base64_std (replicate 32 0)"
  by code_simp

lemma verify_dummy:
  "p \<noteq> [] \<Longrightarrow> verify_secret argon2 (Some p) (Some DUMMY_HASH) =
     and_then (argon2 (toUtf8 p) (replicate 16 0)
        \<lparr>as_memoryKiB = 8, as_iterations = 1, as_parallelism = 1\<rparr>)
       (\<lambda>c. Inr (replicate 32 0 = c))"
  by (simp add: verify_secret_def DUMMY_HASH_def dummy_salt dummy_hash base64.dec_enc
      SecretHash_settings_def mk_Argon2Settings_def derive_def word_sless_alt)

lemma authenticate_Some_iff:
  "ClientService_authenticate argon2 i sec s = Inr (Some r) \<longleftrightarrow>
     (\<exists>k. i = Some k \<and> lhm_get (cs_clients s) k = Some r) \<and> cr_enabled r
     \<and> verify_secret argon2 sec (cr_secretHash r) = Inr True"
  by (auto simp: ClientService_authenticate_def and_then_Inr_iff split: option.splits if_splits)

text \<open>
  The credentials a registration returns are good: after a successful \<open>register\<close> the registry
  authenticates the returned client id with the returned secret, as the reported record.
\<close>

lemma register_authenticates:
  assumes "clients_inv s" and "wf_settings settings"
    and "ClientService_register argon2 settings ib sb salt now out dn au s = (Inr reg, s')"
  shows "ClientService_authenticate argon2 (Some (cr_clientId (rg_client reg)))
           (Some (rg_secret reg)) s' = Inr (Some (rg_client reg))"
  using assms(3)
proof (cases rule: register_cases)
  case (puts h c)
  from puts(1) assms(2) have "verify_secret argon2 (Some (newClientSecret sb)) (Some h) = Inr True"
    using verify_secret_hashed [OF puts(1) assms(2)]
    by (auto elim!: hash_secret_Inr)
  moreover have "reg = \<lparr>rg_client = c, rg_secret = newClientSecret sb\<rparr>"
    using puts(5) by (auto split: if_splits)
  moreover have "lhm_get (cs_clients s') (newClientId ib) = Some c"
    using assms(1) by (simp add: puts(3) clients_inv_ok lhm.get_put_same)
  ultimately show ?thesis
    by (simp add: authenticate_Some_iff puts(2))
qed simp

section \<open>Properties\<close>

text \<open>
  Authentication accepts exactly the registered, enabled clients whose secret verifies,
  and it never writes the registry. Every other outcome that does not throw is the same
  empty result: the caller cannot tell an unknown client from a wrong secret.
\<close>

lemma authenticate_exact:
  "(ClientService_authenticate argon2 clientId secret s = Inr (Some r) \<longleftrightarrow>
      (\<exists>k. clientId = Some k \<and> ClientService_get k s = Some r) \<and> cr_enabled r
      \<and> verify_secret argon2 secret (cr_secretHash r) = Inr True)
   \<and> (ClientService_authenticate argon2 clientId secret s = Inr None \<longleftrightarrow>
      (case clientId of
         None \<Rightarrow> \<exists>b. verify_secret argon2 secret (Some DUMMY_HASH) = Inr b
       | Some k \<Rightarrow> (case ClientService_get k s of
             None \<Rightarrow> \<exists>b. verify_secret argon2 secret (Some DUMMY_HASH) = Inr b
           | Some c \<Rightarrow> \<not> cr_enabled c
               \<or> verify_secret argon2 secret (cr_secretHash c) = Inr False)))"
  unfolding ClientService_get_def
  by (rule conjI, rule authenticate_Some_iff)
     (auto simp: ClientService_authenticate_def and_then_Inr_iff split: option.splits if_splits)

text \<open>
  Replacing a client's grants touches nothing else: the other clients keep their
  records, and the client keeps its secret, its enabled flag and its creation time.
\<close>

lemma setAuthorization_frame:
  assumes "clients_inv s"
    and "ClientService_setAuthorization out k (Some a) s = (r, s')"
  shows "ClientService_get k' s' =
     (if k' = k then map_option (\<lambda>c. c\<lparr>cr_authorization := a\<rparr>) (ClientService_get k s)
      else ClientService_get k' s)"
  using assms(2)
proof (cases rule: setAuthorization_cases)
  case absent
  then show ?thesis by (simp add: ClientService_get_def)
next
  case (puts c c')
  from assms(1) have "lhm_ok (cs_clients s)" by (rule clients_inv_ok)
  then show ?thesis
    by (simp add: ClientService_get_def puts lhm.get_put)
qed

definition demo_hash :: SecretHash where
  "demo_hash = \<lparr>sh_algorithm = ALGORITHM_ARGON2ID, sh_saltBase64 = base64_std [1],
     sh_hashBase64 = base64_std [2], sh_memoryKiB = 8, sh_iterations = 1, sh_parallelism = 1\<rparr>"

definition demo_client :: ClientRecord where
  "demo_client = \<lparr>cr_clientId = js ''client_a'', cr_displayName = None,
     cr_secretHash = Some demo_hash, cr_authorization = Authorization_none,
     cr_enabled = True, cr_createdAt = 5\<rparr>"

definition demo_clients :: ClientService where
  "demo_clients = \<lparr>cs_clients = [(js ''client_a'', demo_client)], cs_store = Doc [demo_client]\<rparr>"

lemma demo_clients_inv: "clients_inv demo_clients"
proof -
  have "wf_hash demo_hash"
    unfolding wf_hash_def
    by (rule exI [of _ "[1]"], rule exI [of _ "[2]"], rule exI [of _ demo_settings])
       (simp add: demo_hash_def demo_settings_def wf_settings_def)
  then show ?thesis
    by (simp add: clients_inv_def demo_clients_def lhm_keyed_def lhm_defs wf_client_def
        demo_client_def)
qed

lemma setAuthorization_frame_example:
  "ClientService_get (js ''client_a'')
     (snd (ClientService_setAuthorization Saved (js ''client_a'')
        (Some \<lparr>a_controlPlane = True, a_grants = []\<rparr>) demo_clients))
   = Some (demo_client\<lparr>cr_authorization := \<lparr>a_controlPlane = True, a_grants = []\<rparr>\<rparr>)"
proof -
  obtain r s' where "ClientService_setAuthorization Saved (js ''client_a'')
      (Some \<lparr>a_controlPlane = True, a_grants = []\<rparr>) demo_clients = (r, s')"
    by (rule prod.exhaust)
  with setAuthorization_frame [OF demo_clients_inv this] show ?thesis
    by (simp add: ClientService_get_def demo_clients_def lhm_get_def)
qed

lemma authenticate_exact_example:
  "ClientService_authenticate demo_argon2 (Some (js ''client_b'')) (Some (js ''x'')) demo_clients = Inr None"
proof -
  have "ClientService_get (js ''client_b'') demo_clients = None"
    by (simp add: ClientService_get_def demo_clients_def lhm_get_def)
  moreover have "\<exists>b. verify_secret demo_argon2 (Some (js ''x'')) (Some DUMMY_HASH) = Inr b"
    by (simp add: verify_dummy demo_argon2_def)
  ultimately show ?thesis
    by (intro authenticate_exact [THEN conjunct2, THEN iffD2]) simp
qed



end
