(* ===== verification/Keys.thy ===== *)
theory Keys
  imports Encodings Secrets Store
begin

text \<open>
  Signing keys: \<open>crypto/Ed25519Keys.java\<close>, \<open>jwks/Jwk.java\<close>, \<open>jwks/JwkSet.java\<close>,
  \<open>model/SigningKeyRecord.java\<close> and \<open>service/SigningKeyService.java\<close>. A private key is its
  32-byte seed and a public key its 32 raw bytes; their \<open>getEncoded()\<close> forms are the fixed
  PKCS#8 and SubjectPublicKeyInfo headers of RFC 8410 in front of those bytes, and the key
  factory accepts just these forms. The arithmetic of Ed25519 itself is the JDK's and is a
  parameter: the record \<open>ed25519\<close>, with its documented laws in \<open>ed25519_ok\<close>.
\<close>

section \<open>Ed25519 as a parameter\<close>

type_synonym private_key = "byte list"
type_synonym public_key = "byte list"

text \<open>
  \<open>ed_accepts\<close> tells whether \<open>Signature.initVerify\<close> accepts a public key (else it throws a
  \<open>GeneralSecurityException\<close>); \<open>ed_verify\<close> is \<open>Signature.verify\<close>, \<open>None\<close> its
  \<open>SignatureException\<close> (a signature of the wrong shape).
\<close>

record ed25519 =
  ed_public :: "private_key \<Rightarrow> public_key"
  ed_sign :: "private_key \<Rightarrow> byte list \<Rightarrow> byte list"
  ed_accepts :: "public_key \<Rightarrow> bool"
  ed_verify :: "public_key \<Rightarrow> byte list \<Rightarrow> byte list \<Rightarrow> bool option"

definition ed25519_ok :: "ed25519 \<Rightarrow> bool" where
  "ed25519_ok ed \<longleftrightarrow>
     (\<forall>seed. length seed = 32 \<longrightarrow>
        length (ed_public ed seed) = 32 \<and> ed_accepts ed (ed_public ed seed))
     \<and> (\<forall>seed m. length seed = 32 \<longrightarrow>
          ed_verify ed (ed_public ed seed) m (ed_sign ed seed m) = Some True)"

lemma ed25519_okD:
  assumes "ed25519_ok ed" and "length seed = 32"
  shows "length (ed_public ed seed) = 32" and "ed_accepts ed (ed_public ed seed)"
    and "ed_verify ed (ed_public ed seed) m (ed_sign ed seed m) = Some True"
  using assms by (simp_all add: ed25519_ok_def)

section \<open>crypto/Ed25519Keys.java\<close>

definition RAW_PUBLIC_KEY_BYTES :: nat where "RAW_PUBLIC_KEY_BYTES = 32"

definition spki_prefix :: "byte list" where
  "spki_prefix = [0x30, 0x2a, 0x30, 0x05, 0x06, 0x03, 0x2b, 0x65, 0x70, 0x03, 0x21, 0x00]"

definition pkcs8_prefix :: "byte list" where
  "pkcs8_prefix = [0x30, 0x2e, 0x02, 0x01, 0x00, 0x30, 0x05, 0x06, 0x03, 0x2b, 0x65, 0x70,
     0x04, 0x22, 0x04, 0x20]"

text \<open>The JDK's \<open>getEncoded\<close> and key factory.\<close>

definition public_encoded :: "public_key \<Rightarrow> byte list" where
  "public_encoded k = spki_prefix @ k"

definition private_encoded :: "private_key \<Rightarrow> byte list" where
  "private_encoded k = pkcs8_prefix @ k"

definition generate_public :: "byte list \<Rightarrow> exn + public_key" where
  "generate_public der =
     (if length der = length spki_prefix + 32 \<and> take (length spki_prefix) der = spki_prefix
      then Inr (drop (length spki_prefix) der)
      else Inl (IllegalStateException (js ''failed to decode Ed25519 public key'')))"

definition generate_private :: "byte list \<Rightarrow> exn + private_key" where
  "generate_private der =
     (if length der = length pkcs8_prefix + 32 \<and> take (length pkcs8_prefix) der = pkcs8_prefix
      then Inr (drop (length pkcs8_prefix) der)
      else Inl (IllegalStateException (js ''failed to decode Ed25519 private key'')))"

definition encodePrivate :: "private_key \<Rightarrow> jstring" where
  "encodePrivate privateKey = base64_std (private_encoded privateKey)"

definition encodePublic :: "public_key \<Rightarrow> jstring" where
  "encodePublic publicKey = base64_std (public_encoded publicKey)"

definition decodePrivate :: "jstring \<Rightarrow> exn + private_key" where
  "decodePrivate base64Pkcs8 = and_then (unbase64_std base64Pkcs8) generate_private"

definition decodePublic :: "jstring \<Rightarrow> exn + public_key" where
  "decodePublic base64Spki = and_then (unbase64_std base64Spki) generate_public"

definition rawPublicKey :: "public_key \<Rightarrow> exn + byte list" where
  "rawPublicKey publicKey =
     (let spki = public_encoded publicKey
      in if length spki < RAW_PUBLIC_KEY_BYTES then
           Inl (IllegalStateException (js ''unexpected Ed25519 SPKI length''))
         else Inr (drop (length spki - RAW_PUBLIC_KEY_BYTES) spki))"

interpretation spki: codec "\<lambda>k. length k = 32" public_encoded generate_public
  by unfold_locales (simp add: public_encoded_def generate_public_def)

interpretation pkcs8: codec "\<lambda>k. length k = 32" private_encoded generate_private
  by unfold_locales (simp add: private_encoded_def generate_private_def)

interpretation public_text: codec_chain
  "\<lambda>k. length k = 32" public_encoded generate_public "\<lambda>_. True" base64_std unbase64_std
  by unfold_locales simp

interpretation private_text: codec_chain
  "\<lambda>k. length k = 32" private_encoded generate_private "\<lambda>_. True" base64_std unbase64_std
  by unfold_locales simp

lemma decode_encodePublic: "length k = 32 \<Longrightarrow> decodePublic (encodePublic k) = Inr k"
  unfolding decodePublic_def encodePublic_def by (rule public_text.chain.dec_enc)

lemma decode_encodePrivate: "length k = 32 \<Longrightarrow> decodePrivate (encodePrivate k) = Inr k"
  unfolding decodePrivate_def encodePrivate_def by (rule private_text.chain.dec_enc)

lemma rawPublicKey_raw: "length k = 32 \<Longrightarrow> rawPublicKey k = Inr k"
  by (simp add: rawPublicKey_def public_encoded_def RAW_PUBLIC_KEY_BYTES_def)

section \<open>jwks/Jwk.java and jwks/JwkSet.java\<close>

record Jwk =
  jwk_keyType :: "jstring option"
  jwk_curve :: "jstring option"
  jwk_publicKey :: "jstring option"
  jwk_use :: "jstring option"
  jwk_algorithm :: "jstring option"
  jwk_keyId :: "jstring option"

definition Jwk_forEd25519 :: "jstring \<Rightarrow> public_key \<Rightarrow> exn + Jwk" where
  "Jwk_forEd25519 kid publicKey =
     and_then (rawPublicKey publicKey) (\<lambda>raw.
       Inr \<lparr>jwk_keyType = Some (js ''OKP''), jwk_curve = Some (js ''Ed25519''),
            jwk_publicKey = Some (Base64Url_encode raw), jwk_use = Some (js ''sig''),
            jwk_algorithm = Some (js ''EdDSA''), jwk_keyId = Some kid\<rparr>)"

definition Jwk_spki :: "byte list \<Rightarrow> byte list" where
  "Jwk_spki raw =
     [0x30, 0x2a, 0x30, 0x05, 0x06, 0x03, 0x2b, 0x65, 0x70, 0x03, 0x21, 0x00] @ raw"

definition Jwk_toPublicKey :: "Jwk \<Rightarrow> exn + public_key" where
  "Jwk_toPublicKey jwk =
     (case jwk_publicKey jwk of
        None \<Rightarrow> Inl NullPointerException
      | Some x \<Rightarrow> and_then (Base64Url_decode x) (\<lambda>raw. decodePublic (base64_std (Jwk_spki raw))))"

text \<open>A JWK set; a null list of keys becomes the empty one, null elements are refused.\<close>

record JwkSet =
  jwks_keys :: "Jwk list"

definition mk_JwkSet :: "Jwk option list option \<Rightarrow> exn + JwkSet" where
  "mk_JwkSet keys =
     (case keys of
        None \<Rightarrow> Inr \<lparr>jwks_keys = []\<rparr>
      | Some ks \<Rightarrow> if None \<in> set ks then Inl NullPointerException
                   else Inr \<lparr>jwks_keys = map the ks\<rparr>)"

lemma mk_JwkSet_Some [simp]: "mk_JwkSet (Some (map Some ks)) = Inr \<lparr>jwks_keys = ks\<rparr>"
  by (auto simp: mk_JwkSet_def comp_def)

lemma forEd25519_Inr: "length k = 32 \<Longrightarrow> Jwk_forEd25519 kid k =
    Inr \<lparr>jwk_keyType = Some (js ''OKP''), jwk_curve = Some (js ''Ed25519''),
         jwk_publicKey = Some (Base64Url_encode k), jwk_use = Some (js ''sig''),
         jwk_algorithm = Some (js ''EdDSA''), jwk_keyId = Some kid\<rparr>"
  by (simp add: Jwk_forEd25519_def rawPublicKey_raw)

lemma toPublicKey_forEd25519:
  assumes "length k = 32" and "Jwk_forEd25519 kid k = Inr jwk"
  shows "Jwk_toPublicKey jwk = Inr k" and "jwk_keyId jwk = Some kid"
proof -
  have jwk: "jwk_publicKey jwk = Some (Base64Url_encode k)" "jwk_keyId jwk = Some kid"
    using assms by (auto simp: forEd25519_Inr)
  have "Jwk_spki k = public_encoded k"
    by (simp add: Jwk_spki_def public_encoded_def spki_prefix_def)
  then show "Jwk_toPublicKey jwk = Inr k"
    using decode_encodePublic [OF assms(1)]
    by (simp add: Jwk_toPublicKey_def jwk base64url.dec_enc encodePublic_def)
  show "jwk_keyId jwk = Some kid" by (rule jwk)
qed

section \<open>model/SigningKeyRecord.java\<close>

record SigningKeyRecord =
  kr_kid :: jstring
  kr_private :: jstring
  kr_public :: jstring
  kr_active :: bool
  kr_createdAt :: long
  kr_retiredAt :: "long option"

definition SigningKeyRecord_retiredAt :: "long \<Rightarrow> SigningKeyRecord \<Rightarrow> SigningKeyRecord" where
  "SigningKeyRecord_retiredAt w k = k\<lparr>kr_active := False, kr_retiredAt := Some w\<rparr>"

text \<open>The document of \<open>signing-keys.json\<close>.\<close>

record SigningKeys =
  sd_activeKid :: "jstring option"
  sd_keys :: "SigningKeyRecord list"

section \<open>service/SigningKeyService.java\<close>

record SigningKeyService =
  sk_keys :: "SigningKeyRecord list"
  sk_activeKid :: "jstring option"
  sk_store :: "SigningKeys cell"

record Signer =
  sg_kid :: jstring
  sg_privateKey :: private_key

definition findActive :: "SigningKeyService \<Rightarrow> SigningKeyRecord option" where
  "findActive s = find (\<lambda>key. kr_active key \<and> Some (kr_kid key) = sk_activeKid s) (sk_keys s)"

text \<open>\<open>generateActive\<close>: a fresh key pair (its seed), the bytes of the kid, the clock.\<close>

definition generateActive ::
  "ed25519 \<Rightarrow> private_key \<Rightarrow> byte list \<Rightarrow> long \<Rightarrow> SigningKeyService \<Rightarrow> SigningKeyService" where
  "generateActive ed seed kidBytes now s =
     (let kid = newKid kidBytes
      in s\<lparr>sk_keys := sk_keys s @
              [\<lparr>kr_kid = kid, kr_private = encodePrivate seed,
                kr_public = encodePublic (ed_public ed seed), kr_active = True,
                kr_createdAt = now, kr_retiredAt = None\<rparr>],
            sk_activeKid := Some kid\<rparr>)"

definition SigningKeyService_persist ::
  "outcome \<Rightarrow> SigningKeyService \<Rightarrow> (exn + unit) \<times> SigningKeyService" where
  "SigningKeyService_persist out s =
     (let (r, c) = cell_save out \<lparr>sd_activeKid = sk_activeKid s, sd_keys = sk_keys s\<rparr> (sk_store s)
      in (r, s\<lparr>sk_store := c\<rparr>))"

text \<open>\<open>key.retiredAt() < cutoff\<close> with the cutoff computed in \<open>long\<close> arithmetic.\<close>

definition expired_retired :: "long \<Rightarrow> long \<Rightarrow> SigningKeyRecord \<Rightarrow> bool" where
  "expired_retired retention now key \<longleftrightarrow>
     \<not> kr_active key \<and>
     (case kr_retiredAt key of None \<Rightarrow> False | Some t \<Rightarrow> t <s now - retention)"

definition pruneExpiredRetired :: "long \<Rightarrow> long \<Rightarrow> SigningKeyService \<Rightarrow> SigningKeyService" where
  "pruneExpiredRetired retention now s =
     s\<lparr>sk_keys := filter (\<lambda>key. \<not> expired_retired retention now key) (sk_keys s)\<rparr>"

definition SigningKeyService_new ::
  "ed25519 \<Rightarrow> private_key \<Rightarrow> byte list \<Rightarrow> long \<Rightarrow> outcome \<Rightarrow> SigningKeys cell
   \<Rightarrow> (exn + SigningKeyService) \<times> SigningKeys cell" where
  "SigningKeyService_new ed seed kidBytes now out store =
     (case (if cell_exists store then
              and_then (cell_load store) (\<lambda>loaded.
                Inr \<lparr>sk_keys = sd_keys loaded, sk_activeKid = sd_activeKid loaded,
                     sk_store = store\<rparr>)
            else Inr \<lparr>sk_keys = [], sk_activeKid = None, sk_store = store\<rparr>) of
        Inl e \<Rightarrow> (Inl e, store)
      | Inr s \<Rightarrow>
          if sk_activeKid s = None \<or> findActive s = None then
            (case SigningKeyService_persist out (generateActive ed seed kidBytes now s) of
               (Inl e, s1) \<Rightarrow> (Inl e, sk_store s1)
             | (Inr _, s1) \<Rightarrow> (Inr s1, sk_store s1))
          else (Inr s, store))"

definition currentSigner :: "SigningKeyService \<Rightarrow> exn + Signer" where
  "currentSigner s =
     (case findActive s of
        None \<Rightarrow> Inl (IllegalStateException (js ''no active signing key''))
      | Some active \<Rightarrow>
          and_then (decodePrivate (kr_private active)) (\<lambda>k.
            Inr \<lparr>sg_kid = kr_kid active, sg_privateKey = k\<rparr>))"

definition SigningKeyService_jwkSet ::
  "long \<Rightarrow> long \<Rightarrow> SigningKeyService \<Rightarrow> (exn + JwkSet) \<times> SigningKeyService" where
  "SigningKeyService_jwkSet retention now s =
     (let s1 = pruneExpiredRetired retention now s
      in (and_then
            (map_throw (\<lambda>key. and_then (decodePublic (kr_public key)) (Jwk_forEd25519 (kr_kid key)))
               (sk_keys s1))
            (\<lambda>jwks. mk_JwkSet (Some (map Some jwks))), s1))"

text \<open>\<open>rotate\<close> reads the clock three times: to retire, to create, and to prune.\<close>

definition SigningKeyService_rotate ::
  "ed25519 \<Rightarrow> long \<Rightarrow> long \<Rightarrow> private_key \<Rightarrow> byte list \<Rightarrow> long \<Rightarrow> long \<Rightarrow> outcome
   \<Rightarrow> SigningKeyService \<Rightarrow> (exn + jstring option) \<times> SigningKeyService" where
  "SigningKeyService_rotate ed retention now seed kidBytes created pruned out s =
     (let updated = map (\<lambda>key. if kr_active key then SigningKeyRecord_retiredAt now key else key)
                      (sk_keys s);
          s1 = generateActive ed seed kidBytes created (s\<lparr>sk_keys := updated\<rparr>);
          s2 = pruneExpiredRetired retention pruned s1
      in case SigningKeyService_persist out s2 of
           (Inl e, s3) \<Rightarrow> (Inl e, s3)
         | (Inr _, s3) \<Rightarrow> (Inr (sk_activeKid s3), s3))"


section \<open>The key-set invariant\<close>

definition wf_key :: "ed25519 \<Rightarrow> SigningKeyRecord \<Rightarrow> bool" where
  "wf_key ed k \<longleftrightarrow>
     (\<exists>seed. length seed = 32 \<and> kr_private k = encodePrivate seed
        \<and> kr_public k = encodePublic (ed_public ed seed))
     \<and> (kr_active k \<longleftrightarrow> kr_retiredAt k = None)"

definition keys_inv :: "ed25519 \<Rightarrow> SigningKeyService \<Rightarrow> bool" where
  "keys_inv ed s \<longleftrightarrow>
     findActive s \<noteq> None
     \<and> (\<forall>k \<in> set (sk_keys s). kr_active k \<longrightarrow> Some (kr_kid k) = sk_activeKid s)
     \<and> distinct (map kr_kid (sk_keys s))
     \<and> (\<forall>k \<in> set (sk_keys s). wf_key ed k)"

named_theorems key_ops

lemmas key_op_defs [key_ops] =
  SigningKeyService_rotate_def SigningKeyService_jwkSet_def SigningKeyService_persist_def
  pruneExpiredRetired_def generateActive_def SigningKeyRecord_retiredAt_def

lemma findActive_Some_iff:
  "findActive s \<noteq> None \<longleftrightarrow> (\<exists>k \<in> set (sk_keys s). kr_active k \<and> Some (kr_kid k) = sk_activeKid s)"
  by (auto simp: findActive_def find_None_iff)

lemma findActive_SomeD:
  "findActive s = Some k \<Longrightarrow> k \<in> set (sk_keys s) \<and> kr_active k \<and> Some (kr_kid k) = sk_activeKid s"
  by (auto simp: findActive_def find_Some_iff)

lemma expired_retired_active [simp]: "kr_active k \<Longrightarrow> \<not> expired_retired r t k"
  by (simp add: expired_retired_def)

lemma expired_retired_iff:
  assumes "instant_ok now" and "0 \<le> sint r" and "sint r < 2 ^ 62"
  shows "expired_retired r now k \<longleftrightarrow>
     \<not> kr_active k \<and> (\<exists>t. kr_retiredAt k = Some t \<and> sint t < sint now - sint r)"
proof -
  have "sint (now - r) = sint now - sint r"
    using assms by (intro sint_long_diff) (simp_all add: instant_ok_def instant_min_def instant_max_def)
  then show ?thesis
    by (auto simp: expired_retired_def word_sless_alt split: option.splits)
qed

lemma findActive_prune:
  "findActive s \<noteq> None \<Longrightarrow> findActive (pruneExpiredRetired r t s) \<noteq> None"
  unfolding findActive_Some_iff by (auto simp: pruneExpiredRetired_def)

lemma findActive_generate: "findActive (generateActive ed seed kb now s) \<noteq> None"
  unfolding findActive_Some_iff by (simp add: generateActive_def Let_def)

lemma keys_persist [simp]:
  "sk_keys (snd (SigningKeyService_persist out s)) = sk_keys s"
  "sk_activeKid (snd (SigningKeyService_persist out s)) = sk_activeKid s"
  "findActive (snd (SigningKeyService_persist out s)) = findActive s"
  by (cases out; simp add: SigningKeyService_persist_def findActive_def)+

lemma keys_persist_result:
  "fst (SigningKeyService_persist out s) = (if out = Saved then Inr () else Inl save_error)"
  by (cases out) (simp_all add: SigningKeyService_persist_def)

lemma keys_persist_saved:
  "sk_store (snd (SigningKeyService_persist Saved s)) =
     Doc \<lparr>sd_activeKid = sk_activeKid s, sd_keys = sk_keys s\<rparr>"
  by (simp add: SigningKeyService_persist_def)

lemma keys_inv_persist [simp]:
  "keys_inv ed (snd (SigningKeyService_persist out s)) \<longleftrightarrow> keys_inv ed s"
  by (simp add: keys_inv_def)

lemma keys_inv_prune: "keys_inv ed s \<Longrightarrow> keys_inv ed (pruneExpiredRetired r t s)"
  using findActive_prune [of s r t]
  by (auto simp: keys_inv_def pruneExpiredRetired_def distinct_map_filter)

text \<open>The effect of a rotation on the keys in memory, whatever the outcome of the save.\<close>

definition rotated_keys ::
  "ed25519 \<Rightarrow> long \<Rightarrow> private_key \<Rightarrow> byte list \<Rightarrow> long \<Rightarrow> SigningKeyRecord list
   \<Rightarrow> SigningKeyRecord list" where
  "rotated_keys ed now seed kb created ks =
     map (\<lambda>key. if kr_active key then SigningKeyRecord_retiredAt now key else key) ks
     @ [\<lparr>kr_kid = newKid kb, kr_private = encodePrivate seed,
         kr_public = encodePublic (ed_public ed seed), kr_active = True,
         kr_createdAt = created, kr_retiredAt = None\<rparr>]"

lemma rotate_effect:
  assumes "SigningKeyService_rotate ed r now seed kb created pruned out s = (res, s')"
  shows "sk_keys s' =
      filter (\<lambda>k. \<not> expired_retired r pruned k) (rotated_keys ed now seed kb created (sk_keys s))"
    and "sk_activeKid s' = Some (newKid kb)"
    and "res = (if out = Saved then Inr (Some (newKid kb)) else Inl save_error)"
    and "out = Saved \<Longrightarrow> sk_store s' = Doc \<lparr>sd_activeKid = sk_activeKid s', sd_keys = sk_keys s'\<rparr>"
    and "out = NotSaved \<Longrightarrow> sk_store s' = sk_store s"
  using assms by (cases out; force simp: key_ops rotated_keys_def Let_def)+

lemma rotated_kids: "map kr_kid (rotated_keys ed now seed kb created ks) = map kr_kid ks @ [newKid kb]"
  by (simp add: rotated_keys_def SigningKeyRecord_retiredAt_def comp_def if_distrib)

lemma rotated_wf:
  "(\<And>k. k \<in> set ks \<Longrightarrow> wf_key ed k) \<Longrightarrow> length seed = 32 \<Longrightarrow>
     k \<in> set (rotated_keys ed now seed kb created ks) \<Longrightarrow> wf_key ed k"
  by (auto simp: rotated_keys_def SigningKeyRecord_retiredAt_def wf_key_def)

lemma rotate_inv:
  assumes inv: "keys_inv ed s" and seed: "length seed = 32"
    and fresh: "newKid kb \<notin> kr_kid ` set (sk_keys s)"
    and rot: "SigningKeyService_rotate ed r now seed kb created pruned out s = (res, s')"
  shows "keys_inv ed s'"
proof -
  note eff = rotate_effect [OF rot]
  let ?ks = "rotated_keys ed now seed kb created (sk_keys s)"
  have "distinct (map kr_kid ?ks)"
    using inv fresh by (simp add: rotated_kids keys_inv_def)
  then have "distinct (map kr_kid (sk_keys s'))"
    by (simp add: eff(1) distinct_map_filter)
  moreover have "wf_key ed k" if "k \<in> set (sk_keys s')" for k
    using that inv seed by (auto simp: eff(1) keys_inv_def intro: rotated_wf)
  moreover have "Some (kr_kid k) = sk_activeKid s'" if "k \<in> set (sk_keys s')" "kr_active k" for k
    using that by (auto simp: eff(1,2) rotated_keys_def SigningKeyRecord_retiredAt_def)
  moreover have "findActive s' \<noteq> None"
    unfolding findActive_Some_iff eff(1,2)
    by (rule bexI [of _ "last ?ks"]) (simp_all add: rotated_keys_def)
  ultimately show ?thesis by (auto simp: keys_inv_def)
qed

lemma one_active:
  assumes "keys_inv ed s"
  shows "\<exists>k. filter kr_active (sk_keys s) = [k] \<and> findActive s = Some k
           \<and> Some (kr_kid k) = sk_activeKid s"
proof -
  obtain k where k: "findActive s = Some k" using assms by (auto simp: keys_inv_def)
  then have kin: "k \<in> set (sk_keys s)" "kr_active k" "Some (kr_kid k) = sk_activeKid s"
    by (auto dest: findActive_SomeD)
  have d: "distinct (map kr_kid (sk_keys s))" using assms by (simp add: keys_inv_def)
  then have inj: "inj_on kr_kid (set (sk_keys s))" and ds: "distinct (sk_keys s)"
    by (simp_all add: distinct_map)
  have uniq: "k' = k" if "k' \<in> set (sk_keys s)" "kr_active k'" for k'
  proof -
    have "Some (kr_kid k') = sk_activeKid s" using that assms by (simp add: keys_inv_def)
    with kin(3) have "kr_kid k' = kr_kid k" by (metis option.inject)
    with inj that(1) kin(1) show ?thesis by (simp add: inj_on_eq_iff)
  qed
  have "set (filter kr_active (sk_keys s)) = {k}"
  proof (intro equalityI subsetI)
    fix x assume "x \<in> set (filter kr_active (sk_keys s))"
    then show "x \<in> {k}" using uniq [of x] by simp
  next
    fix x assume "x \<in> {k}"
    then show "x \<in> set (filter kr_active (sk_keys s))" using kin(1,2) by simp
  qed
  with ds have "filter kr_active (sk_keys s) = [k]"
    by (intro distinct_set_singleton) simp_all
  with k kin(3) show ?thesis by blast
qed

text \<open>What the JWKS endpoint publishes.\<close>

lemma jwkSet_published:
  assumes inv: "keys_inv ed s" and ed: "ed25519_ok ed"
  shows "\<exists>jwks. fst (SigningKeyService_jwkSet r now s) = Inr \<lparr>jwks_keys = jwks\<rparr> \<and>
     list_all2 (\<lambda>key jwk. jwk_keyId jwk = Some (kr_kid key)
         \<and> (\<forall>seed. length seed = 32 \<longrightarrow> kr_private key = encodePrivate seed \<longrightarrow>
              Jwk_toPublicKey jwk = Inr (ed_public ed seed)))
       (filter (\<lambda>key. \<not> expired_retired r now key) (sk_keys s)) jwks"
proof -
  let ?f = "\<lambda>key. and_then (decodePublic (kr_public key)) (Jwk_forEd25519 (kr_kid key))"
  let ?P = "\<lambda>key jwk. jwk_keyId jwk = Some (kr_kid key)
         \<and> (\<forall>seed. length seed = 32 \<longrightarrow> kr_private key = encodePrivate seed \<longrightarrow>
              Jwk_toPublicKey jwk = Inr (ed_public ed seed))"
  have one: "\<exists>jwk. ?f key = Inr jwk \<and> ?P key jwk" if "key \<in> set (sk_keys s)" for key
  proof -
    from that inv obtain seed where seed: "length seed = 32" "kr_private key = encodePrivate seed"
      "kr_public key = encodePublic (ed_public ed seed)"
      by (auto simp: keys_inv_def wf_key_def)
    have len: "length (ed_public ed seed) = 32"
      using ed seed(1) by (simp add: ed25519_ok_def)
    then obtain jwk where jwk: "Jwk_forEd25519 (kr_kid key) (ed_public ed seed) = Inr jwk"
      by (simp add: forEd25519_Inr)
    have "seed' = seed" if "length seed' = 32" "kr_private key = encodePrivate seed'" for seed'
      using that seed decode_encodePrivate by (metis sum.inject(2))
    then have "?f key = Inr jwk \<and> ?P key jwk"
      using jwk toPublicKey_forEd25519 [OF len jwk] seed len
      by (auto simp: decode_encodePublic)
    then show ?thesis ..
  qed
  have "\<exists>jwks. map_throw ?f ks = Inr jwks \<and> list_all2 ?P ks jwks"
    if "set ks \<subseteq> set (sk_keys s)" for ks
    using that
  proof (induction ks)
    case (Cons k ks)
    then obtain jwks where "map_throw ?f ks = Inr jwks" "list_all2 ?P ks jwks" by auto
    moreover obtain jwk where "?f k = Inr jwk" "?P k jwk" using one [of k] Cons.prems by auto
    ultimately show ?case by (intro exI [of _ "jwk # jwks"]) simp
  qed simp
  from this [of "filter (\<lambda>key. \<not> expired_retired r now key) (sk_keys s)"]
  show ?thesis
    by (auto simp: SigningKeyService_jwkSet_def pruneExpiredRetired_def Let_def)
qed


lemma currentSigner_inv:
  assumes "keys_inv ed s"
  shows "\<exists>key seed. key \<in> set (sk_keys s) \<and> kr_active key \<and> length seed = 32
     \<and> kr_private key = encodePrivate seed \<and> kr_public key = encodePublic (ed_public ed seed)
     \<and> currentSigner s = Inr \<lparr>sg_kid = kr_kid key, sg_privateKey = seed\<rparr>"
proof -
  obtain key where f: "findActive s = Some key" using assms by (auto simp: keys_inv_def)
  then have key: "key \<in> set (sk_keys s)" "kr_active key" by (auto dest: findActive_SomeD)
  with assms obtain seed where "length seed = 32" "kr_private key = encodePrivate seed"
    "kr_public key = encodePublic (ed_public ed seed)" by (auto simp: keys_inv_def wf_key_def)
  with f key show ?thesis
    by (intro exI [of _ key] exI [of _ seed])
       (simp add: currentSigner_def decode_encodePrivate)
qed

lemma new_has_active:
  assumes new: "SigningKeyService_new ed seed kb now out store = (Inr s, c)"
  shows "findActive s \<noteq> None"
proof -
  have gen: "findActive s \<noteq> None"
    if "SigningKeyService_persist out (generateActive ed seed kb now t) = (r, s)" for t r
    using arg_cong [OF that, of "\<lambda>p. findActive (snd p)"] findActive_generate [of ed seed kb now t]
    by simp
  show ?thesis
    using new gen unfolding SigningKeyService_new_def
    by (auto split: sum.splits if_splits prod.splits)
qed

lemma new_on_absent:
  assumes "length seed = 32"
    and "SigningKeyService_new ed seed kb now out Absent = (Inr s, c)"
  shows "keys_inv ed s" and "c = sk_store s" and "sk_activeKid s = Some (newKid kb)"
    and "sk_keys s = rotated_keys ed now seed kb now []"
proof -
  let ?s0 = "generateActive ed seed kb now \<lparr>sk_keys = [], sk_activeKid = None, sk_store = Absent\<rparr>"
  have new: "s = snd (SigningKeyService_persist out ?s0)" "c = sk_store s"
    using assms(2)
    by (auto simp: SigningKeyService_new_def split: sum.splits prod.splits)
  have "findActive ?s0 \<noteq> None" by (rule findActive_generate)
  then have "keys_inv ed ?s0"
    using assms(1) by (auto simp: keys_inv_def generateActive_def wf_key_def Let_def)
  then show "keys_inv ed s" by (simp add: new)
  show "c = sk_store s" by (rule new)
  show "sk_activeKid s = Some (newKid kb)" "sk_keys s = rotated_keys ed now seed kb now []"
    by (simp_all add: new generateActive_def rotated_keys_def Let_def)
qed

lemma restart_keys:
  assumes "keys_inv ed s"
  shows "fst (SigningKeyService_new ed' seed kb now out
            (Doc \<lparr>sd_activeKid = sk_activeKid s, sd_keys = sk_keys s\<rparr>))
     = Inr (s\<lparr>sk_store := Doc \<lparr>sd_activeKid = sk_activeKid s, sd_keys = sk_keys s\<rparr>\<rparr>)"
proof -
  let ?d = "\<lparr>sd_activeKid = sk_activeKid s, sd_keys = sk_keys s\<rparr>"
  let ?t = "\<lparr>sk_keys = sk_keys s, sk_activeKid = sk_activeKid s, sk_store = Doc ?d\<rparr>"
  from assms obtain k where k: "findActive s = Some k" by (auto simp: keys_inv_def)
  then have kid: "sk_activeKid s = Some (kr_kid k)" by (auto dest: findActive_SomeD)
  from k have "findActive ?t = Some k" by (simp add: findActive_def)
  then have "\<not> (sk_activeKid ?t = None \<or> findActive ?t = None)" using kid by simp
  then have "fst (SigningKeyService_new ed' seed kb now out (Doc ?d)) = Inr ?t"
    unfolding SigningKeyService_new_def cell_exists.simps cell_load.simps and_then_simps
      SigningKeys.simps sum.case if_True by (simp only: if_False fst_conv)
  then show ?thesis by simp
qed

interpretation keys_restart: restartable "keys_inv ed"
  "\<lambda>s. \<lparr>sd_activeKid = sk_activeKid s, sd_keys = sk_keys s\<rparr>"
  "\<lambda>c. fst (SigningKeyService_new ed seed kb now out c)"
  "\<lambda>s s'. sk_keys s' = sk_keys s \<and> sk_activeKid s' = sk_activeKid s"
  for ed seed kb now out
  by unfold_locales (simp add: restart_keys)

section \<open>Properties\<close>

text \<open>
  A public key published as a JWK is read back by a verifier as the same key, under
  the kid it was published with.
\<close>

lemma jwk_roundtrip:
  assumes "length k = 32"
  shows "\<exists>jwk. Jwk_forEd25519 kid k = Inr jwk \<and> Jwk_toPublicKey jwk = Inr k
           \<and> jwk_keyId jwk = Some kid"
proof -
  obtain jwk where jwk: "Jwk_forEd25519 kid k = Inr jwk"
    using assms by (simp add: forEd25519_Inr)
  with toPublicKey_forEd25519 [OF assms jwk] show ?thesis by blast
qed

lemma jwk_roundtrip_example:
  "\<exists>jwk. Jwk_forEd25519 (js ''k_1'') (replicate 32 9) = Inr jwk
     \<and> Jwk_toPublicKey jwk = Inr (replicate 32 9) \<and> jwk_keyId jwk = Some (js ''k_1'')"
  by (rule jwk_roundtrip) simp

text \<open>
  C26. A signing key is always at hand: whatever the key file held, a constructed service
  has an active key, and no operation loses it.
\<close>

theorem signer_always_available:
  "(SigningKeyService_new ed seed kb now out store = (Inr s, c) \<longrightarrow> findActive s \<noteq> None)
   \<and> findActive (snd (SigningKeyService_rotate ed r now seed kb created pruned out t)) \<noteq> None
   \<and> (findActive t \<noteq> None \<longrightarrow> findActive (snd (SigningKeyService_jwkSet r now t)) \<noteq> None)"
proof (intro conjI impI)
  show "SigningKeyService_new ed seed kb now out store = (Inr s, c) \<Longrightarrow> findActive s \<noteq> None"
    by (rule new_has_active)
  obtain res t' where rot: "SigningKeyService_rotate ed r now seed kb created pruned out t = (res, t')"
    by (rule prod.exhaust)
  show "findActive (snd (SigningKeyService_rotate ed r now seed kb created pruned out t)) \<noteq> None"
    unfolding rot snd_conv findActive_Some_iff rotate_effect(1,2) [OF rot]
    by (rule bexI [of _ "last (rotated_keys ed now seed kb created (sk_keys t))"])
       (simp_all add: rotated_keys_def)
  show "findActive t \<noteq> None \<Longrightarrow> findActive (snd (SigningKeyService_jwkSet r now t)) \<noteq> None"
    using findActive_prune by (simp only: SigningKeyService_jwkSet_def Let_def snd_conv)
qed

definition demo_ed :: ed25519 where
  "demo_ed = \<lparr>ed_public = (\<lambda>seed. seed), ed_sign = (\<lambda>seed m. seed @ m),
     ed_accepts = (\<lambda>_. True), ed_verify = (\<lambda>pk m sig. Some (sig = pk @ m))\<rparr>"

lemma demo_ed_ok: "ed25519_ok demo_ed"
  by (simp add: ed25519_ok_def demo_ed_def)

definition demo_keys :: SigningKeyService where
  "demo_keys = snd (SigningKeyService_persist Saved (generateActive demo_ed (replicate 32 1) [1] 100
     \<lparr>sk_keys = [], sk_activeKid = None, sk_store = Absent\<rparr>))"

lemma demo_keys_new:
  "SigningKeyService_new demo_ed (replicate 32 1) [1] 100 Saved Absent
     = (Inr demo_keys, sk_store demo_keys)"
  by (simp add: SigningKeyService_new_def demo_keys_def SigningKeyService_persist_def Let_def)

lemma demo_keys_inv: "keys_inv demo_ed demo_keys"
  by (rule new_on_absent(1) [OF _ demo_keys_new]) simp

lemma demo_keys_kid: "sk_activeKid demo_keys = Some (newKid [1])"
  "sk_keys demo_keys = rotated_keys demo_ed 100 (replicate 32 1) [1] 100 []"
  by (rule new_on_absent(3,4) [OF _ demo_keys_new], simp)+

theorem signer_always_available_witness:
  "findActive demo_keys \<noteq> None
   \<and> findActive (snd (SigningKeyService_jwkSet 600 100 demo_keys)) \<noteq> None"
  using signer_always_available [of demo_ed "replicate 32 1" "[1]" 100 Saved Absent demo_keys
      "sk_store demo_keys" 600 200 200 demo_keys]
  by (simp only: demo_keys_new) blast

text \<open>
  C25. Rotation: from a well-formed key set and a fresh kid the set stays well formed, the
  new key is the only active one, every formerly active key is retired at the time of the
  rotation, and keys are dropped only by the retention rule.
\<close>

theorem rotate_correct:
  assumes "keys_inv ed s" and "length seed = 32" and "newKid kb \<notin> kr_kid ` set (sk_keys s)"
    and "SigningKeyService_rotate ed r now seed kb created pruned out s = (res, s')"
  shows "keys_inv ed s'
     \<and> map kr_kid (filter kr_active (sk_keys s')) = [newKid kb]
     \<and> (\<forall>k \<in> set (sk_keys s).
          (let k' = (if kr_active k then SigningKeyRecord_retiredAt now k else k)
           in k' \<in> set (sk_keys s') \<longleftrightarrow> \<not> expired_retired r pruned k'))"
proof (intro conjI ballI)
  show inv: "keys_inv ed s'" by (rule rotate_inv [OF assms])
  from one_active [OF inv] rotate_effect(2) [OF assms(4)]
  show "map kr_kid (filter kr_active (sk_keys s')) = [newKid kb]" by auto
  fix k assume "k \<in> set (sk_keys s)"
  then show "let k' = (if kr_active k then SigningKeyRecord_retiredAt now k else k)
           in k' \<in> set (sk_keys s') \<longleftrightarrow> \<not> expired_retired r pruned k'"
    unfolding rotate_effect(1) [OF assms(4)] Let_def rotated_keys_def
    by (auto simp: SigningKeyRecord_retiredAt_def)
qed

theorem rotate_correct_witness:
  "map kr_kid (filter kr_active (sk_keys (snd
     (SigningKeyService_rotate demo_ed 600 200 (replicate 32 2) [2] 200 200 Saved demo_keys))))
   = [newKid [2]]"
proof -
  obtain res s' where rot:
    "SigningKeyService_rotate demo_ed 600 200 (replicate 32 2) [2] 200 200 Saved demo_keys = (res, s')"
    by (rule prod.exhaust)
  have "newKid [2] \<notin> kr_kid ` set (sk_keys demo_keys)"
    by (simp add: demo_keys_kid rotated_keys_def)
  from rotate_correct [OF demo_keys_inv _ this rot] rot show ?thesis by simp
qed

text \<open>
  C27. The JWKS holds exactly the active key and the keys retired at most the retention
  ago.
\<close>

theorem jwkSet_exact:
  assumes "keys_inv ed s" and "ed25519_ok ed"
    and "instant_ok now" and "0 \<le> sint r" and "sint r < 2 ^ 62"
    and "SigningKeyService_jwkSet r now s = (Inr jset, s')"
  shows "(\<exists>jwk \<in> set (jwks_keys jset). jwk_keyId jwk = Some kid) \<longleftrightarrow>
     (\<exists>key \<in> set (sk_keys s). kr_kid key = kid \<and>
        (kr_active key \<or> (\<exists>t. kr_retiredAt key = Some t \<and> sint now \<le> sint t + sint r)))"
proof -
  let ?ks = "filter (\<lambda>key. \<not> expired_retired r now key) (sk_keys s)"
  from jwkSet_published [OF assms(1,2), of r now] assms(6)
  have l: "list_all2 (\<lambda>key jwk. jwk_keyId jwk = Some (kr_kid key)) ?ks (jwks_keys jset)"
    by (auto elim: list_all2_mono)
  have "(\<exists>jwk \<in> set (jwks_keys jset). jwk_keyId jwk = Some kid) \<longleftrightarrow>
      (\<exists>key \<in> set ?ks. kr_kid key = kid)"
    using list_all2_ex [OF l] list_all2_ex_right [OF l] by fastforce
  moreover have "\<not> expired_retired r now key \<longleftrightarrow>
      kr_active key \<or> (\<exists>t. kr_retiredAt key = Some t \<and> sint now \<le> sint t + sint r)"
    if "key \<in> set (sk_keys s)" for key
  proof -
    have "kr_active key \<longleftrightarrow> kr_retiredAt key = None"
      using that assms(1) by (simp add: keys_inv_def wf_key_def)
    then show ?thesis
      using expired_retired_iff [OF assms(3-5), of key] by auto
  qed
  ultimately show ?thesis by auto
qed

theorem jwkSet_exact_witness:
  "\<exists>jset s'. SigningKeyService_jwkSet 600 200 demo_keys = (Inr jset, s') \<and>
     (\<exists>jwk \<in> set (jwks_keys jset). jwk_keyId jwk = Some (newKid [1]))"
proof -
  obtain res s' where e: "SigningKeyService_jwkSet 600 200 demo_keys = (res, s')"
    by (rule prod.exhaust)
  with jwkSet_published [OF demo_keys_inv demo_ed_ok, of 600 200]
  obtain jset where "SigningKeyService_jwkSet 600 200 demo_keys = (Inr jset, s')" by auto
  moreover from jwkSet_exact [OF demo_keys_inv demo_ed_ok _ _ _ this, of "newKid [1]"]
  have "\<exists>jwk \<in> set (jwks_keys jset). jwk_keyId jwk = Some (newKid [1])"
    by (simp add: instant_ok_def instant_min_def instant_max_def demo_keys_kid rotated_keys_def)
  ultimately show ?thesis by blast
qed

text \<open>
  C33. A rotation whose save fails before the replacement throws, but the service goes on
  with the new key while the file still holds the old set: after a restart the new key is
  gone, and with it the verification of the tokens it signed.
\<close>

theorem rotate_unsaved_key_is_active:
  assumes "SigningKeyService_rotate ed r now seed kb created pruned NotSaved s = (res, s')"
  shows "res = Inl save_error \<and> sk_activeKid s' = Some (newKid kb) \<and> sk_store s' = sk_store s"
  using rotate_effect(2,3,5) [OF assms] by simp

theorem rotate_unsaved_key_is_active_witness:
  "sk_activeKid (snd (SigningKeyService_rotate demo_ed 600 200 (replicate 32 2) [2] 200 200
     NotSaved demo_keys)) = Some (newKid [2])"
proof -
  obtain res s' where rot:
    "SigningKeyService_rotate demo_ed 600 200 (replicate 32 2) [2] 200 200 NotSaved demo_keys = (res, s')"
    by (rule prod.exhaust)
  from rotate_unsaved_key_is_active [OF rot] rot show ?thesis by simp
qed

end
