(* ===== verification/JsonBytes.thy ===== *)
theory JsonBytes
  imports JsonTree
begin

text \<open>
  A complete, executable codec from JSON trees to bytes. It is not JSON text: it stands in
  for Jackson wherever a witness has to show that the laws assumed of Jackson can hold.
\<close>

section \<open>Writing\<close>

fun nat_code :: "nat \<Rightarrow> nat list" where
  "nat_code n = (if n = 0 then [0] else Suc (n mod 2) # nat_code (n div 2))"

declare nat_code.simps [simp del]

fun string_code :: "jstring \<Rightarrow> nat list" where
  "string_code [] = [0]"
| "string_code (c # cs) = 1 # unat c div 256 # unat c mod 256 # string_code cs"

fun json_code :: "json \<Rightarrow> nat list" where
  "json_code JNull = [0]"
| "json_code (JBool b) = [1, if b then 1 else 0]"
| "json_code (JNumber i) = 2 # (if i < 0 then 1 else 0) # nat_code (nat \<bar>i\<bar>)"
| "json_code (JString s) = 3 # string_code s"
| "json_code (JArray xs) = 4 # concat (map (\<lambda>x. 1 # json_code x) xs) @ [0]"
| "json_code (JObject ms) =
     5 # concat (map (\<lambda>m. 1 # string_code (fst m) @ json_code (snd m)) ms) @ [0]"

definition json_bytes :: "json \<Rightarrow> byte list" where
  "json_bytes t = map of_nat (json_code t)"

section \<open>Reading\<close>

fun nat_uncode :: "nat list \<Rightarrow> (nat \<times> nat list) option" where
  "nat_uncode [] = None"
| "nat_uncode (b # bs) =
     (if b = 0 then Some (0, bs)
      else map_option (\<lambda>(n, r). (b - 1 + 2 * n, r)) (nat_uncode bs))"

fun string_uncode :: "nat list \<Rightarrow> (jstring \<times> nat list) option" where
  "string_uncode [] = None"
| "string_uncode (b # bs) =
     (if b = 0 then Some ([], bs)
      else (case bs of
          h # l # r \<Rightarrow> map_option (\<lambda>(s, r). (of_nat (256 * h + l) # s, r)) (string_uncode r)
        | _ \<Rightarrow> None))"

fun json_uncode :: "nat \<Rightarrow> nat list \<Rightarrow> (json \<times> nat list) option"
  and items_uncode :: "nat \<Rightarrow> nat list \<Rightarrow> (json list \<times> nat list) option"
  and members_uncode :: "nat \<Rightarrow> nat list \<Rightarrow> ((jstring \<times> json) list \<times> nat list) option"
where
  "json_uncode 0 bs = None"
| "json_uncode (Suc n) bs =
     (case bs of
        [] \<Rightarrow> None
      | b # r \<Rightarrow>
          if b = 0 then Some (JNull, r)
          else if b = 1 then (case r of [] \<Rightarrow> None | x # r \<Rightarrow> Some (JBool (x = 1), r))
          else if b = 2 then
            (case r of [] \<Rightarrow> None
             | x # r \<Rightarrow> map_option (\<lambda>(i, r). (JNumber (if x = 1 then - int i else int i), r))
                         (nat_uncode r))
          else if b = 3 then map_option (\<lambda>(s, r). (JString s, r)) (string_uncode r)
          else if b = 4 then map_option (\<lambda>(xs, r). (JArray xs, r)) (items_uncode n r)
          else if b = 5 then map_option (\<lambda>(ms, r). (JObject ms, r)) (members_uncode n r)
          else None)"
| "items_uncode 0 bs = None"
| "items_uncode (Suc n) bs =
     (case bs of
        [] \<Rightarrow> None
      | b # r \<Rightarrow>
          if b = 0 then Some ([], r)
          else (case json_uncode n r of
              None \<Rightarrow> None
            | Some (x, r) \<Rightarrow> map_option (\<lambda>(xs, r). (x # xs, r)) (items_uncode n r)))"
| "members_uncode 0 bs = None"
| "members_uncode (Suc n) bs =
     (case bs of
        [] \<Rightarrow> None
      | b # r \<Rightarrow>
          if b = 0 then Some ([], r)
          else (case string_uncode r of
              None \<Rightarrow> None
            | Some (k, r) \<Rightarrow>
                (case json_uncode n r of
                   None \<Rightarrow> None
                 | Some (v, r) \<Rightarrow>
                     map_option (\<lambda>(ms, r). ((k, v) # ms, r)) (members_uncode n r))))"

definition json_of_bytes :: "byte list \<Rightarrow> json option" where
  "json_of_bytes bs = map_option fst (json_uncode (length bs) (map unat bs))"

section \<open>Reading back\<close>

lemma nat_uncode_code: "nat_uncode (nat_code n @ r) = Some (n, r)"
proof (induction n rule: nat_code.induct)
  case (1 n)
  then show ?case by (subst nat_code.simps) simp
qed

lemma string_uncode_code: "string_uncode (string_code s @ r) = Some (s, r)"
proof (induction s)
  case (Cons c cs)
  have "(of_nat (256 * (unat c div 256) + unat c mod 256) :: jchar) = c"
    by (simp only: mult_div_mod_eq) simp
  with Cons show ?case by (simp del: of_nat_add of_nat_mult)
qed simp

lemma items_uncode_code:
  assumes "\<And>x n r. x \<in> set xs \<Longrightarrow> length (json_code x) \<le> n \<Longrightarrow>
             json_uncode n (json_code x @ r) = Some (x, r)"
    and "length (concat (map (\<lambda>x. 1 # json_code x) xs)) < n"
  shows "items_uncode n (concat (map (\<lambda>x. 1 # json_code x) xs) @ 0 # r) = Some (xs, r)"
  using assms
proof (induction xs arbitrary: n)
  case Nil
  then show ?case by (cases n) simp_all
next
  case (Cons x xs)
  then obtain m where n: "n = Suc m" by (cases n) simp_all
  with Cons.prems(2) have "length (json_code x) \<le> m"
    "length (concat (map (\<lambda>x. 1 # json_code x) xs)) < m" by simp_all
  with Cons.prems(1) Cons.IH [of m] show ?case by (simp add: n)
qed

lemma members_uncode_code:
  assumes "\<And>m n r. m \<in> set ms \<Longrightarrow> length (json_code (snd m)) \<le> n \<Longrightarrow>
             json_uncode n (json_code (snd m) @ r) = Some (snd m, r)"
    and "length (concat (map (\<lambda>m. 1 # string_code (fst m) @ json_code (snd m)) ms)) < n"
  shows "members_uncode n
      (concat (map (\<lambda>m. 1 # string_code (fst m) @ json_code (snd m)) ms) @ 0 # r) = Some (ms, r)"
  using assms
proof (induction ms arbitrary: n)
  case Nil
  then show ?case by (cases n) simp_all
next
  case (Cons m ms)
  then obtain k where n: "n = Suc k" by (cases n) simp_all
  with Cons.prems(2) have "length (json_code (snd m)) \<le> k"
    "length (concat (map (\<lambda>m. 1 # string_code (fst m) @ json_code (snd m)) ms)) < k" by simp_all
  with Cons.prems(1) Cons.IH [of k] show ?case by (simp add: n string_uncode_code)
qed

lemma json_uncode_code:
  "length (json_code t) \<le> n \<Longrightarrow> json_uncode n (json_code t @ r) = Some (t, r)"
proof (induction t arbitrary: n r rule: json_code.induct)
  case (3 i)
  then show ?case by (cases n) (auto simp: nat_uncode_code)
next
  case (5 xs)
  then obtain m where n: "n = Suc m" by (cases n) simp_all
  have "items_uncode m (concat (map (\<lambda>x. 1 # json_code x) xs) @ 0 # r) = Some (xs, r)"
    by (rule items_uncode_code) (use 5 n in simp_all)
  then show ?case by (simp add: n)
next
  case (6 ms)
  then obtain m where n: "n = Suc m" by (cases n) simp_all
  have "members_uncode m
      (concat (map (\<lambda>m. 1 # string_code (fst m) @ json_code (snd m)) ms) @ 0 # r) = Some (ms, r)"
    by (rule members_uncode_code) (use 6 n in simp_all)
  then show ?case by (simp add: n)
qed (case_tac n; simp add: string_uncode_code)+

lemma nat_code_byte: "list_all (\<lambda>b. b < 256) (nat_code n)"
proof (induction n rule: nat_code.induct)
  case (1 n)
  have "n mod 2 < 255" by (rule less_trans [of _ 2]) simp_all
  with 1 show ?case by (subst nat_code.simps) simp
qed

lemma string_code_byte: "list_all (\<lambda>b. b < 256) (string_code s)"
proof (induction s)
  case (Cons c cs)
  have "unat c < 256 * 256" using unsigned_less [of c] by simp
  then have "unat c div 256 < 256" by (rule less_mult_imp_div_less)
  with Cons show ?case by simp
qed simp

lemma json_code_byte: "list_all (\<lambda>b. b < 256) (json_code t)"
  using nat_code_byte string_code_byte unfolding list_all_iff
  by (induction t rule: json_code.induct) auto

lemma json_of_bytes_json [simp]: "json_of_bytes (json_bytes t) = Some t"
proof -
  have "map (unat \<circ> (of_nat :: nat \<Rightarrow> byte)) bs = bs" if "list_all (\<lambda>b. b < 256) bs" for bs
    using that by (induction bs) (simp_all add: unsigned_of_nat take_bit_nat_eq_self)
  then have "map unat (json_bytes t) = json_code t"
    using json_code_byte by (simp add: json_bytes_def comp_def)
  then show ?thesis
    using json_uncode_code [of t "length (json_code t)" "[]"]
    by (simp add: json_of_bytes_def json_bytes_def)
qed

text \<open>Reading members by name.\<close>

definition member_of :: "(jstring \<times> json) list \<Rightarrow> jstring \<Rightarrow> json" where
  "member_of ms k = (case map_of ms k of None \<Rightarrow> JNull | Some v \<Rightarrow> v)"

fun members :: "json \<Rightarrow> (jstring \<times> json) list" where
  "members (JObject ms) = ms"
| "members _ = []"

fun string_of_json :: "json \<Rightarrow> jstring option" where
  "string_of_json (JString s) = Some s"
| "string_of_json _ = None"

fun long_of_json :: "json \<Rightarrow> long" where
  "long_of_json (JNumber i) = word_of_int i"
| "long_of_json _ = 0"

fun list_of_json :: "json \<Rightarrow> json list option" where
  "list_of_json (JArray xs) = Some xs"
| "list_of_json _ = None"

lemma member_of_Cons [simp]:
  "member_of ((k, v) # ms) k' = (if k = k' then v else member_of ms k')"
  by (simp add: member_of_def)

lemma member_of_Nil [simp]: "member_of [] k = JNull"
  by (simp add: member_of_def)

lemma member_of_absent: "k \<notin> fst ` set ms \<Longrightarrow> member_of ms k = JNull"
  by (simp add: member_of_def iffD2 [OF map_of_eq_None_iff])

lemma member_of_non_null [simp]:
  "distinct (map fst ms) \<Longrightarrow> member_of (non_null ms) k = member_of ms k"
proof (induction ms)
  case (Cons m ms)
  obtain k' v where m: "m = (k', v)" by (rule prod.exhaust)
  show ?case
  proof (cases "v = JNull \<and> k = k'")
    case True
    with Cons m have "member_of ms k = JNull" by (intro member_of_absent) auto
    with True Cons m show ?thesis by (auto simp: non_null_def)
  next
    case False
    with Cons m show ?thesis by (auto simp: non_null_def)
  qed
qed (simp add: non_null_def)

lemma string_of_json_nullable [simp]: "string_of_json (json_nullable JString x) = x"
  by (cases x) simp_all

lemma long_of_json_long [simp]: "long_of_json (json_long x) = x"
  by (simp add: json_long_def)

end
