(* ===== verification/Tokens.thy ===== *)
theory Tokens
  imports Auth Clients Keys JsonBytes
begin

text \<open>
  Tokens: \<open>token/JwsHeader.java\<close>, \<open>token/JwtClaims.java\<close>, \<open>token/Jws.java\<close>,
  \<open>service/TokenIssuer.java\<close> and \<open>service/TokenVerifier.java\<close>. A token is text, and the text
  that is signed is the text that is checked: the model keeps both as strings. Turning a
  JSON tree into bytes and bytes into a header or a claim set is Jackson's work, the record
  \<open>jackson\<close> with its documented laws \<open>jackson_ok\<close>.
\<close>

section \<open>token/JwsHeader.java and token/JwtClaims.java\<close>

record JwsHeader =
  jh_algorithm :: "jstring option"
  jh_type :: "jstring option"
  jh_keyId :: "jstring option"

definition ALG_EDDSA :: jstring where "ALG_EDDSA = js ''EdDSA''"

definition JwsHeader_forKid :: "jstring \<Rightarrow> JwsHeader" where
  "JwsHeader_forKid kid =
     \<lparr>jh_algorithm = Some ALG_EDDSA, jh_type = Some (js ''JWT''), jh_keyId = Some kid\<rparr>"

record JwtClaims =
  jc_issuer :: "jstring option"
  jc_subject :: "jstring option"
  jc_audience :: "jstring option"
  jc_issuedAt :: long
  jc_notBefore :: long
  jc_expiresAt :: long
  jc_tokenId :: "jstring option"
  jc_grants :: "GrantsClaim option"
  jc_confirmation :: "(jstring \<times> json) list option"

definition header_json :: "JwsHeader \<Rightarrow> json" where
  "header_json h = JObject
     [(js ''alg'', json_nullable JString (jh_algorithm h)),
      (js ''typ'', json_nullable JString (jh_type h)),
      (js ''kid'', json_nullable JString (jh_keyId h))]"

definition group_json :: "Group \<Rightarrow> json" where
  "group_json g = JObject
     [(js ''keyGroup'', json_nullable JString (gp_keyGroup g)),
      (js ''operations'', json_nullable (\<lambda>ops. JArray (map (json_nullable JString) ops))
         (gp_operations g))]"

definition grants_json :: "GrantsClaim \<Rightarrow> json" where
  "grants_json c = JObject (non_null
     [(js ''control'', JBool (gc_control c)),
      (js ''groups'', json_nullable (\<lambda>gs. JArray (map (json_nullable group_json) gs))
         (gc_groups c))])"

definition claims_json :: "JwtClaims \<Rightarrow> json" where
  "claims_json c = JObject (non_null
     [(js ''iss'', json_nullable JString (jc_issuer c)),
      (js ''sub'', json_nullable JString (jc_subject c)),
      (js ''aud'', json_nullable JString (jc_audience c)),
      (js ''iat'', json_long (jc_issuedAt c)),
      (js ''nbf'', json_long (jc_notBefore c)),
      (js ''exp'', json_long (jc_expiresAt c)),
      (js ''jti'', json_nullable JString (jc_tokenId c)),
      (js ''grants'', json_nullable grants_json (jc_grants c)),
      (js ''cnf'', json_nullable JObject (jc_confirmation c))])"

section \<open>Jackson as a parameter\<close>

text \<open>
  \<open>jx_write\<close> is \<open>writeValueAsBytes\<close>; the readers are \<open>readValue\<close>, where \<open>None\<close> is an
  \<open>IOException\<close> and \<open>Some None\<close> the Java \<open>null\<close> that the JSON text \<open>null\<close> is read as.
\<close>

record jackson =
  jx_write :: "json \<Rightarrow> byte list option"
  jx_header :: "byte list \<Rightarrow> JwsHeader option option"
  jx_claims :: "byte list \<Rightarrow> JwtClaims option option"

text \<open>
  Jackson refuses to write unpaired surrogates and to read strings of more than 20 million
  characters; other strings are plain.
\<close>

definition plain_string :: "jstring \<Rightarrow> bool" where
  "plain_string s \<longleftrightarrow> utf16_ok s \<and> int (length s) \<le> 20000000"

definition json_plain :: "json \<Rightarrow> bool" where
  "json_plain t \<longleftrightarrow> (\<forall>s \<in> json_strings t. plain_string s)"

definition jackson_ok :: "jackson \<Rightarrow> bool" where
  "jackson_ok jx \<longleftrightarrow>
     (\<forall>h. json_plain (header_json h) \<longrightarrow>
        (\<exists>b. jx_write jx (header_json h) = Some b \<and> jx_header jx b = Some (Some h)))
     \<and> (\<forall>c. json_plain (claims_json c) \<and> jc_confirmation c = None \<longrightarrow>
        (\<exists>b. jx_write jx (claims_json c) = Some b \<and> jx_claims jx b = Some (Some c)))"

definition null_text :: "byte list" where
  "null_text = map of_char ''null''"

definition jackson_reads_null :: "jackson \<Rightarrow> bool" where
  "jackson_reads_null jx \<longleftrightarrow>
     jx_header jx null_text = Some None \<and> jx_claims jx null_text = Some None"

section \<open>token/Jws.java\<close>

record Parts =
  pt_header :: jstring
  pt_payload :: jstring
  pt_signature :: jstring

text \<open>
  \<open>getBytes(US_ASCII)\<close>: a character outside ASCII becomes one \<open>?\<close>, a surrogate pair being
  one character.
\<close>

fun ascii_bytes :: "jstring \<Rightarrow> byte list" where
  "ascii_bytes [] = []"
| "ascii_bytes (c # cs) =
     (if unat c < 0x80 then ucast c # ascii_bytes cs
      else if is_high c then
        (case cs of [] \<Rightarrow> [63]
         | d # ds \<Rightarrow> if is_low d then 63 # ascii_bytes ds else 63 # ascii_bytes cs)
      else 63 # ascii_bytes cs)"

definition Jws_toJson :: "jackson \<Rightarrow> json \<Rightarrow> exn + byte list" where
  "Jws_toJson jx value' =
     of_option (UncheckedIOException (js ''failed to serialize JWS segment'')) (jx_write jx value')"

definition Jws_fromJson :: "(byte list \<Rightarrow> 'a option option) \<Rightarrow> byte list \<Rightarrow> exn + 'a option" where
  "Jws_fromJson reader json =
     of_option (IllegalArgumentException (js ''malformed JWS segment'')) (reader json)"

definition Jws_sign ::
  "ed25519 \<Rightarrow> jackson \<Rightarrow> JwsHeader \<Rightarrow> JwtClaims \<Rightarrow> private_key \<Rightarrow> exn + jstring" where
  "Jws_sign ed jx header claims privateKey =
     and_then (Jws_toJson jx (header_json header)) (\<lambda>hb.
     and_then (Jws_toJson jx (claims_json claims)) (\<lambda>cb.
       (let signingInput = Base64Url_encode hb @ js ''.'' @ Base64Url_encode cb;
            signature = ed_sign ed privateKey (ascii_bytes signingInput)
        in Inr (signingInput @ js ''.'' @ Base64Url_encode signature))))"

definition Jws_split :: "jstring option \<Rightarrow> exn + Parts" where
  "Jws_split token =
     (case token of
        None \<Rightarrow> Inl (IllegalArgumentException (js ''token must not be null''))
      | Some t \<Rightarrow>
          (case split_all 46 t of
             [h, p, s] \<Rightarrow> Inr \<lparr>pt_header = h, pt_payload = p, pt_signature = s\<rparr>
           | _ \<Rightarrow> Inl (IllegalArgumentException
               (js ''compact JWS must have exactly three segments''))))"

definition Jws_verifySignature :: "ed25519 \<Rightarrow> Parts \<Rightarrow> public_key \<Rightarrow> exn + bool" where
  "Jws_verifySignature ed parts publicKey =
     (let signingInput = pt_header parts @ js ''.'' @ pt_payload parts
      in if \<not> ed_accepts ed publicKey then Inr False
         else and_then (Base64Url_decode (pt_signature parts)) (\<lambda>signature.
           Inr (case ed_verify ed publicKey (ascii_bytes signingInput) signature of
                  None \<Rightarrow> False
                | Some ok \<Rightarrow> ok)))"

definition Jws_parseHeader :: "jackson \<Rightarrow> Parts \<Rightarrow> exn + JwsHeader option" where
  "Jws_parseHeader jx parts =
     and_then (Base64Url_decode (pt_header parts)) (Jws_fromJson (jx_header jx))"

definition Jws_parseClaims :: "jackson \<Rightarrow> Parts \<Rightarrow> exn + JwtClaims option" where
  "Jws_parseClaims jx parts =
     and_then (Base64Url_decode (pt_payload parts)) (Jws_fromJson (jx_claims jx))"

section \<open>service/TokenIssuer.java\<close>

record TokenIssuer =
  ti_issuer :: jstring
  ti_audience :: jstring
  ti_tokenTtl :: long

record IssuedToken =
  it_accessToken :: jstring
  it_tokenType :: jstring
  it_expiresIn :: long
  it_scope :: jstring
  it_jti :: jstring
  it_expiresAt :: long

definition scopeOf :: "Authorization \<Rightarrow> jstring" where
  "scopeOf authorization =
     join_with 32
       ((if a_controlPlane authorization then [js ''control''] else [])
        @ concat (map (\<lambda>grant. map (\<lambda>op. g_keyGroup grant @ js '':'' @ KeyOperation_name op)
                    (g_operations grant)) (a_grants authorization)))"

text \<open>The claim set \<open>issue\<close> builds.\<close>

definition issue_claims ::
  "TokenIssuer \<Rightarrow> long \<Rightarrow> long \<Rightarrow> jstring \<Rightarrow> ClientRecord \<Rightarrow> JwtClaims" where
  "issue_claims ti now expiry jti client =
     \<lparr>jc_issuer = Some (ti_issuer ti), jc_subject = Some (cr_clientId client),
      jc_audience = Some (ti_audience ti), jc_issuedAt = now, jc_notBefore = now,
      jc_expiresAt = expiry, jc_tokenId = Some jti,
      jc_grants = Some (GrantsClaim_from (cr_authorization client)), jc_confirmation = None\<rparr>"

definition TokenIssuer_issue ::
  "ed25519 \<Rightarrow> jackson \<Rightarrow> TokenIssuer \<Rightarrow> long \<Rightarrow> byte list \<Rightarrow> SigningKeyService \<Rightarrow> ClientRecord
   \<Rightarrow> exn + IssuedToken" where
  "TokenIssuer_issue ed jx ti now jtiBytes signingKeys client =
     and_then (instant_plus now (ti_tokenTtl ti)) (\<lambda>expiry.
       (let jti = newJti jtiBytes;
            authorization = cr_authorization client;
            claims = issue_claims ti now expiry jti client
        in and_then (currentSigner signingKeys) (\<lambda>signer.
           and_then (Jws_sign ed jx (JwsHeader_forKid (sg_kid signer)) claims (sg_privateKey signer))
             (\<lambda>compact.
               Inr \<lparr>it_accessToken = compact, it_tokenType = js ''Bearer'',
                    it_expiresIn = ti_tokenTtl ti, it_scope = scopeOf authorization,
                    it_jti = jti, it_expiresAt = expiry\<rparr>))))"

section \<open>service/TokenVerifier.java\<close>

datatype FailureReason =
    BAD_FORMAT | UNKNOWN_KID | BAD_SIGNATURE | EXPIRED | NOT_YET_VALID
  | WRONG_ISSUER | WRONG_AUDIENCE | REVOKED

record Result =
  rt_valid :: bool
  rt_claims :: "JwtClaims option"
  rt_reason :: "FailureReason option"

definition Result_success :: "JwtClaims \<Rightarrow> Result" where
  "Result_success claims = \<lparr>rt_valid = True, rt_claims = Some claims, rt_reason = None\<rparr>"

definition Result_failure :: "FailureReason \<Rightarrow> Result" where
  "Result_failure reason = \<lparr>rt_valid = False, rt_claims = None, rt_reason = Some reason\<rparr>"

record TokenVerifier =
  tv_expectedIssuer :: "jstring option"
  tv_expectedAudience :: "jstring option"
  tv_leewaySeconds :: long

definition publicKeyFor :: "JwkSet \<Rightarrow> jstring option \<Rightarrow> exn + public_key option" where
  "publicKeyFor jwkSet kid =
     (case kid of
        None \<Rightarrow> Inr None
      | Some k \<Rightarrow>
          (case find (\<lambda>jwk. jwk_keyId jwk = Some k) (jwks_keys jwkSet) of
             None \<Rightarrow> Inr None
           | Some jwk \<Rightarrow> and_then (Jwk_toPublicKey jwk) (\<lambda>pk. Inr (Some pk))))"

text \<open>The checks of the registered claims, after the signature.\<close>

definition verify_claims ::
  "TokenVerifier \<Rightarrow> long \<Rightarrow> (jstring option \<Rightarrow> bool) option \<Rightarrow> JwtClaims \<Rightarrow> Result" where
  "verify_claims tv now isRevoked claims =
     (if tv_expectedIssuer tv \<noteq> None \<and> jc_issuer claims \<noteq> tv_expectedIssuer tv then
        Result_failure WRONG_ISSUER
      else if tv_expectedAudience tv \<noteq> None \<and> jc_audience claims \<noteq> tv_expectedAudience tv then
        Result_failure WRONG_AUDIENCE
      else if now + tv_leewaySeconds tv <s jc_notBefore claims then Result_failure NOT_YET_VALID
      else if jc_expiresAt claims \<le>s now - tv_leewaySeconds tv then Result_failure EXPIRED
      else if (case isRevoked of None \<Rightarrow> False | Some p \<Rightarrow> p (jc_tokenId claims)) then
        Result_failure REVOKED
      else Result_success claims)"

text \<open>
  The exceptions inside the two \<open>try\<close> blocks become \<open>BAD_FORMAT\<close>; a null header or a null
  claim set gets past them and is dereferenced outside.
\<close>

definition TokenVerifier_verify ::
  "ed25519 \<Rightarrow> jackson \<Rightarrow> TokenVerifier \<Rightarrow> long \<Rightarrow> jstring option \<Rightarrow> JwkSet
   \<Rightarrow> (jstring option \<Rightarrow> bool) option \<Rightarrow> exn + Result" where
  "TokenVerifier_verify ed jx tv now token jwkSet isRevoked =
     (case and_then (Jws_split token) (\<lambda>parts.
             and_then (Jws_parseHeader jx parts) (\<lambda>header. Inr (parts, header))) of
        Inl _ \<Rightarrow> Inr (Result_failure BAD_FORMAT)
      | Inr (_, None) \<Rightarrow> Inl NullPointerException
      | Inr (parts, Some header) \<Rightarrow>
          and_then (publicKeyFor jwkSet (jh_keyId header)) (\<lambda>key.
            (case key of
               None \<Rightarrow> Inr (Result_failure UNKNOWN_KID)
             | Some publicKey \<Rightarrow>
                 and_then (Jws_verifySignature ed parts publicKey) (\<lambda>ok.
                   if \<not> ok then Inr (Result_failure BAD_SIGNATURE)
                   else (case Jws_parseClaims jx parts of
                       Inl _ \<Rightarrow> Inr (Result_failure BAD_FORMAT)
                     | Inr None \<Rightarrow> Inl NullPointerException
                     | Inr (Some claims) \<Rightarrow> Inr (verify_claims tv now isRevoked claims))))))"

section \<open>The text of a token\<close>

lemma js_dot: "js ''.'' = [46]"
  by (simp add: js_def)

definition signing_input :: "byte list \<Rightarrow> byte list \<Rightarrow> jstring" where
  "signing_input hb cb = Base64Url_encode hb @ 46 # Base64Url_encode cb"

lemma Jws_sign_Inr_iff:
  "Jws_sign ed jx h c k = Inr t \<longleftrightarrow>
     (\<exists>hb cb. jx_write jx (header_json h) = Some hb \<and> jx_write jx (claims_json c) = Some cb
        \<and> t = signing_input hb cb @ 46 #
                Base64Url_encode (ed_sign ed k (ascii_bytes (signing_input hb cb))))"
  by (auto simp: Jws_sign_def Jws_toJson_def and_then_Inr_iff Let_def signing_input_def js_dot)

lemma Jws_split_three:
  assumes "46 \<notin> set h" and "46 \<notin> set p" and "46 \<notin> set s"
  shows "Jws_split (Some (h @ 46 # p @ 46 # s)) =
     Inr \<lparr>pt_header = h, pt_payload = p, pt_signature = s\<rparr>"
  using assms by (simp add: Jws_split_def split_all_append split_all_none)

lemma Jws_split_Inr:
  assumes "Jws_split token = Inr parts"
  shows "token = Some (pt_header parts @ 46 # pt_payload parts @ 46 # pt_signature parts)"
    and "46 \<notin> set (pt_header parts)" and "46 \<notin> set (pt_payload parts)"
proof -
  obtain t h p s where t: "token = Some t" "split_all 46 t = [h, p, s]"
    and parts: "parts = \<lparr>pt_header = h, pt_payload = p, pt_signature = s\<rparr>"
    using assms by (auto simp: Jws_split_def split: option.splits list.splits)
  have "join_with 46 [h, p, s] = t" using join_split_all [of 46 t] t(2) by simp
  with t(1) parts show
    "token = Some (pt_header parts @ 46 # pt_payload parts @ 46 # pt_signature parts)" by simp
  show "46 \<notin> set (pt_header parts)" "46 \<notin> set (pt_payload parts)"
    using split_all_no_sep [of _ 46 t] t(2) parts by auto
qed

lemma unat_ascii: "unat (c :: jchar) < 0x80 \<Longrightarrow> unat (ucast c :: byte) = unat c"
  by (simp add: unsigned_ucast_eq take_bit_nat_eq_self)

lemma ascii_eq_iff:
  "unat (c :: jchar) < 0x80 \<Longrightarrow> unat d < 0x80 \<Longrightarrow> (ucast c :: byte) = ucast d \<longleftrightarrow> c = d"
  by (metis unat_ascii word_unat_eq_iff)

lemma ascii_bytes_inj:
  "ascii_bytes s = ascii_bytes t \<Longrightarrow> (\<And>c. c \<in> set t \<Longrightarrow> unat c < 0x80 \<and> c \<noteq> 63) \<Longrightarrow> s = t"
proof (induction s arbitrary: t rule: ascii_bytes.induct)
  case 1
  then show ?case by (cases t) auto
next
  case (2 c cs)
  from 2(5) obtain d ds where t: "t = d # ds"
    by (cases t) (auto split: if_splits list.splits)
  have d: "unat d < 0x80" "d \<noteq> 63" using 2(6) t by auto
  have d': "(ucast d :: byte) \<noteq> 63"
    using d ascii_eq_iff [of d 63] by simp
  show ?case
  proof (cases "unat c < 0x80")
    case True
    with 2(5) t d have "(ucast c :: byte) = ucast d" "ascii_bytes cs = ascii_bytes ds" by auto
    moreover from this(1) True d(1) have "c = d" by (simp add: ascii_eq_iff)
    ultimately show ?thesis using 2(1) [OF True, of ds] 2(6) t by auto
  next
    case False
    with 2(5) t d d' show ?thesis by (auto split: if_splits list.splits)
  qed
qed

section \<open>What the verifier accepts\<close>

lemma verify_claims_valid:
  "rt_valid (verify_claims tv now isr c) \<longleftrightarrow>
     (tv_expectedIssuer tv = None \<or> jc_issuer c = tv_expectedIssuer tv)
     \<and> (tv_expectedAudience tv = None \<or> jc_audience c = tv_expectedAudience tv)
     \<and> \<not> now + tv_leewaySeconds tv <s jc_notBefore c
     \<and> now - tv_leewaySeconds tv <s jc_expiresAt c
     \<and> (case isr of None \<Rightarrow> True | Some p \<Rightarrow> \<not> p (jc_tokenId c))"
  by (auto simp: verify_claims_def Result_success_def Result_failure_def word_sless_alt
      word_sle_eq split: option.splits)

lemma verify_claims_success:
  "rt_valid (verify_claims tv now isr c) \<longleftrightarrow> verify_claims tv now isr c = Result_success c"
  by (auto simp: verify_claims_def Result_success_def Result_failure_def)

lemma publicKeyFor_Some_iff:
  "publicKeyFor jwks kid = Inr (Some pk) \<longleftrightarrow>
     (\<exists>k jwk. kid = Some k \<and> find (\<lambda>jwk. jwk_keyId jwk = Some k) (jwks_keys jwks) = Some jwk
        \<and> Jwk_toPublicKey jwk = Inr pk)"
  by (auto simp: publicKeyFor_def and_then_Inr_iff split: option.splits)

lemma publicKeyFor_published:
  "publicKeyFor jwks kid = Inr (Some pk) \<Longrightarrow>
     \<exists>jwk \<in> set (jwks_keys jwks). Jwk_toPublicKey jwk = Inr pk \<and> jwk_keyId jwk = kid \<and> kid \<noteq> None"
  by (auto simp: publicKeyFor_Some_iff find_Some_iff intro: nth_mem)

lemma verify_accepted:
  assumes ver: "TokenVerifier_verify ed jx tv now token jwks isr = Inr r" and val: "rt_valid r"
  obtains parts hb hdr pk sig pb c where "Jws_split token = Inr parts"
    and "Base64Url_decode (pt_header parts) = Inr hb" and "jx_header jx hb = Some (Some hdr)"
    and "publicKeyFor jwks (jh_keyId hdr) = Inr (Some pk)" and "ed_accepts ed pk"
    and "Base64Url_decode (pt_signature parts) = Inr sig"
    and "ed_verify ed pk (ascii_bytes (pt_header parts @ 46 # pt_payload parts)) sig = Some True"
    and "Base64Url_decode (pt_payload parts) = Inr pb" and "jx_claims jx pb = Some (Some c)"
    and "verify_claims tv now isr c = Result_success c" and "r = Result_success c"
proof -
  have f: "\<not> rt_valid (Result_failure x)" for x by (simp add: Result_failure_def)
  from ver val f obtain parts hdr where p: "Jws_split token = Inr parts"
    "Jws_parseHeader jx parts = Inr (Some hdr)"
    and k: "and_then (publicKeyFor jwks (jh_keyId hdr)) (\<lambda>key.
            (case key of
               None \<Rightarrow> Inr (Result_failure UNKNOWN_KID)
             | Some publicKey \<Rightarrow>
                 and_then (Jws_verifySignature ed parts publicKey) (\<lambda>ok.
                   if \<not> ok then Inr (Result_failure BAD_SIGNATURE)
                   else (case Jws_parseClaims jx parts of
                       Inl _ \<Rightarrow> Inr (Result_failure BAD_FORMAT)
                     | Inr None \<Rightarrow> Inl NullPointerException
                     | Inr (Some claims) \<Rightarrow> Inr (verify_claims tv now isr claims))))) = Inr r"
    unfolding TokenVerifier_verify_def
    by (auto simp: and_then_Inr_iff split: sum.splits option.splits)
  from k val f obtain pk where pk: "publicKeyFor jwks (jh_keyId hdr) = Inr (Some pk)"
    "Jws_verifySignature ed parts pk = Inr True"
    and c: "(case Jws_parseClaims jx parts of
                       Inl _ \<Rightarrow> Inr (Result_failure BAD_FORMAT)
                     | Inr None \<Rightarrow> Inl NullPointerException
                     | Inr (Some claims) \<Rightarrow> Inr (verify_claims tv now isr claims)) = Inr r"
    by (auto simp: and_then_Inr_iff split: option.splits if_splits)
  from c val f obtain c where cl: "Jws_parseClaims jx parts = Inr (Some c)"
    "r = verify_claims tv now isr c"
    by (auto split: sum.splits option.splits)
  with val have "verify_claims tv now isr c = Result_success c" by (simp add: verify_claims_success)
  with p pk cl that show ?thesis
    by (auto simp: Jws_parseHeader_def Jws_parseClaims_def Jws_verifySignature_def Jws_fromJson_def
        and_then_Inr_iff Let_def js_dot split: if_splits option.splits)
qed

text \<open>A signed text, presented to a verifier that has an accepted key for its kid.\<close>

lemma verify_signed_text:
  assumes rd: "jx_header jx hb = Some (Some h)" "jx_claims jx cb = Some (Some c)"
    and key: "publicKeyFor jwks (jh_keyId h) = Inr (Some pk)" "ed_accepts ed pk"
    and sig: "ed_verify ed pk (ascii_bytes (signing_input hb cb)) sig = Some True"
  shows "TokenVerifier_verify ed jx tv now
      (Some (signing_input hb cb @ 46 # Base64Url_encode sig)) jwks isr
    = Inr (verify_claims tv now isr c)"
proof -
  have "Jws_split (Some (signing_input hb cb @ 46 # Base64Url_encode sig)) =
      Inr \<lparr>pt_header = Base64Url_encode hb,
           pt_payload = Base64Url_encode cb, pt_signature = Base64Url_encode sig\<rparr>"
    unfolding signing_input_def append_assoc append_Cons
    by (rule Jws_split_three) (rule Base64Url_encode_no_dot)+
  then show ?thesis
    by (simp add: TokenVerifier_verify_def key Jws_parseHeader_def Jws_parseClaims_def
        Jws_verifySignature_def Jws_fromJson_def base64url.dec_enc rd js_dot sig
        flip: signing_input_def)
qed

lemma verify_signed:
  assumes ed: "ed25519_ok ed" and jx: "jackson_ok jx" and seed: "length seed = 32"
    and plain: "json_plain (header_json h)" "json_plain (claims_json c)"
    and cnf: "jc_confirmation c = None"
    and sign: "Jws_sign ed jx h c seed = Inr t"
    and key: "publicKeyFor jwks (jh_keyId h) = Inr (Some (ed_public ed seed))"
  shows "TokenVerifier_verify ed jx tv now (Some t) jwks isr = Inr (verify_claims tv now isr c)"
proof -
  from sign obtain hb cb where b: "jx_write jx (header_json h) = Some hb"
    "jx_write jx (claims_json c) = Some cb"
    and t: "t = signing_input hb cb @ 46 #
                Base64Url_encode (ed_sign ed seed (ascii_bytes (signing_input hb cb)))"
    by (auto simp: Jws_sign_Inr_iff)
  have "jx_header jx hb = Some (Some h)" "jx_claims jx cb = Some (Some c)"
    using jx plain cnf b unfolding jackson_ok_def by force+
  then show ?thesis
    unfolding t by (rule verify_signed_text [OF _ _ key ed25519_okD(2,3) [OF ed seed]])
qed

text \<open>
  The verifier in two stages: what happens before the payload is looked at (an exception, a
  reason, or the parts of a token whose signature is valid), and the claims.
\<close>

definition verify_signature_stage ::
  "ed25519 \<Rightarrow> jackson \<Rightarrow> jstring option \<Rightarrow> JwkSet \<Rightarrow> exn + (FailureReason + Parts)" where
  "verify_signature_stage ed jx token jwkSet =
     (case and_then (Jws_split token) (\<lambda>parts.
             and_then (Jws_parseHeader jx parts) (\<lambda>header. Inr (parts, header))) of
        Inl _ \<Rightarrow> Inr (Inl BAD_FORMAT)
      | Inr (_, None) \<Rightarrow> Inl NullPointerException
      | Inr (parts, Some header) \<Rightarrow>
          and_then (publicKeyFor jwkSet (jh_keyId header)) (\<lambda>key.
            (case key of
               None \<Rightarrow> Inr (Inl UNKNOWN_KID)
             | Some publicKey \<Rightarrow>
                 and_then (Jws_verifySignature ed parts publicKey) (\<lambda>ok.
                   Inr (if ok then Inr parts else Inl BAD_SIGNATURE)))))"

lemma verify_stages:
  "TokenVerifier_verify ed jx tv now token jwks isr =
     and_then (verify_signature_stage ed jx token jwks) (\<lambda>res.
       (case res of
          Inl why \<Rightarrow> Inr (Result_failure why)
        | Inr parts \<Rightarrow> (case Jws_parseClaims jx parts of
              Inl _ \<Rightarrow> Inr (Result_failure BAD_FORMAT)
            | Inr None \<Rightarrow> Inl NullPointerException
            | Inr (Some claims) \<Rightarrow> Inr (verify_claims tv now isr claims))))"
  unfolding TokenVerifier_verify_def verify_signature_stage_def and_then_def
  by (cases "Jws_split token"; simp; cases "Jws_parseHeader jx (projr (Jws_split token))"; simp)
     (auto split: option.split sum.split)

lemma verify_throws_stages:
  "(\<exists>e. TokenVerifier_verify ed jx tv now token jwks isr = Inl e) \<longleftrightarrow>
     (\<exists>e. verify_signature_stage ed jx token jwks = Inl e) \<or>
     (\<exists>parts. verify_signature_stage ed jx token jwks = Inr (Inr parts)
        \<and> Jws_parseClaims jx parts = Inr None)"
proof (cases "verify_signature_stage ed jx token jwks")
  case (Inr res)
  then show ?thesis
    by (cases res; cases "Jws_parseClaims jx (projr res)"; cases "projr (Jws_parseClaims jx (projr res))")
       (simp_all add: verify_stages)
qed (simp add: verify_stages)

lemma signature_stage_claims:
  "verify_signature_stage ed (jx\<lparr>jx_claims := f\<rparr>) token jwks = verify_signature_stage ed jx token jwks"
proof -
  have "Jws_parseHeader (jx\<lparr>jx_claims := f\<rparr>) = Jws_parseHeader jx"
    by (simp add: Jws_parseHeader_def fun_eq_iff)
  then show ?thesis by (simp add: verify_signature_stage_def)
qed

lemma signature_stage_ok_iff:
  "verify_signature_stage ed jx token jwks = Inr (Inr parts) \<longleftrightarrow>
     Jws_split token = Inr parts \<and>
     (\<exists>hdr pk. Jws_parseHeader jx parts = Inr (Some hdr)
        \<and> publicKeyFor jwks (jh_keyId hdr) = Inr (Some pk)
        \<and> Jws_verifySignature ed parts pk = Inr True)"
  by (auto simp: verify_signature_stage_def and_then_Inr_iff split: sum.splits option.splits if_splits)

text \<open>A key that cannot be used, or one that is found and has a property \<open>P\<close>, through the key set.\<close>

lemma publicKeyFor_outcomes:
  "(\<exists>e. publicKeyFor jwks kid = Inl e) \<or> (\<exists>pk. publicKeyFor jwks kid = Inr (Some pk) \<and> P pk)
   \<longleftrightarrow> (\<exists>k jwk. kid = Some k \<and> find (\<lambda>jwk. jwk_keyId jwk = Some k) (jwks_keys jwks) = Some jwk
        \<and> ((\<exists>e. Jwk_toPublicKey jwk = Inl e) \<or> (\<exists>pk. Jwk_toPublicKey jwk = Inr pk \<and> P pk)))"
  by (auto simp: publicKeyFor_def and_then_Inl_iff and_then_Inr_iff split: option.splits)

lemma verifySignature_Inl_iff:
  "Jws_verifySignature ed parts pk = Inl e \<longleftrightarrow>
     ed_accepts ed pk \<and> Base64Url_decode (pt_signature parts) = Inl e"
  by (auto simp: Jws_verifySignature_def Let_def and_then_Inl_iff)

lemma verifySignature_accepts: "Jws_verifySignature ed parts pk = Inr True \<Longrightarrow> ed_accepts ed pk"
  by (auto simp: Jws_verifySignature_def Let_def split: if_splits)

lemma signature_stage_throws_iff:
  "(\<exists>e. verify_signature_stage ed jx token jwks = Inl e) \<longleftrightarrow>
     (\<exists>parts. Jws_split token = Inr parts \<and>
        (Jws_parseHeader jx parts = Inr None \<or>
         (\<exists>hdr. Jws_parseHeader jx parts = Inr (Some hdr)
            \<and> ((\<exists>e. publicKeyFor jwks (jh_keyId hdr) = Inl e)
               \<or> (\<exists>pk. publicKeyFor jwks (jh_keyId hdr) = Inr (Some pk) \<and> ed_accepts ed pk
                    \<and> (\<exists>e. Base64Url_decode (pt_signature parts) = Inl e))))))"
proof (cases "Jws_split token")
  case (Inr parts)
  show ?thesis
  proof (cases "Jws_parseHeader jx parts")
    case (Inr header)
    then show ?thesis
      using \<open>Jws_split token = Inr parts\<close>
      by (cases header)
         (auto simp: verify_signature_stage_def and_then_Inl_iff verifySignature_Inl_iff
           split: option.splits)
  qed (use Inr in \<open>simp add: verify_signature_stage_def\<close>)
qed (simp add: verify_signature_stage_def)

text \<open>The time checks on mathematical integers, where nothing wraps.\<close>

definition leeway_ok :: "TokenVerifier \<Rightarrow> bool" where
  "leeway_ok tv \<longleftrightarrow> 0 \<le> sint (tv_leewaySeconds tv) \<and> sint (tv_leewaySeconds tv) < 2 ^ 62"

lemma leeway_sint:
  assumes "leeway_ok tv" and "instant_ok now"
  shows "sint (now + tv_leewaySeconds tv) = sint now + sint (tv_leewaySeconds tv)"
    and "sint (now - tv_leewaySeconds tv) = sint now - sint (tv_leewaySeconds tv)"
  using assms
  by (simp_all add: leeway_ok_def instant_ok_def instant_min_def instant_max_def
      sint_long_add sint_long_diff)

lemma verify_claims_window:
  assumes "leeway_ok tv" and "instant_ok now"
  shows "verify_claims tv now isr c =
     (if tv_expectedIssuer tv \<noteq> None \<and> jc_issuer c \<noteq> tv_expectedIssuer tv then
        Result_failure WRONG_ISSUER
      else if tv_expectedAudience tv \<noteq> None \<and> jc_audience c \<noteq> tv_expectedAudience tv then
        Result_failure WRONG_AUDIENCE
      else if sint now + sint (tv_leewaySeconds tv) < sint (jc_notBefore c) then
        Result_failure NOT_YET_VALID
      else if sint (jc_expiresAt c) + sint (tv_leewaySeconds tv) \<le> sint now then
        Result_failure EXPIRED
      else if (case isr of None \<Rightarrow> False | Some p \<Rightarrow> p (jc_tokenId c)) then
        Result_failure REVOKED
      else Result_success c)"
proof -
  have "jc_expiresAt c \<le>s now - tv_leewaySeconds tv \<longleftrightarrow>
      sint (jc_expiresAt c) + sint (tv_leewaySeconds tv) \<le> sint now"
    by (auto simp: word_sle_eq leeway_sint [OF assms])
  then show ?thesis
    by (simp only: verify_claims_def word_sless_alt leeway_sint(1) [OF assms])
qed

section \<open>Issuing\<close>

lemma issue_Inr_iff:
  "TokenIssuer_issue ed jx ti now jb ks client = Inr tok \<longleftrightarrow>
     (\<exists>expiry signer t. instant_plus now (ti_tokenTtl ti) = Inr expiry
        \<and> currentSigner ks = Inr signer
        \<and> Jws_sign ed jx (JwsHeader_forKid (sg_kid signer))
            (issue_claims ti now expiry (newJti jb) client) (sg_privateKey signer) = Inr t
        \<and> tok = \<lparr>it_accessToken = t, it_tokenType = js ''Bearer'', it_expiresIn = ti_tokenTtl ti,
                 it_scope = scopeOf (cr_authorization client), it_jti = newJti jb,
                 it_expiresAt = expiry\<rparr>)"
  by (auto simp: TokenIssuer_issue_def and_then_Inr_iff Let_def)

text \<open>The entries of a scope string.\<close>

definition scope_entry :: "jstring \<Rightarrow> KeyOperation \<Rightarrow> jstring" where
  "scope_entry k op = k @ js '':'' @ KeyOperation_name op"

definition scope_entries :: "Authorization \<Rightarrow> jstring list" where
  "scope_entries a = (if a_controlPlane a then [js ''control''] else [])
     @ concat (map (\<lambda>g. map (scope_entry (g_keyGroup g)) (g_operations g)) (a_grants a))"

lemma scopeOf_entries: "scopeOf a = join_with 32 (scope_entries a)"
  by (simp add: scopeOf_def scope_entries_def scope_entry_def [abs_def])

lemma name_no_sep: "58 \<notin> set (KeyOperation_name op)" "32 \<notin> set (KeyOperation_name op)"
  by (cases op; simp add: js_def)+

lemma scope_entry_alt: "scope_entry k op = k @ 58 # KeyOperation_name op"
  by (simp add: scope_entry_def js_def del: KeyOperation_name.simps)

lemma scope_entry_eq_iff: "scope_entry k op = scope_entry k' op' \<longleftrightarrow> k = k' \<and> op = op'"
proof
  assume "scope_entry k op = scope_entry k' op'"
  then have eq: "rev (scope_entry k op) = rev (scope_entry k' op')" by (rule arg_cong)
  have "split_first 58 (rev (scope_entry k op)) = Some (rev (KeyOperation_name op), rev k)" for k op
    unfolding scope_entry_alt rev_append rev.simps append_assoc append_Cons append_Nil
    by (rule split_first_append) (simp add: name_no_sep)
  from this [of k op] this [of k' op'] show "k = k' \<and> op = op'" unfolding eq by simp
qed simp

lemma scope_entry_not_control: "scope_entry k op \<noteq> js ''control''"
proof
  assume "scope_entry k op = js ''control''"
  moreover have "58 \<in> set (scope_entry k op)" by (simp add: scope_entry_alt)
  ultimately have "58 \<in> set (js ''control'')" by (simp only:)
  then show False by (simp add: js_def)
qed

lemma scope_split:
  assumes "\<And>g. g \<in> set (a_grants a) \<Longrightarrow> 32 \<notin> set (g_keyGroup g)"
  shows "set (split_all 32 (scopeOf a)) - {[]} = set (scope_entries a) - {[]}"
proof (cases "scope_entries a = []")
  case False
  have "32 \<notin> set e" if "e \<in> set (scope_entries a)" for e
    using that assms name_no_sep
    by (auto simp: scope_entries_def scope_entry_def js_def split: if_splits)
  with False show ?thesis by (simp add: scopeOf_entries split_all_join)
qed (simp add: scopeOf_entries)

text \<open>The claims an issued token carries.\<close>

definition issued_claims :: "TokenIssuer \<Rightarrow> long \<Rightarrow> IssuedToken \<Rightarrow> ClientRecord \<Rightarrow> JwtClaims" where
  "issued_claims ti now tok client = issue_claims ti now (it_expiresAt tok) (it_jti tok) client"

lemma issue_signed:
  assumes inv: "keys_inv ed ks"
    and issue: "TokenIssuer_issue ed jx ti now jb ks client = Inr tok"
  obtains key seed where "key \<in> set (sk_keys ks)" and "kr_active key" and "length seed = 32"
    and "kr_private key = encodePrivate seed"
    and "Jws_sign ed jx (JwsHeader_forKid (kr_kid key)) (issued_claims ti now tok client) seed
           = Inr (it_accessToken tok)"
    and "sint (it_expiresAt tok) = sint now + sint (ti_tokenTtl ti)"
    and "it_jti tok = newJti jb"
proof -
  from currentSigner_inv [OF inv] obtain key seed where key: "key \<in> set (sk_keys ks)"
    "kr_active key" "length seed = 32" "kr_private key = encodePrivate seed"
    "currentSigner ks = Inr \<lparr>sg_kid = kr_kid key, sg_privateKey = seed\<rparr>" by blast
  from issue key(5) show ?thesis
    by (intro that [OF key(1-4)])
       (auto simp: issue_Inr_iff issued_claims_def dest: instant_plus_Inr)
qed

lemma find_list_all2:
  assumes "list_all2 (\<lambda>k j. f j = Some (g k) \<and> Q k j) ks bs" and "distinct (map g ks)"
    and "k \<in> set ks"
  shows "\<exists>j. find (\<lambda>j. f j = Some (g k)) bs = Some j \<and> Q k j"
  using assms by (induction rule: list_all2_induct) auto

lemma jwkSet_finds:
  assumes inv: "keys_inv ed s" and ed: "ed25519_ok ed"
    and set: "fst (SigningKeyService_jwkSet r now s) = Inr jwks"
    and key: "key \<in> set (sk_keys s)" "\<not> expired_retired r now key"
      "length seed = 32" "kr_private key = encodePrivate seed"
  shows "publicKeyFor jwks (Some (kr_kid key)) = Inr (Some (ed_public ed seed))"
proof -
  let ?ks = "filter (\<lambda>key. \<not> expired_retired r now key) (sk_keys s)"
  have "distinct (map kr_kid ?ks)"
    using inv by (simp add: keys_inv_def distinct_map_filter)
  moreover have "key \<in> set ?ks" using key by simp
  moreover obtain bs where "jwks = \<lparr>jwks_keys = bs\<rparr>" and
    "list_all2 (\<lambda>key jwk. jwk_keyId jwk = Some (kr_kid key)
         \<and> (\<forall>seed. length seed = 32 \<longrightarrow> kr_private key = encodePrivate seed \<longrightarrow>
              Jwk_toPublicKey jwk = Inr (ed_public ed seed))) ?ks bs"
    using jwkSet_published [OF inv ed, of r now] set by auto
  ultimately show ?thesis
    using key(3,4) find_list_all2 [of jwk_keyId kr_kid _ ?ks bs key]
    by (fastforce simp: publicKeyFor_Some_iff)
qed

section \<open>Plain strings\<close>

lemma plain_string_js:
  "list_all (\<lambda>c. of_char c < (128 :: nat)) s \<Longrightarrow> length s \<le> 1000 \<Longrightarrow> plain_string (js s)"
  by (simp add: plain_string_def utf16_ok_js)

lemma plain_string_base64:
  assumes "length bs \<le> 1000"
  shows "plain_string (Base64Url_encode bs)"
proof -
  have "unat c < 0x80" if "c \<in> set (Base64Url_encode bs)" for c
    using Base64Url_encode_url_safe [OF that] by (auto simp: url_safe_def Let_def)
  then have "utf16_ok (Base64Url_encode bs)" by (rule utf16_ok_ascii)
  moreover have "(4 * length bs + 2) div 3 \<le> (4 * 1000 + 2) div 3"
    using assms by (intro div_le_mono) simp
  ultimately show ?thesis by (simp add: plain_string_def length_Base64Url_encode)
qed

lemma plain_newJti: "length bs \<le> 1000 \<Longrightarrow> plain_string (newJti bs)"
  by (simp add: newJti_def randomBase64Url_def plain_string_base64)

lemma plain_prefixed:
  assumes "\<And>c. c \<in> set p \<Longrightarrow> unat c < 0x80" and "length p \<le> 100" and "length bs \<le> 1000"
  shows "plain_string (p @ randomBase64Url bs)"
proof -
  have "unat c < 0x80" if "c \<in> set (p @ randomBase64Url bs)" for c
    using that assms(1) Base64Url_encode_url_safe [of c bs]
    by (auto simp: randomBase64Url_def url_safe_def Let_def)
  then have "utf16_ok (p @ randomBase64Url bs)" by (rule utf16_ok_ascii)
  moreover have "(4 * length bs + 2) div 3 \<le> (4 * 1000 + 2) div 3"
    using assms(3) by (intro div_le_mono) simp
  ultimately show ?thesis
    using assms(2) by (simp add: plain_string_def randomBase64Url_def length_Base64Url_encode)
qed

lemma plain_newKid: "length bs \<le> 1000 \<Longrightarrow> plain_string (newKid bs)"
  unfolding newKid_def by (rule plain_prefixed) (auto simp: js_def)

lemma plain_newClientId: "length bs \<le> 1000 \<Longrightarrow> plain_string (newClientId bs)"
  unfolding newClientId_def by (rule plain_prefixed) (auto simp: js_def)

lemma plain_operation: "plain_string (KeyOperation_name k)"
  by (cases k) (simp_all add: plain_string_js)

lemma json_plain_header: "plain_string kid \<Longrightarrow> json_plain (header_json (JwsHeader_forKid kid))"
  by (simp add: json_plain_def header_json_def JwsHeader_forKid_def ALG_EDDSA_def plain_string_js)

lemma json_plain_claims:
  assumes "plain_string (ti_issuer ti)" "plain_string (ti_audience ti)"
    "plain_string (cr_clientId client)" "plain_string jti"
    "\<And>g. g \<in> set (a_grants (cr_authorization client)) \<Longrightarrow> plain_string (g_keyGroup g)"
  shows "json_plain (claims_json (issue_claims ti now expiry jti client))"
  using assms plain_operation
  by (auto simp: json_plain_def claims_json_def issue_claims_def grants_json_def
      group_json_def GrantsClaim_from_def)

section \<open>A concrete instance of the parameters\<close>

definition demo_header_of :: "json \<Rightarrow> JwsHeader" where
  "demo_header_of t =
     \<lparr>jh_algorithm = string_of_json (member_of (members t) (js ''alg'')),
      jh_type = string_of_json (member_of (members t) (js ''typ'')),
      jh_keyId = string_of_json (member_of (members t) (js ''kid''))\<rparr>"

definition demo_group_of :: "json \<Rightarrow> Group option" where
  "demo_group_of t =
     (case t of
        JObject ms \<Rightarrow> Some
          \<lparr>gp_keyGroup = string_of_json (member_of ms (js ''keyGroup'')),
           gp_operations = map_option (map string_of_json)
             (list_of_json (member_of ms (js ''operations'')))\<rparr>
      | _ \<Rightarrow> None)"

definition demo_grants_of :: "json \<Rightarrow> GrantsClaim option" where
  "demo_grants_of t =
     (case t of
        JObject ms \<Rightarrow> Some
          \<lparr>gc_control = (member_of ms (js ''control'') = JBool True),
           gc_groups = map_option (map demo_group_of)
             (list_of_json (member_of ms (js ''groups'')))\<rparr>
      | _ \<Rightarrow> None)"

definition demo_claims_of :: "json \<Rightarrow> JwtClaims" where
  "demo_claims_of t =
     (let m = member_of (members t) in
      \<lparr>jc_issuer = string_of_json (m (js ''iss'')), jc_subject = string_of_json (m (js ''sub'')),
       jc_audience = string_of_json (m (js ''aud'')), jc_issuedAt = long_of_json (m (js ''iat'')),
       jc_notBefore = long_of_json (m (js ''nbf'')), jc_expiresAt = long_of_json (m (js ''exp'')),
       jc_tokenId = string_of_json (m (js ''jti'')), jc_grants = demo_grants_of (m (js ''grants'')),
       jc_confirmation = None\<rparr>)"

lemma demo_header [simp]: "demo_header_of (header_json h) = h"
  by (simp add: demo_header_of_def header_json_def)

lemma demo_group [simp]: "demo_group_of (json_nullable group_json g) = g"
  by (cases g; cases "gp_operations (the g)")
     (simp_all add: demo_group_of_def group_json_def comp_def)

lemma demo_grants [simp]: "demo_grants_of (json_nullable grants_json c) = c"
  by (cases c; cases "gc_groups (the c)")
     (simp_all add: demo_grants_of_def grants_json_def comp_def)

lemma demo_claims: "jc_confirmation c = None \<Longrightarrow> demo_claims_of (claims_json c) = c"
  by (simp add: demo_claims_of_def claims_json_def Let_def)

definition demo_jackson :: jackson where
  "demo_jackson =
     \<lparr>jx_write = (\<lambda>t. Some (json_bytes t)),
      jx_header = (\<lambda>b. if b = null_text then Some None
                       else map_option (\<lambda>t. Some (demo_header_of t)) (json_of_bytes b)),
      jx_claims = (\<lambda>b. if b = null_text then Some None
                       else map_option (\<lambda>t. Some (demo_claims_of t)) (json_of_bytes b))\<rparr>"

lemma json_bytes_not_null_text [simp]: "json_bytes t \<noteq> null_text"
proof
  assume "json_bytes t = null_text"
  then have "json_of_bytes (json_bytes t) = json_of_bytes null_text" by simp
  moreover have "json_of_bytes null_text = None" by code_simp
  ultimately show False by simp
qed

lemma demo_jackson_ok: "jackson_ok demo_jackson"
  by (simp add: jackson_ok_def demo_jackson_def demo_claims)

lemma demo_jackson_null: "jackson_reads_null demo_jackson"
  by (simp add: jackson_reads_null_def demo_jackson_def)

definition demo_issuer :: TokenIssuer where
  "demo_issuer = \<lparr>ti_issuer = js ''https://idp'', ti_audience = js ''mini-kms'', ti_tokenTtl = 300\<rparr>"

definition demo_verifier :: TokenVerifier where
  "demo_verifier = \<lparr>tv_expectedIssuer = Some (js ''https://idp''),
     tv_expectedAudience = Some (js ''mini-kms''), tv_leewaySeconds = 30\<rparr>"

definition demo_subject :: ClientRecord where
  "demo_subject = \<lparr>cr_clientId = js ''client_a'', cr_displayName = None, cr_secretHash = None,
     cr_authorization = \<lparr>a_controlPlane = False, a_grants =
       [\<lparr>g_keyGroup = js ''billing'', g_operations = [ENCRYPT]\<rparr>]\<rparr>,
     cr_enabled = True, cr_createdAt = 0\<rparr>"

lemma demo_claims_plain:
  "length jb \<le> 1000 \<Longrightarrow>
     json_plain (claims_json (issue_claims demo_issuer now expiry (newJti jb) demo_subject))"
  by (rule json_plain_claims)
     (auto simp: demo_issuer_def demo_subject_def plain_string_js plain_newJti)

section \<open>Properties\<close>

lemma issue_succeeds:
  assumes jx: "jackson_ok jx" and inv: "keys_inv ed ks"
    and exp: "instant_plus now (ti_tokenTtl ti) = Inr expiry"
    and kid: "sk_activeKid ks = Some kid" and plain: "json_plain (header_json (JwsHeader_forKid kid))"
      "json_plain (claims_json (issue_claims ti now expiry (newJti jb) client))"
  shows "\<exists>tok. TokenIssuer_issue ed jx ti now jb ks client = Inr tok
           \<and> it_jti tok = newJti jb \<and> it_expiresAt tok = expiry"
proof -
  from currentSigner_inv [OF inv] obtain key seed where key: "key \<in> set (sk_keys ks)" "kr_active key"
    "currentSigner ks = Inr \<lparr>sg_kid = kr_kid key, sg_privateKey = seed\<rparr>" by blast
  with inv kid have k: "kr_kid key = kid" by (auto simp: keys_inv_def)
  obtain hb where "jx_write jx (header_json (JwsHeader_forKid kid)) = Some hb"
    using jx plain(1) unfolding jackson_ok_def by blast
  moreover obtain cb where
    "jx_write jx (claims_json (issue_claims ti now expiry (newJti jb) client)) = Some cb"
    using jx plain(2) unfolding jackson_ok_def by (fastforce simp: issue_claims_def)
  ultimately obtain t where "Jws_sign ed jx (JwsHeader_forKid kid)
      (issue_claims ti now expiry (newJti jb) client) seed = Inr t"
    by (auto simp: Jws_sign_Inr_iff)
  with key k exp show ?thesis by (auto simp: issue_Inr_iff)
qed

text \<open>
  An issued token against a key set in which the verifier finds the key that signed it: the
  outcome is decided by the window of the token and the denylist.
\<close>

lemma issued_verify_window:
  assumes ed: "ed25519_ok ed" and jx: "jackson_ok jx" and inv: "keys_inv ed ks"
    and issue: "TokenIssuer_issue ed jx ti now jb ks client = Inr tok"
    and kid: "sk_activeKid ks = Some kid" "json_plain (header_json (JwsHeader_forKid kid))"
    and plain: "json_plain (claims_json (issued_claims ti now tok client))"
    and found: "\<And>key seed. key \<in> set (sk_keys ks) \<Longrightarrow> kr_active key \<Longrightarrow> length seed = 32 \<Longrightarrow>
      kr_private key = encodePrivate seed \<Longrightarrow>
      publicKeyFor jwks (Some (kr_kid key)) = Inr (Some (ed_public ed seed))"
    and tv: "tv_expectedIssuer tv \<in> {None, Some (ti_issuer ti)}"
      "tv_expectedAudience tv \<in> {None, Some (ti_audience ti)}" "leeway_ok tv" "instant_ok t"
  shows "TokenVerifier_verify ed jx tv t (Some (it_accessToken tok)) jwks isr = Inr
       (if sint t + sint (tv_leewaySeconds tv) < sint now then Result_failure NOT_YET_VALID
        else if sint now + sint (ti_tokenTtl ti) + sint (tv_leewaySeconds tv) \<le> sint t then
          Result_failure EXPIRED
        else if (case isr of None \<Rightarrow> False | Some p \<Rightarrow> p (Some (newJti jb))) then
          Result_failure REVOKED
        else Result_success (issued_claims ti now tok client))"
proof -
  let ?c = "issued_claims ti now tok client"
  from issue_signed [OF inv issue] obtain key seed where
    key: "key \<in> set (sk_keys ks)" "kr_active key" "length seed = 32" "kr_private key = encodePrivate seed"
    and sign: "Jws_sign ed jx (JwsHeader_forKid (kr_kid key)) ?c seed = Inr (it_accessToken tok)"
    and exp: "sint (it_expiresAt tok) = sint now + sint (ti_tokenTtl ti)" and jti: "it_jti tok = newJti jb"
    by blast
  have k: "kr_kid key = kid" using inv kid(1) key(1,2) by (auto simp: keys_inv_def)
  have "publicKeyFor jwks (jh_keyId (JwsHeader_forKid kid)) = Inr (Some (ed_public ed seed))"
    using found [OF key] by (simp add: JwsHeader_forKid_def k)
  moreover have c: "jc_confirmation ?c = None" "jc_issuer ?c = Some (ti_issuer ti)"
    "jc_audience ?c = Some (ti_audience ti)" "jc_notBefore ?c = now" "jc_expiresAt ?c = it_expiresAt tok"
    "jc_tokenId ?c = Some (newJti jb)"
    by (simp_all add: issued_claims_def issue_claims_def jti)
  ultimately have "TokenVerifier_verify ed jx tv t (Some (it_accessToken tok)) jwks isr
      = Inr (verify_claims tv t isr ?c)"
    using sign kid(2) plain by (intro verify_signed [OF ed jx key(3)]) (simp_all add: k)
  moreover have "\<not> (tv_expectedIssuer tv \<noteq> None \<and> jc_issuer ?c \<noteq> tv_expectedIssuer tv)"
    "\<not> (tv_expectedAudience tv \<noteq> None \<and> jc_audience ?c \<noteq> tv_expectedAudience tv)"
    using tv(1,2) c(2,3) by auto
  ultimately show ?thesis
    by (simp only: verify_claims_window [OF tv(3,4)] if_False simp_thms c(4-6) exp)
qed

text \<open>
  C6. Issue, then verify: issuing succeeds, and the token verifies offline against the
  published key set for exactly its window: before its start it is not yet valid, from its
  expiry plus the leeway on it is expired, in between it is refused if its id is on the
  denylist and otherwise accepted with exactly the claims that were issued.
\<close>

theorem issued_token_verifies:
  assumes "ed25519_ok ed" and "jackson_ok jx" and "keys_inv ed ks"
    and "instant_plus now (ti_tokenTtl ti) = Inr expiry"
    and "sk_activeKid ks = Some kid" and "json_plain (header_json (JwsHeader_forKid kid))"
    and "c = issue_claims ti now expiry (newJti jb) client" and "json_plain (claims_json c)"
    and "fst (SigningKeyService_jwkSet r t0 ks) = Inr jwks"
    and "tv_expectedIssuer tv \<in> {None, Some (ti_issuer ti)}"
    and "tv_expectedAudience tv \<in> {None, Some (ti_audience ti)}"
    and "leeway_ok tv" and "instant_ok t"
  shows "\<exists>tok. TokenIssuer_issue ed jx ti now jb ks client = Inr tok \<and> it_jti tok = newJti jb \<and>
     TokenVerifier_verify ed jx tv t (Some (it_accessToken tok)) jwks isr = Inr
       (if sint t + sint (tv_leewaySeconds tv) < sint now then Result_failure NOT_YET_VALID
        else if sint now + sint (ti_tokenTtl ti) + sint (tv_leewaySeconds tv) \<le> sint t then
          Result_failure EXPIRED
        else if (case isr of None \<Rightarrow> False | Some p \<Rightarrow> p (Some (newJti jb))) then
          Result_failure REVOKED
        else Result_success c)"
proof -
  from issue_succeeds [OF assms(2-6)] assms(7,8) obtain tok where
    tok: "TokenIssuer_issue ed jx ti now jb ks client = Inr tok" "it_jti tok = newJti jb"
      "it_expiresAt tok = expiry" by blast
  then have ic: "issued_claims ti now tok client = c" by (simp add: issued_claims_def assms(7))
  have found: "publicKeyFor jwks (Some (kr_kid key)) = Inr (Some (ed_public ed seed))"
    if "key \<in> set (sk_keys ks)" "kr_active key" "length seed = 32" "kr_private key = encodePrivate seed"
    for key seed
    using jwkSet_finds [OF assms(3,1,9) that(1) _ that(3,4)] that(2) by simp
  from assms(8) have "json_plain (claims_json (issued_claims ti now tok client))" by (simp only: ic)
  from issued_verify_window [OF assms(1-3) tok(1) assms(5,6) this found assms(10-13), of isr]
  show ?thesis unfolding ic using tok(1,2) by blast
qed

theorem issued_token_verifies_witness:
  "\<exists>tok jwks. TokenIssuer_issue demo_ed demo_jackson demo_issuer 200 [7] demo_keys demo_subject = Inr tok
     \<and> fst (SigningKeyService_jwkSet 600 210 demo_keys) = Inr jwks
     \<and> TokenVerifier_verify demo_ed demo_jackson demo_verifier 529 (Some (it_accessToken tok)) jwks None
       = Inr (Result_success (issue_claims demo_issuer 200 500 (newJti [7]) demo_subject))"
proof -
  from jwkSet_published [OF demo_keys_inv demo_ed_ok, of 600 210]
  obtain jwks where jwks: "fst (SigningKeyService_jwkSet 600 210 demo_keys) = Inr jwks" by blast
  have e: "instant_plus 200 (ti_tokenTtl demo_issuer) = Inr 500"
    by (simp add: instant_plus_def demo_issuer_def instant_min_def instant_max_def)
  have h: "json_plain (header_json (JwsHeader_forKid (newKid [1])))"
    by (simp add: json_plain_header plain_newKid)
  have c: "json_plain (claims_json (issue_claims demo_issuer 200 500 (newJti [7]) demo_subject))"
    by (rule demo_claims_plain) simp
  have "\<exists>tok. TokenIssuer_issue demo_ed demo_jackson demo_issuer 200 [7] demo_keys demo_subject = Inr tok
     \<and> it_jti tok = newJti [7] \<and>
     TokenVerifier_verify demo_ed demo_jackson demo_verifier 529 (Some (it_accessToken tok)) jwks None = Inr
       (if sint (529 :: long) + sint (tv_leewaySeconds demo_verifier) < sint (200 :: long) then
          Result_failure NOT_YET_VALID
        else if sint (200 :: long) + sint (ti_tokenTtl demo_issuer)
            + sint (tv_leewaySeconds demo_verifier) \<le> sint (529 :: long) then
          Result_failure EXPIRED
        else if (case None of None \<Rightarrow> False | Some p \<Rightarrow> p (Some (newJti [7]))) then
          Result_failure REVOKED
        else Result_success (issue_claims demo_issuer 200 500 (newJti [7]) demo_subject))"
    by (rule issued_token_verifies [OF demo_ed_ok demo_jackson_ok demo_keys_inv e demo_keys_kid(1) h
          refl c jwks])
       (simp_all add: demo_verifier_def demo_issuer_def leeway_ok_def instant_ok_def
          instant_min_def instant_max_def)
  with jwks show ?thesis by (auto simp: demo_verifier_def demo_issuer_def)
qed

text \<open>
  C7. Soundness of acceptance: a token is accepted only if its third segment is a valid
  signature of exactly the text of its first two, under the key published under the key id
  that the header in the first segment names; the claims returned are those in the second
  segment, name the expected issuer and audience, and the clock is inside their window; and
  their id is not revoked.
\<close>

theorem accepted_token_is_signed:
  assumes "TokenVerifier_verify ed jx tv now token jwks isr = Inr r" and "rt_valid r"
    and "leeway_ok tv" and "instant_ok now"
  shows "\<exists>h p s hb hdr kid jwk pk sig pb c. token = Some (h @ 46 # p @ 46 # s)
     \<and> Base64Url_decode h = Inr hb \<and> jx_header jx hb = Some (Some hdr) \<and> jh_keyId hdr = Some kid
     \<and> jwk \<in> set (jwks_keys jwks) \<and> jwk_keyId jwk = Some kid \<and> Jwk_toPublicKey jwk = Inr pk
     \<and> Base64Url_decode s = Inr sig \<and> ed_verify ed pk (ascii_bytes (h @ 46 # p)) sig = Some True
     \<and> Base64Url_decode p = Inr pb \<and> jx_claims jx pb = Some (Some c) \<and> r = Result_success c
     \<and> tv_expectedIssuer tv \<in> {None, jc_issuer c} \<and> tv_expectedAudience tv \<in> {None, jc_audience c}
     \<and> sint (jc_notBefore c) - sint (tv_leewaySeconds tv) \<le> sint now
     \<and> sint now < sint (jc_expiresAt c) + sint (tv_leewaySeconds tv)
     \<and> (case isr of None \<Rightarrow> True | Some p \<Rightarrow> \<not> p (jc_tokenId c))"
  using assms(1,2)
proof (cases rule: verify_accepted)
  case (1 parts hb hdr pk sig pb c)
  from publicKeyFor_published [OF 1(4)] obtain jwk kid where
    jwk: "jwk \<in> set (jwks_keys jwks)" "Jwk_toPublicKey jwk = Inr pk" "jh_keyId hdr = Some kid"
      "jwk_keyId jwk = Some kid" by auto
  have "rt_valid (verify_claims tv now isr c)"
    using 1(10) by (simp add: Result_success_def)
  then have "tv_expectedIssuer tv \<in> {None, jc_issuer c}" "tv_expectedAudience tv \<in> {None, jc_audience c}"
    "sint (jc_notBefore c) - sint (tv_leewaySeconds tv) \<le> sint now"
    "sint now < sint (jc_expiresAt c) + sint (tv_leewaySeconds tv)"
    "case isr of None \<Rightarrow> True | Some p \<Rightarrow> \<not> p (jc_tokenId c)"
    by (auto simp: verify_claims_valid word_sless_alt leeway_sint [OF assms(3,4)] split: option.splits)
  with jwk 1(2,3,6-9,11) Jws_split_Inr(1) [OF 1(1)] show ?thesis by blast
qed

text \<open>A header and a claim set signed by \<open>demo_ed\<close>, for the witnesses below.\<close>

definition demo_hb :: "byte list" where
  "demo_hb = json_bytes (header_json (JwsHeader_forKid (newKid [1])))"

definition demo_cb :: "byte list" where
  "demo_cb = json_bytes (claims_json (issue_claims demo_issuer 200 500 (newJti [7]) demo_subject))"

definition demo_sig :: "byte list" where
  "demo_sig = replicate 32 1 @ ascii_bytes (signing_input demo_hb demo_cb)"

definition demo_token :: jstring where
  "demo_token = signing_input demo_hb demo_cb @ 46 # Base64Url_encode demo_sig"

definition demo_jwks :: JwkSet where
  "demo_jwks = \<lparr>jwks_keys = [\<lparr>jwk_keyType = Some (js ''OKP''), jwk_curve = Some (js ''Ed25519''),
     jwk_publicKey = Some (Base64Url_encode (replicate 32 1)), jwk_use = Some (js ''sig''),
     jwk_algorithm = Some (js ''EdDSA''), jwk_keyId = Some (newKid [1])\<rparr>]\<rparr>"

lemma demo_reads:
  "jx_header demo_jackson demo_hb = Some (Some (JwsHeader_forKid (newKid [1])))"
  "jx_claims demo_jackson demo_cb =
     Some (Some (issue_claims demo_issuer 200 500 (newJti [7]) demo_subject))"
  by (simp_all add: demo_jackson_def demo_hb_def demo_cb_def demo_claims issue_claims_def)

lemma demo_jwk: "jwk \<in> set (jwks_keys demo_jwks) \<Longrightarrow> Jwk_toPublicKey jwk = Inr (replicate 32 1)"
  by (rule toPublicKey_forEd25519(1) [of _ "newKid [1]"]) (simp_all add: demo_jwks_def forEd25519_Inr)

lemma demo_key: "publicKeyFor demo_jwks (Some (newKid [1])) = Inr (Some (replicate 32 1))"
  using demo_jwk [of "hd (jwks_keys demo_jwks)"]
  by (simp add: publicKeyFor_Some_iff demo_jwks_def)

lemma demo_verify:
  assumes "ed_accepts ed (replicate 32 1)"
    and "ed_verify ed (replicate 32 1) (ascii_bytes (signing_input demo_hb demo_cb)) demo_sig = Some True"
  shows "TokenVerifier_verify ed demo_jackson demo_verifier 300 (Some demo_token) demo_jwks None =
     Inr (Result_success (issue_claims demo_issuer 200 500 (newJti [7]) demo_subject))"
proof -
  have w: "leeway_ok demo_verifier" "instant_ok 300"
    by (simp_all add: demo_verifier_def leeway_ok_def instant_ok_def instant_min_def instant_max_def)
  have "TokenVerifier_verify ed demo_jackson demo_verifier 300 (Some demo_token) demo_jwks None =
     Inr (verify_claims demo_verifier 300 None
       (issue_claims demo_issuer 200 500 (newJti [7]) demo_subject))"
    unfolding demo_token_def
    by (rule verify_signed_text [OF demo_reads _ assms])
       (simp add: JwsHeader_forKid_def demo_key)
  moreover have "verify_claims demo_verifier 300 None
      (issue_claims demo_issuer 200 500 (newJti [7]) demo_subject) =
    Result_success (issue_claims demo_issuer 200 500 (newJti [7]) demo_subject)"
    unfolding verify_claims_window [OF w]
    by (simp add: demo_verifier_def issue_claims_def demo_issuer_def)
  ultimately show ?thesis by simp
qed

theorem accepted_token_is_signed_witness:
  "\<exists>h p s sig. demo_token = h @ 46 # p @ 46 # s \<and> Base64Url_decode s = Inr sig
     \<and> ed_verify demo_ed (replicate 32 1) (ascii_bytes (h @ 46 # p)) sig = Some True"
proof -
  have "TokenVerifier_verify demo_ed demo_jackson demo_verifier 300 (Some demo_token) demo_jwks None =
     Inr (Result_success (issue_claims demo_issuer 200 500 (newJti [7]) demo_subject))"
    by (rule demo_verify) (simp_all add: demo_ed_def demo_sig_def)
  from accepted_token_is_signed [OF this] show ?thesis
    using demo_jwk
    by (fastforce simp: Result_success_def demo_verifier_def leeway_ok_def instant_ok_def
        instant_min_def instant_max_def)
qed

text \<open>
  C8. Authenticity: if the published keys verify only the texts the issuer signed, every
  accepted token carries a claim set the issuer signed, whatever text was presented.
\<close>

theorem accepted_claims_were_issued:
  assumes "\<And>jwk pk m sig. jwk \<in> set (jwks_keys jwks) \<Longrightarrow> Jwk_toPublicKey jwk = Inr pk \<Longrightarrow>
             ed_verify ed pk m sig = Some True \<Longrightarrow>
             \<exists>(hb, cb) \<in> issuedTexts. m = ascii_bytes (signing_input hb cb)"
    and "TokenVerifier_verify ed jx tv now token jwks isr = Inr r" and "rt_valid r"
  shows "\<exists>(hb, cb) \<in> issuedTexts. \<exists>c. jx_claims jx cb = Some (Some c) \<and> r = Result_success c"
  using assms(2,3)
proof (cases rule: verify_accepted)
  case (1 parts hb hdr pk sig pb c)
  from publicKeyFor_published [OF 1(4)] obtain jwk where
    jwk: "jwk \<in> set (jwks_keys jwks)" "Jwk_toPublicKey jwk = Inr pk" by blast
  from assms(1) [OF jwk 1(7)] obtain hb' cb where s: "(hb', cb) \<in> issuedTexts"
    "ascii_bytes (pt_header parts @ 46 # pt_payload parts) = ascii_bytes (signing_input hb' cb)"
    by blast
  have "unat c < 0x80 \<and> c \<noteq> 63" if "c \<in> set (signing_input hb' cb)" for c
    using that by (auto simp: signing_input_def dest: Base64Url_encode_url_safe url_safe_ascii)
  from ascii_bytes_inj [OF s(2) this]
  have eq: "pt_header parts @ 46 # pt_payload parts = Base64Url_encode hb' @ 46 # Base64Url_encode cb"
    by (simp add: signing_input_def)
  note split_first_append [OF Jws_split_Inr(2) [OF 1(1)], of "pt_payload parts"]
  moreover note split_first_append [OF Base64Url_encode_no_dot [of hb'], of "Base64Url_encode cb"]
  ultimately have "pt_payload parts = Base64Url_encode cb" unfolding eq by (simp only: option.inject prod.inject)
  with 1(8) have "pb = cb" by (simp add: base64url.dec_enc)
  with 1(9,11) have "\<exists>c. jx_claims jx cb = Some (Some c) \<and> r = Result_success c" by simp
  with s(1) show ?thesis by (intro bexI [of _ "(hb', cb)"]) simp_all
qed

theorem accepted_claims_were_issued_witness:
  "\<exists>c. jx_claims demo_jackson demo_cb = Some (Some c) \<and>
     TokenVerifier_verify
       (demo_ed\<lparr>ed_verify := \<lambda>pk m sig.
          Some (m = ascii_bytes (signing_input demo_hb demo_cb) \<and> sig = pk @ m)\<rparr>)
       demo_jackson demo_verifier 300 (Some demo_token) demo_jwks None = Inr (Result_success c)"
proof -
  let ?ed = "demo_ed\<lparr>ed_verify := \<lambda>pk m sig.
          Some (m = ascii_bytes (signing_input demo_hb demo_cb) \<and> sig = pk @ m)\<rparr>"
  let ?c = "issue_claims demo_issuer 200 500 (newJti [7]) demo_subject"
  have v: "TokenVerifier_verify ?ed demo_jackson demo_verifier 300 (Some demo_token) demo_jwks None =
     Inr (Result_success ?c)"
    by (rule demo_verify) (simp_all add: demo_ed_def demo_sig_def)
  have "\<exists>(hb, cb) \<in> {(demo_hb, demo_cb)}.
      \<exists>c. jx_claims demo_jackson cb = Some (Some c) \<and> Result_success ?c = Result_success c"
    by (rule accepted_claims_were_issued [OF _ v]) (auto simp: Result_success_def)
  then show ?thesis using v by auto
qed

text \<open>
  C30. Signature first: as long as the signature of a token does not verify, nothing of the
  outcome depends on how its claims would read, nor on the clock, the expected issuer and
  audience or the denylist.
\<close>

theorem signature_before_claims:
  assumes "\<And>parts hdr pk. Jws_split token = Inr parts \<Longrightarrow>
      Jws_parseHeader jx parts = Inr (Some hdr) \<Longrightarrow>
      publicKeyFor jwks (jh_keyId hdr) = Inr (Some pk) \<Longrightarrow>
      Jws_verifySignature ed parts pk \<noteq> Inr True"
  shows "TokenVerifier_verify ed jx tv now token jwks isr =
     TokenVerifier_verify ed (jx\<lparr>jx_claims := f\<rparr>) tv' now' token jwks isr'"
proof -
  have "verify_signature_stage ed jx token jwks \<noteq> Inr (Inr parts)" for parts
    using assms by (auto simp: signature_stage_ok_iff)
  then show ?thesis
    unfolding verify_stages signature_stage_claims
    by (cases "verify_signature_stage ed jx token jwks") (auto split: sum.splits)
qed

theorem signature_before_claims_witness:
  "TokenVerifier_verify demo_ed demo_jackson demo_verifier 300 (Some demo_token) \<lparr>jwks_keys = []\<rparr> None =
   TokenVerifier_verify demo_ed (demo_jackson\<lparr>jx_claims := \<lambda>_. None\<rparr>) demo_verifier 900
     (Some demo_token) \<lparr>jwks_keys = []\<rparr> (Some (\<lambda>_. True))"
  by (rule signature_before_claims) (simp add: publicKeyFor_Some_iff)

text \<open>
  C31. When verifying throws instead of returning a result: exactly for a header segment that
  reads as the JSON \<open>null\<close>; for a header whose key id is that of a published key that does
  not convert to a public key; for a signature segment that is not Base64; and for a signed
  payload that reads as \<open>null\<close>. Any caller can present the first and the third.
\<close>

theorem verify_throws_iff:
  "(\<exists>e. TokenVerifier_verify ed jx tv now token jwks isr = Inl e) \<longleftrightarrow>
     (\<exists>parts. Jws_split token = Inr parts \<and>
        (Jws_parseHeader jx parts = Inr None \<or>
         (\<exists>hdr kid jwk. Jws_parseHeader jx parts = Inr (Some hdr) \<and> jh_keyId hdr = Some kid
            \<and> find (\<lambda>jwk. jwk_keyId jwk = Some kid) (jwks_keys jwks) = Some jwk
            \<and> ((\<exists>e. Jwk_toPublicKey jwk = Inl e)
               \<or> (\<exists>pk. Jwk_toPublicKey jwk = Inr pk \<and> ed_accepts ed pk
                    \<and> ((\<exists>e. Base64Url_decode (pt_signature parts) = Inl e)
                       \<or> (Jws_verifySignature ed parts pk = Inr True
                            \<and> Jws_parseClaims jx parts = Inr None)))))))"
proof -
  have "(\<exists>e. TokenVerifier_verify ed jx tv now token jwks isr = Inl e) \<longleftrightarrow>
     (\<exists>parts. Jws_split token = Inr parts \<and>
        (Jws_parseHeader jx parts = Inr None \<or>
         (\<exists>hdr. Jws_parseHeader jx parts = Inr (Some hdr)
            \<and> ((\<exists>e. publicKeyFor jwks (jh_keyId hdr) = Inl e)
               \<or> (\<exists>pk. publicKeyFor jwks (jh_keyId hdr) = Inr (Some pk) \<and> ed_accepts ed pk
                    \<and> ((\<exists>e. Base64Url_decode (pt_signature parts) = Inl e)
                       \<or> (Jws_verifySignature ed parts pk = Inr True
                            \<and> Jws_parseClaims jx parts = Inr None)))))))"
    unfolding verify_throws_stages signature_stage_throws_iff signature_stage_ok_iff
    using verifySignature_accepts by blast
  then show ?thesis unfolding publicKeyFor_outcomes by blast
qed

text \<open>A header \<open>null\<close>, and a header with the key id of a published key that has no value.\<close>

theorem verify_throws_iff_witness:
  "(\<exists>e. TokenVerifier_verify demo_ed demo_jackson demo_verifier 300 (Some (js ''bnVsbA..''))
      demo_jwks None = Inl e)
   \<and> (\<exists>e. TokenVerifier_verify demo_ed demo_jackson demo_verifier 300 (Some demo_token)
      \<lparr>jwks_keys = [(hd (jwks_keys demo_jwks))\<lparr>jwk_publicKey := None\<rparr>]\<rparr> None = Inl e)"
proof
  have s: "Jws_split (Some (js ''bnVsbA..'')) =
      Inr \<lparr>pt_header = js ''bnVsbA'', pt_payload = [], pt_signature = []\<rparr>"
    by code_simp
  have "Base64Url_decode (js ''bnVsbA'') = Inr null_text" by code_simp
  then have "Jws_parseHeader demo_jackson
      \<lparr>pt_header = js ''bnVsbA'', pt_payload = [], pt_signature = []\<rparr> = Inr None"
    by (simp add: Jws_parseHeader_def Jws_fromJson_def demo_jackson_def)
  with s show "\<exists>e. TokenVerifier_verify demo_ed demo_jackson demo_verifier 300
      (Some (js ''bnVsbA..'')) demo_jwks None = Inl e"
    by (intro verify_throws_iff [THEN iffD2]) auto
next
  let ?parts = "\<lparr>pt_header = Base64Url_encode demo_hb, pt_payload = Base64Url_encode demo_cb,
     pt_signature = Base64Url_encode demo_sig\<rparr>"
  have "Jws_split (Some demo_token) = Inr ?parts"
    using Jws_split_three [OF Base64Url_encode_no_dot Base64Url_encode_no_dot Base64Url_encode_no_dot,
      of demo_hb demo_cb demo_sig] by (simp add: demo_token_def signing_input_def)
  moreover have "Jws_parseHeader demo_jackson ?parts = Inr (Some (JwsHeader_forKid (newKid [1])))"
    by (simp add: Jws_parseHeader_def Jws_fromJson_def base64url.dec_enc demo_reads)
  ultimately show "\<exists>e. TokenVerifier_verify demo_ed demo_jackson demo_verifier 300 (Some demo_token)
      \<lparr>jwks_keys = [(hd (jwks_keys demo_jwks))\<lparr>jwk_publicKey := None\<rparr>]\<rparr> None = Inl e"
    by (intro verify_throws_iff [THEN iffD2])
       (simp add: JwsHeader_forKid_def demo_jwks_def Jwk_toPublicKey_def)
qed

text \<open>
  The scope string tells the client exactly what it was granted, for key groups without
  a space in their name: split at spaces, it has the entry of an operation on a group
  exactly when the authorization permits it, and \<open>control\<close> exactly for control-plane
  authority.
\<close>

lemma scope_lists_grants:
  assumes "\<And>g. g \<in> set (a_grants a) \<Longrightarrow> 32 \<notin> set (g_keyGroup g)"
  shows "(js ''control'' \<in> set (split_all 32 (scopeOf a)) \<longleftrightarrow> a_controlPlane a)
     \<and> (k @ js '':'' @ KeyOperation_name op \<in> set (split_all 32 (scopeOf a)) \<longleftrightarrow> permits a k op)"
proof -
  have in_iff: "e \<in> set (split_all 32 (scopeOf a)) \<longleftrightarrow> e \<in> set (scope_entries a)" if "e \<noteq> []" for e
    using scope_split [OF assms] that by blast
  have "scope_entry k op \<in> set (scope_entries a) \<longleftrightarrow> permits a k op"
    using scope_entry_not_control [of k op]
    by (auto simp: scope_entries_def permits_iff scope_entry_eq_iff)
  moreover have "js ''control'' \<in> set (scope_entries a) \<longleftrightarrow> a_controlPlane a"
    using scope_entry_not_control by (auto simp: scope_entries_def) metis
  moreover have "scope_entry k op \<noteq> []" by (simp add: scope_entry_def)
  ultimately show ?thesis
    using in_iff [of "scope_entry k op"] in_iff [of "js ''control''"]
    by (simp add: scope_entry_def)
qed

lemma scope_lists_grants_example:
  "js ''billing:ENCRYPT'' \<in> set (split_all 32 (scopeOf (cr_authorization demo_subject)))"
proof -
  have "permits (cr_authorization demo_subject) (js ''billing'') ENCRYPT"
    by (simp add: demo_subject_def permits_def)
  moreover have "js ''billing'' @ js '':'' @ KeyOperation_name ENCRYPT = js ''billing:ENCRYPT''"
    by (simp flip: js_append)
  ultimately show ?thesis
    using scope_lists_grants [of "cr_authorization demo_subject" "js ''billing''" ENCRYPT]
    by (simp add: demo_subject_def js_def)
qed

end
