(* ===== verification/Revocations.thy ===== *)
theory Revocations
  imports Containers JavaText Store
begin

text \<open>
  The denylist: \<open>model/Revocation.java\<close> and \<open>service/RevocationService.java\<close>, a
  \<open>LinkedHashMap\<close> by token id that drops an entry once the revoked token's own expiry lies
  in the past. Every method first or last prunes; the clock reading of each is an argument.
\<close>

section \<open>model/Revocation.java\<close>

record Revocation =
  rv_jti :: jstring
  rv_revokedAt :: long
  rv_expiresAt :: long
  rv_reason :: "jstring option"

section \<open>service/RevocationService.java\<close>

record RevocationService =
  rs_byJti :: "(jstring, Revocation) linked_map"
  rs_store :: "Revocation list cell"

definition RevocationService_new :: "Revocation list cell \<Rightarrow> exn + RevocationService" where
  "RevocationService_new store =
     (if cell_exists store then
        and_then (cell_load store) (\<lambda>revocations.
          Inr \<lparr>rs_byJti = lhm_load rv_jti revocations, rs_store = store\<rparr>)
      else Inr \<lparr>rs_byJti = [], rs_store = store\<rparr>)"

definition RevocationService_prune :: "long \<Rightarrow> RevocationService \<Rightarrow> RevocationService" where
  "RevocationService_prune now s =
     s\<lparr>rs_byJti := lhm_remove_if (\<lambda>revocation. rv_expiresAt revocation <s now) (rs_byJti s)\<rparr>"

definition RevocationService_persist ::
  "outcome \<Rightarrow> RevocationService \<Rightarrow> (exn + unit) \<times> RevocationService" where
  "RevocationService_persist out s =
     (let (r, c) = cell_save out (lhm_values (rs_byJti s)) (rs_store s)
      in (r, s\<lparr>rs_store := c\<rparr>))"

text \<open>\<open>revoke\<close> reads the clock twice: for the time stamp and in \<open>prune\<close>.\<close>

definition RevocationService_revoke ::
  "long \<Rightarrow> long \<Rightarrow> outcome \<Rightarrow> jstring option \<Rightarrow> long \<Rightarrow> jstring option \<Rightarrow> RevocationService
   \<Rightarrow> (exn + Revocation) \<times> RevocationService" where
  "RevocationService_revoke now pruned out jti expiresAt reason s =
     (case jti of
        None \<Rightarrow> (Inl (IllegalArgumentException (js ''jti must not be blank'')), s)
      | Some j \<Rightarrow>
          if is_blank j then (Inl (IllegalArgumentException (js ''jti must not be blank'')), s)
          else
            (let revocation = \<lparr>rv_jti = j, rv_revokedAt = now, rv_expiresAt = expiresAt,
                   rv_reason = reason\<rparr>;
                 s1 = s\<lparr>rs_byJti := lhm_put j revocation (rs_byJti s)\<rparr>;
                 s2 = RevocationService_prune pruned s1
             in case RevocationService_persist out s2 of
                  (Inl e, s3) \<Rightarrow> (Inl e, s3)
                | (Inr _, s3) \<Rightarrow> (Inr revocation, s3)))"

definition RevocationService_isRevoked ::
  "long \<Rightarrow> jstring option \<Rightarrow> RevocationService \<Rightarrow> bool \<times> RevocationService" where
  "RevocationService_isRevoked now jti s =
     (let s1 = RevocationService_prune now s
      in (case jti of None \<Rightarrow> False | Some j \<Rightarrow> lhm_get (rs_byJti s1) j \<noteq> None, s1))"

definition RevocationService_activeDenylist ::
  "long \<Rightarrow> RevocationService \<Rightarrow> Revocation list \<times> RevocationService" where
  "RevocationService_activeDenylist now s =
     (let s1 = RevocationService_prune now s in (lhm_values (rs_byJti s1), s1))"

section \<open>The denylist invariant\<close>

definition revocations_inv :: "RevocationService \<Rightarrow> bool" where
  "revocations_inv s \<longleftrightarrow> lhm_keyed rv_jti (rs_byJti s)"

interpretation denylist: keyed_registry
  "[]" lhm_put lhm_remove lhm_get lhm_values lhm_ok rv_jti
  by unfold_locales

named_theorems revocation_ops

lemmas revocation_op_defs [revocation_ops] =
  RevocationService_revoke_def RevocationService_persist_def RevocationService_prune_def
  RevocationService_isRevoked_def RevocationService_activeDenylist_def

lemma revocations_inv_ok: "revocations_inv s \<Longrightarrow> lhm_ok (rs_byJti s)"
  by (auto simp: revocations_inv_def intro: lhm_keyed_ok)

lemma revocations_inv_prune: "revocations_inv s \<Longrightarrow> revocations_inv (RevocationService_prune t s)"
  by (simp add: revocations_inv_def RevocationService_prune_def lhm_keyed_remove_if)

lemma new_revocations_inv: "RevocationService_new c = Inr s \<Longrightarrow> revocations_inv s"
  by (auto simp: RevocationService_new_def revocations_inv_def and_then_Inr_iff lhm_keyed_load
      split: if_splits)

lemma get_prune:
  "revocations_inv s \<Longrightarrow> lhm_get (rs_byJti (RevocationService_prune t s)) j =
     (case lhm_get (rs_byJti s) j of None \<Rightarrow> None
      | Some v \<Rightarrow> if rv_expiresAt v <s t then None else Some v)"
  by (simp add: RevocationService_prune_def lhm_get_remove_if revocations_inv_ok)

text \<open>An entry that a later pruning keeps was kept by an earlier one.\<close>

lemma prune_prune:
  "t1 \<le>s t2 \<Longrightarrow>
     rs_byJti (RevocationService_prune t2 (RevocationService_prune t1 s)) =
     rs_byJti (RevocationService_prune t2 s)"
  by (simp add: RevocationService_prune_def)
     (rule lhm_remove_if_idem, simp add: word_sless_alt word_sle_eq)

lemma revocations_persist [simp]:
  "rs_byJti (snd (RevocationService_persist out s)) = rs_byJti s"
  "revocations_inv (snd (RevocationService_persist out s)) = revocations_inv s"
  by (cases out; simp add: RevocationService_persist_def revocations_inv_def)+

lemma revoke_cases:
  assumes "RevocationService_revoke now pruned out jti ex why s = (r, s')"
  obtains (blank) "\<And>j. jti = Some j \<Longrightarrow> is_blank j" and "s' = s"
      and "r = Inl (IllegalArgumentException (js ''jti must not be blank''))"
    | (puts) j v where "jti = Some j" and "\<not> is_blank j"
      and "v = \<lparr>rv_jti = j, rv_revokedAt = now, rv_expiresAt = ex, rv_reason = why\<rparr>"
      and "rs_byJti s' = rs_byJti (RevocationService_prune pruned
             (s\<lparr>rs_byJti := lhm_put j v (rs_byJti s)\<rparr>))"
      and "out = Saved \<Longrightarrow> rs_store s' = Doc (lhm_values (rs_byJti s'))"
      and "r = (if out = Saved then Inr v else Inl save_error)"
proof (cases "\<exists>j. jti = Some j \<and> \<not> is_blank j")
  case True
  then obtain j where j: "jti = Some j" "\<not> is_blank j" by blast
  show ?thesis
    by (rule puts [OF j refl])
       (use assms j in \<open>cases out; auto simp: revocation_ops Let_def\<close>)+
next
  case False
  with assms show ?thesis
    by (intro blank) (auto simp: RevocationService_revoke_def split: option.splits if_splits)
qed

lemma revoke_inv:
  assumes inv: "revocations_inv s"
    and rev: "RevocationService_revoke now pruned out jti ex why s = (r, s')"
  shows "revocations_inv s'"
  using rev
proof (cases rule: revoke_cases)
  case (puts j v)
  have "revocations_inv (s\<lparr>rs_byJti := lhm_put j v (rs_byJti s)\<rparr>)"
    using inv by (simp add: revocations_inv_def lhm_keyed_put puts(3))
  from revocations_inv_prune [OF this, of pruned] puts(4) show ?thesis
    by (simp add: revocations_inv_def)
qed (use inv in simp)

text \<open>What a revocation does to the lookups, as seen at a later time \<open>t\<close>.\<close>

lemma revoke_lookup:
  assumes inv: "revocations_inv s"
    and rev: "RevocationService_revoke now pruned out (Some j) ex why s = (r, s')"
    and nb: "\<not> is_blank j" and t: "pruned \<le>s t"
  shows "fst (RevocationService_isRevoked t (Some j) s') \<longleftrightarrow> t \<le>s ex"
    and "k \<noteq> j \<Longrightarrow> fst (RevocationService_isRevoked t (Some k) s') =
           fst (RevocationService_isRevoked t (Some k) s)"
proof -
  from rev nb obtain v where
    v: "v = \<lparr>rv_jti = j, rv_revokedAt = now, rv_expiresAt = ex, rv_reason = why\<rparr>" and
    s': "rs_byJti s' = rs_byJti (RevocationService_prune pruned
           (s\<lparr>rs_byJti := lhm_put j v (rs_byJti s)\<rparr>))"
    by (elim revoke_cases) auto
  let ?p = "s\<lparr>rs_byJti := lhm_put j v (rs_byJti s)\<rparr>"
  have pinv: "revocations_inv ?p"
    using inv by (simp add: revocations_inv_def lhm_keyed_put v)
  have "rs_byJti (RevocationService_prune t s') =
      rs_byJti (RevocationService_prune t (RevocationService_prune pruned ?p))"
    using s' by (simp add: RevocationService_prune_def)
  then have eq: "rs_byJti (RevocationService_prune t s') = rs_byJti (RevocationService_prune t ?p)"
    by (simp only: prune_prune [OF t])
  have look: "fst (RevocationService_isRevoked t (Some i) s') \<longleftrightarrow>
      lhm_get (rs_byJti (RevocationService_prune t ?p)) i \<noteq> None" for i
    by (simp add: RevocationService_isRevoked_def Let_def eq)
  have g: "lhm_get (rs_byJti (RevocationService_prune t ?p)) i =
      (case lhm_get (lhm_put j v (rs_byJti s)) i of None \<Rightarrow> None
       | Some v \<Rightarrow> if rv_expiresAt v <s t then None else Some v)" for i
    using get_prune [OF pinv, of t i] by simp
  have vex: "rv_expiresAt v = ex" by (simp add: v)
  show "fst (RevocationService_isRevoked t (Some j) s') \<longleftrightarrow> t \<le>s ex"
    unfolding look g lhm.get_put_same [OF revocations_inv_ok [OF inv]]
    by (simp add: vex word_sless_alt word_sle_eq not_less)
  show "fst (RevocationService_isRevoked t (Some k) s') =
      fst (RevocationService_isRevoked t (Some k) s)" if "k \<noteq> j"
    unfolding look g lhm.get_put_other [OF revocations_inv_ok [OF inv] that]
    by (simp add: get_prune [OF inv] RevocationService_isRevoked_def Let_def)
qed

lemma restart_revocations:
  "revocations_inv s \<Longrightarrow> RevocationService_new (Doc (lhm_values (rs_byJti s))) =
     Inr \<lparr>rs_byJti = rs_byJti s, rs_store = Doc (lhm_values (rs_byJti s))\<rparr>"
  by (simp add: RevocationService_new_def revocations_inv_def lhm_load_values)

interpretation revocations_restart: restartable revocations_inv "\<lambda>s. lhm_values (rs_byJti s)"
  RevocationService_new "\<lambda>s s'. rs_byJti s' = rs_byJti s"
  by unfold_locales (simp add: restart_revocations)

section \<open>Properties\<close>

text \<open>
  Revoking a token makes it revoked at once and up to and including the expiry recorded
  with it, at whatever later moment it is looked up and whether or not the file could be
  written; no other token's status changes.
\<close>

lemma revoked_until_expiry:
  assumes "revocations_inv s" and "\<not> is_blank j" and "sint pruned \<le> sint t"
    and "RevocationService_revoke now pruned out (Some j) ex why s = (r, s')"
  shows "(fst (RevocationService_isRevoked t (Some j) s') \<longleftrightarrow> sint t \<le> sint ex)
     \<and> (\<forall>k. k \<noteq> j \<longrightarrow> fst (RevocationService_isRevoked t (Some k) s') =
                        fst (RevocationService_isRevoked t (Some k) s))"
proof -
  have "pruned \<le>s t" using assms(3) by (simp add: word_sle_eq)
  from revoke_lookup [OF assms(1,4,2) this] show ?thesis by (simp add: word_sle_eq)
qed

definition demo_denylist :: RevocationService where
  "demo_denylist = \<lparr>rs_byJti = [], rs_store = Absent\<rparr>"

lemma demo_denylist_inv: "revocations_inv demo_denylist"
  by (simp add: revocations_inv_def demo_denylist_def)

lemma revoked_until_expiry_example:
  "fst (RevocationService_isRevoked 500 (Some (js ''t1''))
     (snd (RevocationService_revoke 100 101 NotSaved (Some (js ''t1'')) 500 None demo_denylist)))"
proof -
  obtain r s' where
    e: "RevocationService_revoke 100 101 NotSaved (Some (js ''t1'')) 500 None demo_denylist = (r, s')"
    by (rule prod.exhaust)
  have "\<not> is_blank (js ''t1'')" by code_simp
  from revoked_until_expiry [OF demo_denylist_inv this _ e, of 500] e show ?thesis by simp
qed

text \<open>
  The denylist a verifier polls and the in-process check agree: a token id is reported
  revoked exactly when an entry for it is on the list served at the same moment, and every
  served entry is unexpired.
\<close>

lemma denylist_agrees_with_check:
  assumes "revocations_inv s"
  shows "(fst (RevocationService_isRevoked t (Some j) s) \<longleftrightarrow>
            j \<in> rv_jti ` set (fst (RevocationService_activeDenylist t s)))
     \<and> list_all (\<lambda>v. sint t \<le> sint (rv_expiresAt v)) (fst (RevocationService_activeDenylist t s))"
proof
  let ?m = "rs_byJti (RevocationService_prune t s)"
  have pk: "lhm_keyed rv_jti ?m"
    using revocations_inv_prune [OF assms] by (simp add: revocations_inv_def)
  note lhm_keyed_dom [OF this, of j]
  then show "fst (RevocationService_isRevoked t (Some j) s) \<longleftrightarrow>
      j \<in> rv_jti ` set (fst (RevocationService_activeDenylist t s))"
    by (simp add: RevocationService_isRevoked_def RevocationService_activeDenylist_def Let_def)
  show "list_all (\<lambda>v. sint t \<le> sint (rv_expiresAt v)) (fst (RevocationService_activeDenylist t s))"
    by (auto simp: RevocationService_activeDenylist_def RevocationService_prune_def Let_def
        list_all_iff lhm_values_remove_if word_sless_alt)
qed

lemma denylist_agrees_with_check_example:
  "\<not> fst (RevocationService_isRevoked 5 (Some (js ''t1'')) demo_denylist)"
  using denylist_agrees_with_check [OF demo_denylist_inv, of 5 "js ''t1''"]
  by (simp add: RevocationService_activeDenylist_def RevocationService_prune_def demo_denylist_def
      lhm_defs)

end
