(* ===== verification/AuditLog.thy ===== *)
theory AuditLog
  imports Store
begin

text \<open>
  The audit log: \<open>model/AuditEntry.java\<close> and \<open>service/AuditService.java\<close>, an append-only list
  rewritten to \<open>audit.json\<close> at each append.
\<close>

section \<open>model/AuditEntry.java\<close>

record AuditEntry =
  ae_at :: long
  ae_event :: jstring
  ae_clientId :: "jstring option"
  ae_detail :: "jstring option"

section \<open>service/AuditService.java\<close>

record AuditService =
  au_entries :: "AuditEntry list"
  au_store :: "AuditEntry list cell"

definition AuditService_new :: "AuditEntry list cell \<Rightarrow> exn + AuditService" where
  "AuditService_new store =
     (if cell_exists store then
        and_then (cell_load store) (\<lambda>es. Inr \<lparr>au_entries = es, au_store = store\<rparr>)
      else Inr \<lparr>au_entries = [], au_store = store\<rparr>)"

definition AuditService_record ::
  "long \<Rightarrow> outcome \<Rightarrow> jstring \<Rightarrow> jstring option \<Rightarrow> jstring option \<Rightarrow> AuditService
   \<Rightarrow> (exn + unit) \<times> AuditService" where
  "AuditService_record now out event clientId detail s =
     (let es = au_entries s @ [\<lparr>ae_at = now, ae_event = event, ae_clientId = clientId,
                 ae_detail = detail\<rparr>];
          (r, c) = cell_save out es (au_store s)
      in (r, \<lparr>au_entries = es, au_store = c\<rparr>))"

definition AuditService_list :: "AuditService \<Rightarrow> AuditEntry list" where
  "AuditService_list s = au_entries s"

lemma record_entries:
  assumes "AuditService_record now out ev cid det s = (r, s')"
  shows "au_entries s' = au_entries s @ [\<lparr>ae_at = now, ae_event = ev, ae_clientId = cid, ae_detail = det\<rparr>]"
    and "r = (if out = Saved then Inr () else Inl save_error)"
    and "out \<noteq> NotSaved \<Longrightarrow> au_store s' = Doc (au_entries s')"
    and "out = NotSaved \<Longrightarrow> au_store s' = au_store s"
  using assms by (cases out; force simp: AuditService_record_def Let_def)+

interpretation audit_restart: restartable "\<lambda>_. True" au_entries AuditService_new
  "\<lambda>s s'. au_entries s' = au_entries s"
  by unfold_locales (simp add: AuditService_new_def)

end
