(* ===== verification/Config.thy ===== *)
theory Config
  imports JavaText Secrets Store
begin

text \<open>
  Start-up configuration: \<open>server/ServerConfig.java\<close> and the admin-token lookup of
  \<open>server/ServerMain.java\<close>. The environment is a map of strings. \<open>Paths.get\<close> depends on the
  platform and is the parameter \<open>paths_get\<close>; \<open>userHome\<close> stands for
  \<open>System.getProperty("user.home", ".")\<close>.
\<close>

section \<open>server/ServerConfig.java\<close>

record ServerConfig =
  sc_host :: jstring
  sc_port :: jint
  sc_issuer :: jstring
  sc_audience :: jstring
  sc_tokenTtl :: long
  sc_dataDir :: path
  sc_adminTokenFilePath :: "path option"
  sc_argonSettings :: Argon2Settings

definition DEFAULT_HOST :: jstring where "DEFAULT_HOST = js ''127.0.0.1''"
definition DEFAULT_PORT :: jint where "DEFAULT_PORT = 8455"
definition DEFAULT_AUDIENCE :: jstring where "DEFAULT_AUDIENCE = js ''mini-kms''"
definition DEFAULT_TOKEN_TTL_SECONDS :: jint where "DEFAULT_TOKEN_TTL_SECONDS = 300"

type_synonym env = "jstring \<Rightarrow> jstring option"

text \<open>The local variables of \<open>resolve\<close>.\<close>

record Settings =
  st_host :: "jstring option"
  st_port :: "jint option"
  st_issuer :: "jstring option"
  st_audience :: "jstring option"
  st_ttlSeconds :: "jint option"
  st_dataDir :: "jstring option"
  st_adminTokenFile :: "jstring option"
  st_argonMemory :: "jint option"
  st_argonIterations :: "jint option"
  st_argonParallelism :: "jint option"

definition envInt :: "env \<Rightarrow> string \<Rightarrow> exn + jint option" where
  "envInt env key =
     (case env (js key) of
        None \<Rightarrow> Inr None
      | Some value' \<Rightarrow> and_then (parse_int (java_trim value')) (\<lambda>i. Inr (Some i)))"

definition env_settings :: "env \<Rightarrow> exn + Settings" where
  "env_settings env =
     and_then (envInt env ''MINIIDP_PORT'') (\<lambda>port.
     and_then (envInt env ''MINIIDP_TOKEN_TTL_SECONDS'') (\<lambda>ttl.
     and_then (envInt env ''MINIIDP_ARGON_MEMORY_KIB'') (\<lambda>memory.
     and_then (envInt env ''MINIIDP_ARGON_ITERATIONS'') (\<lambda>iterations.
     and_then (envInt env ''MINIIDP_ARGON_PARALLELISM'') (\<lambda>parallelism.
       Inr \<lparr>st_host = env (js ''MINIIDP_HOST''), st_port = port,
            st_issuer = env (js ''MINIIDP_ISSUER''), st_audience = env (js ''MINIIDP_AUDIENCE''),
            st_ttlSeconds = ttl, st_dataDir = env (js ''MINIIDP_DATA_DIR''),
            st_adminTokenFile = env (js ''MINIIDP_ADMIN_TOKEN_FILE''),
            st_argonMemory = memory, st_argonIterations = iterations,
            st_argonParallelism = parallelism\<rparr>)))))"

text \<open>The assignment of one flag; \<open>None\<close> for an argument the switch does not know.\<close>

definition assign_flag :: "jstring \<Rightarrow> (jstring \<Rightarrow> Settings \<Rightarrow> exn + Settings) option" where
  "assign_flag arg =
     (if arg = js ''--host'' then Some (\<lambda>v s. Inr (s\<lparr>st_host := Some v\<rparr>))
      else if arg = js ''--port'' then
        Some (\<lambda>v s. and_then (parse_int v) (\<lambda>i. Inr (s\<lparr>st_port := Some i\<rparr>)))
      else if arg = js ''--issuer'' then Some (\<lambda>v s. Inr (s\<lparr>st_issuer := Some v\<rparr>))
      else if arg = js ''--audience'' then Some (\<lambda>v s. Inr (s\<lparr>st_audience := Some v\<rparr>))
      else if arg = js ''--token-ttl-seconds'' then
        Some (\<lambda>v s. and_then (parse_int v) (\<lambda>i. Inr (s\<lparr>st_ttlSeconds := Some i\<rparr>)))
      else if arg = js ''--data-dir'' then Some (\<lambda>v s. Inr (s\<lparr>st_dataDir := Some v\<rparr>))
      else if arg = js ''--admin-token-file'' then
        Some (\<lambda>v s. Inr (s\<lparr>st_adminTokenFile := Some v\<rparr>))
      else if arg = js ''--argon-memory-kib'' then
        Some (\<lambda>v s. and_then (parse_int v) (\<lambda>i. Inr (s\<lparr>st_argonMemory := Some i\<rparr>)))
      else if arg = js ''--argon-iterations'' then
        Some (\<lambda>v s. and_then (parse_int v) (\<lambda>i. Inr (s\<lparr>st_argonIterations := Some i\<rparr>)))
      else if arg = js ''--argon-parallelism'' then
        Some (\<lambda>v s. and_then (parse_int v) (\<lambda>i. Inr (s\<lparr>st_argonParallelism := Some i\<rparr>)))
      else None)"

fun parse_args :: "jstring list \<Rightarrow> Settings \<Rightarrow> exn + Settings" where
  "parse_args [] s = Inr s"
| "parse_args (arg # rest) s =
     (case assign_flag arg of
        None \<Rightarrow> Inl (IllegalArgumentException (js ''unknown argument: '' @ arg))
      | Some assign \<Rightarrow>
          (case rest of
             [] \<Rightarrow> Inl (IllegalArgumentException (js ''flag '' @ arg @ js '' requires a value''))
           | v # rest' \<Rightarrow> and_then (assign v s) (parse_args rest')))"

definition stripTrailingSlash :: "jstring \<Rightarrow> jstring" where
  "stripTrailingSlash url = (if url \<noteq> [] \<and> last url = 47 then butlast url else url)"

definition defaultDataDir :: "(jstring list \<Rightarrow> exn + path) \<Rightarrow> jstring \<Rightarrow> env \<Rightarrow> exn + path" where
  "defaultDataDir paths_get userHome env =
     (case env (js ''XDG_DATA_HOME'') of
        Some xdg \<Rightarrow>
          if \<not> is_blank xdg then paths_get [xdg, js ''mini-idp'']
          else paths_get [case env (js ''HOME'') of None \<Rightarrow> userHome | Some h \<Rightarrow> h, js ''.mini-idp'']
      | None \<Rightarrow>
          paths_get [case env (js ''HOME'') of None \<Rightarrow> userHome | Some h \<Rightarrow> h, js ''.mini-idp''])"

definition or_default :: "'a option \<Rightarrow> 'a \<Rightarrow> 'a" where
  "or_default x d = (case x of None \<Rightarrow> d | Some y \<Rightarrow> y)"

definition text_or_default :: "jstring option \<Rightarrow> jstring \<Rightarrow> jstring" where
  "text_or_default x d = (case x of None \<Rightarrow> d | Some y \<Rightarrow> if is_blank y then d else y)"

definition resolve_issuer :: "jstring option \<Rightarrow> jstring \<Rightarrow> jint \<Rightarrow> jstring" where
  "resolve_issuer issuer host port =
     (case issuer of
        Some url \<Rightarrow> if \<not> is_blank url then stripTrailingSlash url
                    else js ''http://'' @ host @ js '':'' @ int_string (sint port)
      | None \<Rightarrow> js ''http://'' @ host @ js '':'' @ int_string (sint port))"

definition resolve ::
  "(jstring list \<Rightarrow> exn + path) \<Rightarrow> jstring \<Rightarrow> jstring list \<Rightarrow> env \<Rightarrow> exn + ServerConfig" where
  "resolve paths_get userHome args env =
     and_then (env_settings env) (\<lambda>defaults.
     and_then (parse_args args defaults) (\<lambda>s.
       (let resolvedHost = text_or_default (st_host s) DEFAULT_HOST;
            resolvedPort = or_default (st_port s) DEFAULT_PORT
        in if resolvedPort <s 0 \<or> 65535 <s resolvedPort then
             Inl (IllegalArgumentException (js ''port must be in 0..65535''))
           else
             (let resolvedAudience = text_or_default (st_audience s) DEFAULT_AUDIENCE;
                  resolvedTtl = or_default (st_ttlSeconds s) DEFAULT_TOKEN_TTL_SECONDS
              in if resolvedTtl <s 1 then
                   Inl (IllegalArgumentException (js ''token TTL must be at least 1 second''))
                 else
                   and_then (case st_dataDir s of Some d \<Rightarrow> paths_get [d]
                             | None \<Rightarrow> defaultDataDir paths_get userHome env) (\<lambda>dataDir.
                   and_then (case st_adminTokenFile s of
                               Some f \<Rightarrow> and_then (paths_get [f]) (\<lambda>p. Inr (Some p))
                             | None \<Rightarrow> Inr None) (\<lambda>adminTokenFilePath.
                   and_then (mk_Argon2Settings (or_default (st_argonMemory s) DEFAULT_MEMORY_KIB)
                               (or_default (st_argonIterations s) DEFAULT_ITERATIONS)
                               (or_default (st_argonParallelism s) DEFAULT_PARALLELISM)) (\<lambda>argon.
                     Inr \<lparr>sc_host = resolvedHost, sc_port = resolvedPort,
                          sc_issuer = resolve_issuer (st_issuer s) resolvedHost resolvedPort,
                          sc_audience = resolvedAudience, sc_tokenTtl = scast resolvedTtl,
                          sc_dataDir = dataDir, sc_adminTokenFilePath = adminTokenFilePath,
                          sc_argonSettings = argon\<rparr>)))))))"

definition retiredKeyRetention :: "ServerConfig \<Rightarrow> long" where
  "retiredKeyRetention c = sc_tokenTtl c * 2"

definition tokenEndpoint :: "ServerConfig \<Rightarrow> jstring" where
  "tokenEndpoint c = sc_issuer c @ js ''/oauth/token''"

definition jwksUri :: "ServerConfig \<Rightarrow> jstring" where
  "jwksUri c = sc_issuer c @ js ''/.well-known/jwks.json''"

section \<open>The admin token of server/ServerMain.java\<close>

text \<open>
  \<open>tokenFile\<close> is the configured file with what reading it gives: \<open>None\<close> for an \<open>IOException\<close>
  (a malformed UTF-8 file included), else its text.
\<close>

definition resolveAdminToken ::
  "env \<Rightarrow> jstring option option \<Rightarrow> exn + jstring" where
  "resolveAdminToken env tokenFile =
     (case (case env (js ''MINIIDP_ADMIN_TOKEN'') of
              Some t \<Rightarrow> if is_blank t then None else Some (java_trim t)
            | None \<Rightarrow> None) of
        Some t \<Rightarrow> Inr t
      | None \<Rightarrow>
          (case tokenFile of
             Some None \<Rightarrow> Inl (IOException (js ''I/O error''))
           | Some (Some text) \<Rightarrow>
               if java_strip text \<noteq> [] then Inr (java_strip text)
               else Inl (IllegalStateException (js ''no admin token configured''))
           | None \<Rightarrow> Inl (IllegalStateException (js ''no admin token configured''))))"

section \<open>What resolution guarantees\<close>

definition wf_config :: "ServerConfig \<Rightarrow> bool" where
  "wf_config c \<longleftrightarrow> 0 \<le> sint (sc_port c) \<and> sint (sc_port c) \<le> 65535
     \<and> 1 \<le> sint (sc_tokenTtl c) \<and> sint (sc_tokenTtl c) < 2 ^ 31
     \<and> wf_settings (sc_argonSettings c) \<and> \<not> is_blank (sc_host c) \<and> \<not> is_blank (sc_audience c)"

lemma sint_scast_int: "sint (scast (x :: jint) :: long) = sint x"
proof -
  have "- (2 ^ 63) \<le> sint x" "sint x < 2 ^ 63"
    using sint_ge [of x] sint_lt [of x] by simp_all
  then show ?thesis
    by (simp add: signed_scast_eq signed_take_bit_int_eq_self)
qed

lemma retention_sint:
  assumes "1 \<le> sint (sc_tokenTtl c)" and "sint (sc_tokenTtl c) < 2 ^ 31"
  shows "sint (retiredKeyRetention c) = 2 * sint (sc_tokenTtl c)"
proof -
  have "sint (sc_tokenTtl c * 2) = sint (sc_tokenTtl c + sc_tokenTtl c)"
    by (simp only: mult_2_right)
  also have "\<dots> = sint (sc_tokenTtl c) + sint (sc_tokenTtl c)"
    using assms by (intro sint_long_add) simp_all
  finally show ?thesis by (simp add: retiredKeyRetention_def)
qed

lemma text_or_default_not_blank: "\<not> is_blank d \<Longrightarrow> \<not> is_blank (text_or_default x d)"
  by (simp add: text_or_default_def split: option.split)

lemma resolve_wf:
  assumes "resolve pg uh args env = Inr c"
  shows "wf_config c"
proof -
  have "\<not> is_blank DEFAULT_HOST" "\<not> is_blank DEFAULT_AUDIENCE"
    by (simp_all add: DEFAULT_HOST_def DEFAULT_AUDIENCE_def js_def is_blank_def is_whitespace_def)
  with assms show ?thesis
    by (auto simp: resolve_def and_then_Inr_iff Let_def wf_config_def text_or_default_not_blank
        word_sless_alt sint_scast_int mk_Argon2Settings_Inr_iff split: if_splits)
       (use sint_lt [where 'a = 32] in \<open>simp_all\<close>)
qed

text \<open>The setting that a flag's last occurrence leaves.\<close>

lemma parse_args_snoc:
  "parse_args (args @ [flag, v]) s = Inr s' \<Longrightarrow>
     \<exists>s0 assign. parse_args args s = Inr s0 \<and> assign_flag flag = Some assign \<and> assign v s0 = Inr s'"
proof (induction args s rule: parse_args.induct)
  case (2 arg rest s)
  then obtain assign where a: "assign_flag arg = Some assign" by (cases "assign_flag arg") auto
  show ?case
  proof (cases rest)
    case Nil
    with 2(2) a have "parse_args [v] s' = parse_args [v] s'"
      and "\<exists>x. and_then (assign flag s) (parse_args [v]) = Inr s'" by auto
    then show ?thesis
      by (auto simp: and_then_Inr_iff split: option.splits)
  next
    case (Cons w rest')
    with 2 a show ?thesis by (fastforce simp: and_then_Inr_iff)
  qed
qed (auto simp: and_then_Inr_iff split: option.splits)

lemma resolve_settings:
  assumes "resolve pg uh args env = Inr c"
  obtains d s where "env_settings env = Inr d" and "parse_args args d = Inr s"
    and "sc_port c = or_default (st_port s) DEFAULT_PORT"
    and "sc_tokenTtl c = scast (or_default (st_ttlSeconds s) DEFAULT_TOKEN_TTL_SECONDS)"
    and "sc_host c = text_or_default (st_host s) DEFAULT_HOST"
    and "sc_audience c = text_or_default (st_audience s) DEFAULT_AUDIENCE"
    and "sc_issuer c = resolve_issuer (st_issuer s) (sc_host c) (sc_port c)"
  using assms
  by (auto simp: resolve_def and_then_Inr_iff Let_def split: if_splits)

section \<open>Properties\<close>

definition demo_paths :: "jstring list \<Rightarrow> exn + path" where
  "demo_paths xs = Inr xs"

definition demo_config :: ServerConfig where
  "demo_config =
     \<lparr>sc_host = js ''127.0.0.1'', sc_port = 9000, sc_issuer = js ''https://idp'',
      sc_audience = js ''mini-kms'', sc_tokenTtl = 300,
      sc_dataDir = [js ''/root'', js ''.mini-idp''], sc_adminTokenFilePath = None,
      sc_argonSettings = \<lparr>as_memoryKiB = 65536, as_iterations = 3, as_parallelism = 1\<rparr>\<rparr>"

lemma demo_resolve:
  "resolve demo_paths (js ''/root'') [js ''--port'', js ''9000'', js ''--issuer'', js ''https://idp/'']
     (\<lambda>_. None) = Inr demo_config"
  by code_simp

text \<open>
  Flags beat the environment and the last flag wins: when an accepted command line ends
  in a \<open>--port\<close> or \<open>--token-ttl-seconds\<close> flag, that value is in force whatever comes before
  and whatever the environment holds.
\<close>

lemma last_flag_wins:
  "(resolve pg uh (args @ [js ''--port'', v]) env = Inr c \<longrightarrow> parse_int v = Inr (sc_port c))
   \<and> (resolve pg uh (args @ [js ''--token-ttl-seconds'', v]) env = Inr c \<longrightarrow>
        (\<exists>i. parse_int v = Inr i \<and> sc_tokenTtl c = scast i))"
proof (intro conjI impI)
  assume "resolve pg uh (args @ [js ''--port'', v]) env = Inr c"
  then obtain d s where "parse_args (args @ [js ''--port'', v]) d = Inr s"
    "sc_port c = or_default (st_port s) DEFAULT_PORT" by (rule resolve_settings)
  then show "parse_int v = Inr (sc_port c)"
    by (auto dest!: parse_args_snoc simp: assign_flag_def and_then_Inr_iff or_default_def)
next
  assume "resolve pg uh (args @ [js ''--token-ttl-seconds'', v]) env = Inr c"
  then obtain d s where "parse_args (args @ [js ''--token-ttl-seconds'', v]) d = Inr s"
    "sc_tokenTtl c = scast (or_default (st_ttlSeconds s) DEFAULT_TOKEN_TTL_SECONDS)"
    by (rule resolve_settings)
  then show "\<exists>i. parse_int v = Inr i \<and> sc_tokenTtl c = scast i"
    by (auto dest!: parse_args_snoc simp: assign_flag_def and_then_Inr_iff or_default_def)
qed

lemma last_flag_wins_example:
  "parse_int (js ''9000'') = Inr (9000 :: jint)"
proof -
  have "resolve demo_paths (js ''/root'')
      ([js ''--issuer'', js ''https://idp/'', js ''--port'', js ''1''] @ [js ''--port'', js ''9000''])
      (\<lambda>_. None) = Inr demo_config"
    by code_simp
  from last_flag_wins [THEN conjunct1, THEN mp, OF this] show ?thesis by (simp add: demo_config_def)
qed

end
