(* ===== verification/Http.thy ===== *)
theory Http
  imports Encodings JsonTree
begin

text \<open>
  The HTTP layer under \<open>server/http\<close>: the API exceptions, responses, JSON bodies, the
  request view with its form parser, and the router. The router is generic in what a route
  runs; exceptions thrown by a handler are turned into responses here, and the state changes
  a handler made before it threw stay.
\<close>

section \<open>http/ApiException.java\<close>

definition badRequest :: "jstring \<Rightarrow> exn" where
  "badRequest description = ApiException 400 (js ''invalid_request'') description"

definition invalidClient :: exn where
  "invalidClient = ApiException 401 (js ''invalid_client'') (js ''client authentication failed'')"

definition unauthorized :: exn where
  "unauthorized = ApiException 401 (js ''unauthorized'') (js ''admin authentication required'')"

definition notFound :: "jstring \<Rightarrow> exn" where
  "notFound description = ApiException 404 (js ''not_found'') description"

section \<open>http/HttpResponse.java and http/Json.java\<close>

record HttpResponse =
  hr_status :: jint
  hr_contentType :: jstring
  hr_body :: "byte list"

text \<open>The shared mapper: \<open>None\<close> is its \<open>JsonProcessingException\<close>.\<close>

type_synonym json_writer = "json \<Rightarrow> byte list option"

definition Json_toBytes :: "json_writer \<Rightarrow> json \<Rightarrow> exn + byte list" where
  "Json_toBytes w v =
     of_option (IllegalStateException (js ''failed to serialize response'')) (w v)"

text \<open>\<open>reader\<close> is \<open>readValue\<close>: \<open>None\<close> an \<open>IOException\<close>, \<open>Some None\<close> the Java \<open>null\<close>.\<close>

definition Json_parse :: "(byte list \<Rightarrow> 'a option option) \<Rightarrow> byte list \<Rightarrow> exn + 'a option" where
  "Json_parse reader body =
     (if body = [] then Inl (badRequest (js ''request body is required''))
      else of_option (badRequest (js ''malformed JSON request body'')) (reader body))"

definition HttpResponse_json :: "json_writer \<Rightarrow> jint \<Rightarrow> json \<Rightarrow> exn + HttpResponse" where
  "HttpResponse_json w status v =
     and_then (Json_toBytes w v) (\<lambda>b.
       Inr \<lparr>hr_status = status, hr_contentType = js ''application/json'', hr_body = b\<rparr>)"

definition HttpResponse_noContent :: HttpResponse where
  "HttpResponse_noContent =
     \<lparr>hr_status = 204, hr_contentType = js ''application/json'', hr_body = []\<rparr>"

definition HttpResponse_raw :: "jint \<Rightarrow> jstring \<Rightarrow> byte list \<Rightarrow> HttpResponse" where
  "HttpResponse_raw status contentType body =
     \<lparr>hr_status = status, hr_contentType = contentType, hr_body = body\<rparr>"

definition HttpResponse_text :: "jint \<Rightarrow> jstring \<Rightarrow> jstring \<Rightarrow> HttpResponse" where
  "HttpResponse_text status contentType body =
     \<lparr>hr_status = status, hr_contentType = contentType, hr_body = utf8_encode body\<rparr>"

section \<open>http/RequestContext.java\<close>

text \<open>
  What the JDK's exchange supplies: the method, the decoded path, the first value of each
  header (names ignore case) and the body, \<open>None\<close> when reading it fails.
\<close>

record Request =
  rq_method :: jstring
  rq_path :: jstring
  rq_header :: "jstring \<Rightarrow> jstring option"
  rq_body :: "byte list option"

record RequestContext =
  rc_request :: Request
  rc_pathParams :: "jstring \<Rightarrow> jstring option"

definition RequestContext_body :: "RequestContext \<Rightarrow> exn + byte list" where
  "RequestContext_body ctx =
     of_option (UncheckedIOException (js ''request body'')) (rq_body (rc_request ctx))"

definition form_pair :: "jstring \<Rightarrow> exn + (jstring \<times> jstring)" where
  "form_pair pair =
     (case split_first 61 pair of
        None \<Rightarrow> and_then (url_decode pair) (\<lambda>k. Inr (k, []))
      | Some (a, b) \<Rightarrow>
          and_then (url_decode a) (\<lambda>k. and_then (url_decode b) (\<lambda>v. Inr (k, v))))"

definition formParams :: "RequestContext \<Rightarrow> exn + (jstring \<Rightarrow> jstring option)" where
  "formParams ctx =
     and_then (RequestContext_body ctx) (\<lambda>body.
       (let raw = utf8_decode body
        in if is_blank raw then Inr (\<lambda>_. None)
           else and_then (map_throw form_pair (split_trim 38 raw)) (\<lambda>pairs.
             Inr (foldl (\<lambda>m (k, v). m(k \<mapsto> v)) (\<lambda>_. None) pairs))))"

section \<open>http/Router.java\<close>

record 'h Route =
  ro_method :: jstring
  ro_segments :: "jstring list"
  ro_handler :: 'h

definition Router_split :: "jstring \<Rightarrow> jstring list" where
  "Router_split path =
     (let trimmed = (if path \<noteq> [] \<and> hd path = 47 then tl path else path)
      in if trimmed = [] then [[]] else split_all 47 trimmed)"

definition is_variable :: "jstring \<Rightarrow> bool" where
  "is_variable p \<longleftrightarrow> 1 < length p \<and> hd p = 123 \<and> last p = 125"

definition variable_name :: "jstring \<Rightarrow> jstring" where
  "variable_name p = butlast (tl p)"

fun match_loop ::
  "jstring list \<Rightarrow> jstring list \<Rightarrow> (jstring \<Rightarrow> jstring option) \<Rightarrow> (jstring \<Rightarrow> jstring option) option"
where
  "match_loop (p # ps) (a # as) params =
     (if is_variable p then match_loop ps as (params(variable_name p \<mapsto> a))
      else if p \<noteq> a then None
      else match_loop ps as params)"
| "match_loop _ _ params = Some params"

definition Router_match ::
  "jstring list \<Rightarrow> jstring list \<Rightarrow> (jstring \<Rightarrow> jstring option) option" where
  "Router_match pattern actual =
     (if length pattern \<noteq> length actual then None else match_loop pattern actual (\<lambda>_. None))"

fun dispatch_loop ::
  "'h Route list \<Rightarrow> jstring \<Rightarrow> jstring \<Rightarrow> jstring list \<Rightarrow> bool
   \<Rightarrow> exn + ('h \<times> (jstring \<Rightarrow> jstring option))"
where
  "dispatch_loop [] meth path segments pathMatchedWrongMethod =
     Inl (if pathMatchedWrongMethod then
            ApiException 405 (js ''method_not_allowed'') (js ''method not allowed for this resource'')
          else notFound (js ''no such resource: '' @ path))"
| "dispatch_loop (route # routes) meth path segments pathMatchedWrongMethod =
     (case Router_match (ro_segments route) segments of
        None \<Rightarrow> dispatch_loop routes meth path segments pathMatchedWrongMethod
      | Some params \<Rightarrow>
          if ro_method route \<noteq> meth then dispatch_loop routes meth path segments True
          else Inr (ro_handler route, params))"

definition Router_dispatch ::
  "'h Route list \<Rightarrow> jstring \<Rightarrow> jstring \<Rightarrow> exn + ('h \<times> (jstring \<Rightarrow> jstring option))" where
  "Router_dispatch routes meth path = dispatch_loop routes meth path (Router_split path) False"

definition errorResponse :: "json_writer \<Rightarrow> jint \<Rightarrow> jstring \<Rightarrow> jstring \<Rightarrow> exn + HttpResponse" where
  "errorResponse w status err description =
     HttpResponse_json w status (JObject
       [(js ''error'', JString err), (js ''error_description'', JString description)])"

lemma errorResponse_status: "errorResponse w st er de = Inr resp \<Longrightarrow> hr_status resp = st"
  by (auto simp: errorResponse_def HttpResponse_json_def Json_toBytes_def and_then_Inr_iff)

text \<open>\<open>handle\<close>: the response it writes, and the state the handler left.\<close>

definition Router_handle ::
  "json_writer \<Rightarrow> 'h Route list \<Rightarrow> ('h \<Rightarrow> RequestContext \<Rightarrow> 's \<Rightarrow> (exn + HttpResponse) \<times> 's)
   \<Rightarrow> Request \<Rightarrow> 's \<Rightarrow> (exn + HttpResponse) \<times> 's" where
  "Router_handle w routes run req s =
     (let (r, s') = (case Router_dispatch routes (rq_method req) (rq_path req) of
                       Inl e \<Rightarrow> (Inl e, s)
                     | Inr (h, params) \<Rightarrow> run h \<lparr>rc_request = req, rc_pathParams = params\<rparr> s)
      in (case r of
            Inr response \<Rightarrow> Inr response
          | Inl e \<Rightarrow>
              (case e of
                 ApiException status err description \<Rightarrow> errorResponse w status err description
               | _ \<Rightarrow> errorResponse w 500 (js ''internal_error'')
                         (js ''an unexpected error occurred'')), s'))"

section \<open>The router's contract\<close>

lemma match_loop_iff:
  "length ps = length as \<Longrightarrow>
     (\<exists>m'. match_loop ps as m = Some m') \<longleftrightarrow> list_all2 (\<lambda>p a. is_variable p \<or> p = a) ps as"
  by (induction ps as m rule: match_loop.induct) auto

definition route_matches :: "'h Route \<Rightarrow> jstring list \<Rightarrow> bool" where
  "route_matches route segments \<longleftrightarrow>
     list_all2 (\<lambda>p a. is_variable p \<or> p = a) (ro_segments route) segments"

lemma Router_match_iff:
  "(\<exists>m. Router_match (ro_segments r) segs = Some m) \<longleftrightarrow> route_matches r segs"
  using match_loop_iff [of "ro_segments r" segs]
  by (auto simp: Router_match_def route_matches_def dest: list_all2_lengthD)

lemma Router_match_None: "Router_match (ro_segments r) segs = None \<longleftrightarrow> \<not> route_matches r segs"
  using Router_match_iff [of r segs] by (cases "Router_match (ro_segments r) segs") auto

text \<open>What the doc comment promises, as a search: the first route that matches path and method.\<close>

lemma dispatch_loop_find:
  "dispatch_loop routes m path segs w =
     (case find (\<lambda>r. route_matches r segs \<and> ro_method r = m) routes of
        Some r \<Rightarrow> Inr (ro_handler r, the (Router_match (ro_segments r) segs))
      | None \<Rightarrow> Inl (if w \<or> list_ex (\<lambda>r. route_matches r segs) routes then
            ApiException 405 (js ''method_not_allowed'') (js ''method not allowed for this resource'')
          else notFound (js ''no such resource: '' @ path)))"
proof (induction routes arbitrary: w)
  case (Cons r routes)
  show ?case
  proof (cases "Router_match (ro_segments r) segs")
    case None
    then have "\<not> route_matches r segs" by (simp flip: Router_match_None)
    with None Cons show ?thesis by simp
  next
    case (Some ps)
    then have "route_matches r segs" by (simp flip: Router_match_iff)
    with Some Cons show ?thesis by simp
  qed
qed simp

lemma Router_handle_state:
  "snd (Router_handle w routes run req s) =
     (case Router_dispatch routes (rq_method req) (rq_path req) of
        Inl _ \<Rightarrow> s
      | Inr (h, params) \<Rightarrow> snd (run h \<lparr>rc_request = req, rc_pathParams = params\<rparr> s))"
  by (auto simp: Router_handle_def split: sum.split prod.split)

section \<open>Properties\<close>

text \<open>
  Dispatch: the first registered route whose pattern and method both match runs; a path
  that only matches with another method is 405, a path that matches no route is 404.
\<close>

lemma dispatch_first_match:
  "Router_dispatch routes m path =
     (case find (\<lambda>r. route_matches r (Router_split path) \<and> ro_method r = m) routes of
        Some r \<Rightarrow> Inr (ro_handler r, the (Router_match (ro_segments r) (Router_split path)))
      | None \<Rightarrow> Inl (if list_ex (\<lambda>r. route_matches r (Router_split path)) routes then
            ApiException 405 (js ''method_not_allowed'') (js ''method not allowed for this resource'')
          else notFound (js ''no such resource: '' @ path)))"
  by (simp add: Router_dispatch_def dispatch_loop_find)

text \<open>A form pair as a browser would send it, when nothing in it needs escaping.\<close>

definition plain_form :: "jstring \<Rightarrow> bool" where
  "plain_form s \<longleftrightarrow> 37 \<notin> set s \<and> 43 \<notin> set s \<and> 38 \<notin> set s \<and> 61 \<notin> set s"

definition form_text :: "(jstring \<times> jstring) list \<Rightarrow> jstring" where
  "form_text ps = join_with 38 (map (\<lambda>(k, v). k @ 61 # v) ps)"

lemma form_pair_plain:
  assumes "plain_form k" and "plain_form v"
  shows "form_pair (k @ 61 # v) = Inr (k, v)"
proof -
  have "url_decode k = Inr k" "url_decode v = Inr v"
    using assms by (auto simp: plain_form_def intro!: url_decode_plain)
  moreover have "split_first 61 (k @ 61 # v) = Some (k, v)"
    using assms by (intro split_first_append) (simp add: plain_form_def)
  ultimately show ?thesis by (simp add: form_pair_def)
qed

lemma split_form_text:
  assumes "ps \<noteq> []" and "\<And>k v. (k, v) \<in> set ps \<Longrightarrow> plain_form k \<and> plain_form v"
  shows "split_trim 38 (form_text ps) = map (\<lambda>(k, v). k @ 61 # v) ps"
proof -
  let ?ss = "map (\<lambda>(k, v). k @ 61 # v) ps :: jstring list"
  have ss: "split_all 38 (form_text ps) = ?ss"
    unfolding form_text_def
    by (rule split_all_join) (use assms in \<open>auto simp: plain_form_def\<close>)
  moreover have "dropWhile (\<lambda>x. x = []) (rev ?ss) = rev ?ss"
    using assms(1) by (simp add: dropWhile_eq_self_iff hd_rev last_map split: prod.split)
  moreover have "?ss = [form_text ps]" if "38 \<notin> set (form_text ps)"
    using split_all_none [OF that] ss by simp
  ultimately show ?thesis by (auto simp: split_trim_def)
qed

lemma form_plain:
  assumes "ps \<noteq> []" and "\<And>k v. (k, v) \<in> set ps \<Longrightarrow> plain_form k \<and> plain_form v"
    and "utf16_ok (form_text ps)" and "\<not> is_blank (form_text ps)"
    and "rq_body (rc_request ctx) = Some (utf8_encode (form_text ps))"
  shows "formParams ctx = Inr (map_of (rev ps))"
proof -
  have raw: "utf8_decode (utf8_encode (form_text ps)) = form_text ps"
    using utf8.dec_enc [OF assms(3)] by simp
  have "map_throw form_pair (map (\<lambda>(k, v). k @ 61 # v) ps) = Inr (map id ps)"
    unfolding map_throw_map
    by (rule map_throw_total) (use assms(2) in \<open>auto simp: form_pair_plain\<close>)
  moreover have "foldl (\<lambda>m (k, v). m(k \<mapsto> v)) m0 ps = m0 ++ map_of (rev ps)" for m0
    by (induction ps arbitrary: m0) auto
  ultimately show ?thesis
    using assms(4,5) split_form_text [OF assms(1,2)]
    by (simp add: formParams_def RequestContext_body_def raw)
qed

text \<open>
  The form parser reads back what a client encodes: a body of unescaped pairs is parsed
  to the map with the last value of each name.
\<close>

lemma form_roundtrip:
  assumes "ps \<noteq> []" and "\<And>k v. (k, v) \<in> set ps \<Longrightarrow> plain_form k \<and> plain_form v"
    and "utf16_ok (form_text ps)" and "\<not> is_blank (form_text ps)"
    and "rq_body (rc_request ctx) = Some (utf8_encode (form_text ps))"
  shows "formParams ctx = Inr (map_of (rev ps))"
  using assms by (rule form_plain)

lemma form_roundtrip_example:
  "formParams \<lparr>rc_request = \<lparr>rq_method = js ''POST'', rq_path = js ''/oauth/token'',
       rq_header = (\<lambda>_. None), rq_body = Some (utf8_encode (js ''a=1&a=2''))\<rparr>,
       rc_pathParams = (\<lambda>_. None)\<rparr>
   = Inr (map_of [(js ''a'', js ''2''), (js ''a'', js ''1'')])"
proof -
  let ?ps = "[(js ''a'', js ''1''), (js ''a'', js ''2'')]"
  have t: "js ''a=1&a=2'' = form_text ?ps" by code_simp
  have "formParams \<lparr>rc_request = \<lparr>rq_method = js ''POST'', rq_path = js ''/oauth/token'',
       rq_header = (\<lambda>_. None), rq_body = Some (utf8_encode (form_text ?ps))\<rparr>,
       rc_pathParams = (\<lambda>_. None)\<rparr> = Inr (map_of (rev ?ps))"
  proof (rule form_roundtrip)
    show "utf16_ok (form_text ?ps)"
      unfolding t [symmetric] by (rule utf16_ok_js) simp
    show "\<not> is_blank (form_text ?ps)"
      by (simp add: form_text_def is_blank_def is_whitespace_def js_def)
    have "list_all (\<lambda>(k, v). plain_form k \<and> plain_form v) ?ps" by code_simp
    then show "plain_form k \<and> plain_form v" if "(k, v) \<in> set ?ps" for k v
      using that unfolding list_all_iff by blast
  qed simp_all
  then show ?thesis unfolding t by simp
qed

end
