(* ===== verification/Docs.thy ===== *)
theory Docs
  imports Http
begin

text \<open>
  What the server hands out as it is: the bundled resources (\<open>http/StaticResource.java\<close>), the
  OpenAPI document in its two forms (\<open>OpenApiDocument.java\<close>) and the page that loads Swagger UI
  (\<open>SwaggerUiPage.java\<close>).
\<close>

section \<open>http/StaticResource.java\<close>

text \<open>
  The class path: \<open>None\<close> where \<open>getResourceAsStream\<close> returns \<open>null\<close>, \<open>Some None\<close> where
  reading the stream fails.
\<close>

type_synonym class_path = "jstring \<Rightarrow> byte list option option"

definition StaticResource_bytes :: "class_path \<Rightarrow> jstring \<Rightarrow> exn + byte list" where
  "StaticResource_bytes resources resourcePath =
     (case resources resourcePath of
        None \<Rightarrow> Inl (IllegalStateException (js ''missing bundled resource: '' @ resourcePath))
      | Some None \<Rightarrow>
          Inl (UncheckedIOException (js ''failed to read bundled resource: '' @ resourcePath))
      | Some (Some b) \<Rightarrow> Inr b)"

section \<open>OpenApiDocument.java\<close>

record OpenApiDocument =
  od_yaml :: "byte list"
  od_json :: "byte list"

text \<open>\<open>yaml\<close> is \<open>YAMLMapper.readTree\<close>, \<open>w\<close> the shared JSON mapper; \<open>None\<close> an \<open>IOException\<close>.\<close>

definition OpenApiDocument_load ::
  "(byte list \<Rightarrow> json option) \<Rightarrow> json_writer \<Rightarrow> class_path \<Rightarrow> exn + OpenApiDocument" where
  "OpenApiDocument_load yaml w resources =
     and_then (StaticResource_bytes resources (js ''/openapi.yaml'')) (\<lambda>yamlBytes.
       case Option.bind (yaml yamlBytes) w of
         None \<Rightarrow> Inl (UncheckedIOException (js ''bundled openapi.yaml is not valid YAML''))
       | Some jsonBytes \<Rightarrow> Inr \<lparr>od_yaml = yamlBytes, od_json = jsonBytes\<rparr>)"

lemma OpenApiDocument_load_Inr:
  "OpenApiDocument_load yaml w resources = Inr d \<longleftrightarrow>
     (\<exists>tree. resources (js ''/openapi.yaml'') = Some (Some (od_yaml d))
        \<and> yaml (od_yaml d) = Some tree \<and> w tree = Some (od_json d))"
  by (cases d) (auto simp: OpenApiDocument_load_def StaticResource_bytes_def and_then_def
      split: option.splits bind_splits)

section \<open>SwaggerUiPage.java\<close>

text \<open>The text block: each line ends in a line feed.\<close>

definition HTML_lines :: "string list" where
  \<open>HTML_lines =
    [''<!DOCTYPE html>'',
     ''<html lang="en">'',
     ''<head>'',
     ''  <meta charset="utf-8"/>'',
     ''  <meta name="viewport" content="width=device-width, initial-scale=1"/>'',
     ''  <title>mini-idp API</title>'',
     ''  <link rel="stylesheet" href="/docs/swagger-ui.css"/>'',
     ''</head>'',
     ''<body>'',
     ''  <div id="swagger-ui"></div>'',
     ''  <script src="/docs/swagger-ui-bundle.js"></script>'',
     ''  <script>'',
     ''    window.ui = SwaggerUIBundle({'',
     ''      url: "/openapi.yaml",'',
     ''      dom_id: "#swagger-ui",'',
     ''      deepLinking: true,'',
     ''      presets: [SwaggerUIBundle.presets.apis]'',
     ''    });'',
     ''  </script>'',
     ''</body>'',
     ''</html>'']\<close>

definition SwaggerUiPage_HTML :: jstring where
  "SwaggerUiPage_HTML = concat (map (\<lambda>l. js l @ [10]) HTML_lines)"

text \<open>The texts between double quotes, and those of them that are paths on this server.\<close>

fun quoted :: "string option \<Rightarrow> string \<Rightarrow> string list" where
  "quoted _ [] = []"
| "quoted None (c # cs) = (if c = CHR 0x22 then quoted (Some []) cs else quoted None cs)"
| "quoted (Some q) (c # cs) =
     (if c = CHR 0x22 then q # quoted None cs else quoted (Some (q @ [c])) cs)"

definition page_paths :: "string list" where
  "page_paths = filter (\<lambda>s. s \<noteq> [] \<and> hd s = CHR ''/'') (concat (map (quoted None) HTML_lines))"

lemma page_paths_eq:
  "page_paths = [''/docs/swagger-ui.css'', ''/docs/swagger-ui-bundle.js'', ''/openapi.yaml'']"
  by code_simp

end
