(* ===== verification/Handlers.thy ===== *)
theory Handlers
  imports Tokens Revocations AuditLog Config Docs
begin

text \<open>
  The API: \<open>server/AdminAuthenticator.java\<close>, \<open>server/dto/Dtos.java\<close> and
  \<open>server/ApiHandlers.java\<close>, one definition per handler, composed with the services and run
  by the router. The four services are the state \<open>Idp\<close>. What a request takes from outside
  (the readings of the clock in their order, random bytes, a fresh key seed, the outcomes of
  the file writes in their order) is the record \<open>inputs\<close>; the libraries are the record
  \<open>libs\<close>; what is fixed at start-up is the record \<open>server\<close>.
\<close>

section \<open>server/AdminAuthenticator.java\<close>

record AdminAuthenticator =
  aa_expectedToken :: "byte list"

definition mk_AdminAuthenticator :: "jstring option \<Rightarrow> exn + AdminAuthenticator" where
  "mk_AdminAuthenticator expectedToken =
     (case expectedToken of
        None \<Rightarrow> Inl (IllegalArgumentException (js ''admin token must not be empty''))
      | Some t \<Rightarrow>
          if t = [] then Inl (IllegalArgumentException (js ''admin token must not be empty''))
          else Inr \<lparr>aa_expectedToken = utf8_encode t\<rparr>)"

definition bearerToken :: "jstring option \<Rightarrow> jstring option" where
  "bearerToken authorizationHeader =
     (case authorizationHeader of
        None \<Rightarrow> None
      | Some h \<Rightarrow>
          (let prefix = js ''Bearer ''
           in if length h \<le> length prefix \<or> \<not> matches_prefix_ignore_case prefix h then None
              else (let token = java_trim (drop (length prefix) h)
                    in if token = [] then None else Some token)))"

lemma bearerToken_presented:
  assumes "tok \<noteq> []" and "java_trim tok = tok"
  shows "bearerToken (Some (js ''Bearer '' @ tok)) = Some tok"
  using assms by (simp add: bearerToken_def matches_prefix_ignore_case_def)

definition isValid :: "AdminAuthenticator \<Rightarrow> jstring option \<Rightarrow> bool" where
  "isValid aa authorizationHeader =
     (case bearerToken authorizationHeader of
        None \<Rightarrow> False
      | Some presented \<Rightarrow> aa_expectedToken aa = utf8_encode presented)"

definition requireAdmin :: "AdminAuthenticator \<Rightarrow> jstring option \<Rightarrow> exn + unit" where
  "requireAdmin aa authorizationHeader =
     (if isValid aa authorizationHeader then Inr () else Inl unauthorized)"

section \<open>server/dto/Dtos.java\<close>

record RegisterClientRequest =
  rr_displayName :: "jstring option"
  rr_authorization :: "GrantsClaim option"

record RegisterClientResponse =
  re_clientId :: jstring
  re_secret :: jstring
  re_displayName :: "jstring option"
  re_authorization :: GrantsClaim
  re_createdAt :: long

record ClientView =
  cv_clientId :: jstring
  cv_displayName :: "jstring option"
  cv_enabled :: bool
  cv_createdAt :: long
  cv_authorization :: GrantsClaim

definition ClientView_from :: "ClientRecord \<Rightarrow> ClientView" where
  "ClientView_from r =
     \<lparr>cv_clientId = cr_clientId r, cv_displayName = cr_displayName r, cv_enabled = cr_enabled r,
      cv_createdAt = cr_createdAt r, cv_authorization = GrantsClaim_from (cr_authorization r)\<rparr>"

record RevocationRequest =
  rx_jti :: "jstring option"
  rx_expiresAt :: "long option"
  rx_reason :: "jstring option"

text \<open>The JSON trees of the response bodies; only \<open>ClientView\<close> and \<open>Jwk\<close> leave out nulls.\<close>

definition register_json :: "RegisterClientResponse \<Rightarrow> json" where
  "register_json r = JObject
     [(js ''clientId'', JString (re_clientId r)), (js ''secret'', JString (re_secret r)),
      (js ''displayName'', json_nullable JString (re_displayName r)),
      (js ''authorization'', grants_json (re_authorization r)),
      (js ''createdAt'', json_long (re_createdAt r))]"

definition view_json :: "ClientView \<Rightarrow> json" where
  "view_json v = JObject (non_null
     [(js ''clientId'', JString (cv_clientId v)),
      (js ''displayName'', json_nullable JString (cv_displayName v)),
      (js ''enabled'', JBool (cv_enabled v)), (js ''createdAt'', json_long (cv_createdAt v)),
      (js ''authorization'', grants_json (cv_authorization v))])"

definition revocation_json :: "Revocation \<Rightarrow> json" where
  "revocation_json v = JObject
     [(js ''jti'', JString (rv_jti v)), (js ''revokedAt'', json_long (rv_revokedAt v)),
      (js ''expiresAt'', json_long (rv_expiresAt v)),
      (js ''reason'', json_nullable JString (rv_reason v))]"

definition audit_json :: "AuditEntry \<Rightarrow> json" where
  "audit_json e = JObject
     [(js ''at'', json_long (ae_at e)), (js ''event'', JString (ae_event e)),
      (js ''clientId'', json_nullable JString (ae_clientId e)),
      (js ''detail'', json_nullable JString (ae_detail e))]"

definition jwk_json :: "Jwk \<Rightarrow> json" where
  "jwk_json k = JObject (non_null
     [(js ''kty'', json_nullable JString (jwk_keyType k)),
      (js ''crv'', json_nullable JString (jwk_curve k)),
      (js ''x'', json_nullable JString (jwk_publicKey k)),
      (js ''use'', json_nullable JString (jwk_use k)),
      (js ''alg'', json_nullable JString (jwk_algorithm k)),
      (js ''kid'', json_nullable JString (jwk_keyId k))])"

definition jwks_json :: "JwkSet \<Rightarrow> json" where
  "jwks_json s = JObject [(js ''keys'', JArray (map jwk_json (jwks_keys s)))]"

section \<open>The server, its libraries and the inputs of a request\<close>

record Idp =
  id_clients :: ClientService
  id_keys :: SigningKeyService
  id_revocations :: RevocationService
  id_audit :: AuditService

text \<open>
  \<open>sv_openApi\<close> is the document loaded at start-up; the Swagger UI files are read from the class
  path, \<open>sv_resources\<close>, at every request.
\<close>

record server =
  sv_config :: ServerConfig
  sv_issuer :: TokenIssuer
  sv_admin :: AdminAuthenticator
  sv_openApi :: OpenApiDocument
  sv_resources :: class_path

record libs =
  lb_ed :: ed25519
  lb_jackson :: jackson
  lb_argon2 :: argon2
  lb_write :: json_writer
  lb_yaml :: "byte list \<Rightarrow> json option"
  lb_register :: "byte list \<Rightarrow> RegisterClientRequest option option"
  lb_grants :: "byte list \<Rightarrow> GrantsClaim option option"
  lb_revocation :: "byte list \<Rightarrow> RevocationRequest option option"

record inputs =
  in_now :: "nat \<Rightarrow> long"
  in_bytes :: "nat \<Rightarrow> byte list"
  in_seed :: private_key
  in_save :: "nat \<Rightarrow> outcome"

section \<open>server/ApiHandlers.java\<close>

text \<open>Calls on one of the services.\<close>

definition on_clients ::
  "(ClientService \<Rightarrow> (exn + 'a) \<times> ClientService) \<Rightarrow> Idp \<Rightarrow> (exn + 'a) \<times> Idp" where
  "on_clients f s = (let (r, c) = f (id_clients s) in (r, s\<lparr>id_clients := c\<rparr>))"

definition on_keys ::
  "(SigningKeyService \<Rightarrow> (exn + 'a) \<times> SigningKeyService) \<Rightarrow> Idp \<Rightarrow> (exn + 'a) \<times> Idp" where
  "on_keys f s = (let (r, k) = f (id_keys s) in (r, s\<lparr>id_keys := k\<rparr>))"

definition on_revocations ::
  "(RevocationService \<Rightarrow> (exn + 'a) \<times> RevocationService) \<Rightarrow> Idp \<Rightarrow> (exn + 'a) \<times> Idp" where
  "on_revocations f s = (let (r, v) = f (id_revocations s) in (r, s\<lparr>id_revocations := v\<rparr>))"

definition audit_record ::
  "long \<Rightarrow> outcome \<Rightarrow> jstring \<Rightarrow> jstring option \<Rightarrow> jstring option \<Rightarrow> Idp \<Rightarrow> (exn + unit) \<times> Idp" where
  "audit_record now out event clientId detail s =
     (let (r, a) = AuditService_record now out event clientId detail (id_audit s)
      in (r, s\<lparr>id_audit := a\<rparr>))"

definition ctx_header :: "RequestContext \<Rightarrow> string \<Rightarrow> jstring option" where
  "ctx_header ctx name = rq_header (rc_request ctx) (js name)"

definition handler_requireAdmin :: "server \<Rightarrow> RequestContext \<Rightarrow> exn + unit" where
  "handler_requireAdmin sv ctx = requireAdmin (sv_admin sv) (ctx_header ctx ''Authorization'')"

text \<open>Only an \<open>IllegalArgumentException\<close> is caught.\<close>

definition handler_toAuthorization :: "GrantsClaim option \<Rightarrow> exn + Authorization" where
  "handler_toAuthorization grants =
     (case grants of
        None \<Rightarrow> Inr Authorization_none
      | Some c \<Rightarrow>
          (case GrantsClaim_toAuthorization c of
             Inl (IllegalArgumentException m) \<Rightarrow> Inl (badRequest (js ''invalid grant: '' @ m))
           | r \<Rightarrow> r))"

definition basicCredentials :: "jstring option \<Rightarrow> (jstring \<times> jstring) option" where
  "basicCredentials authorizationHeader =
     (let prefix = js ''Basic '' in
      case authorizationHeader of
        None \<Rightarrow> None
      | Some h \<Rightarrow>
          if length h \<le> length prefix \<or> \<not> matches_prefix_ignore_case prefix h then None
          else (case unbase64_std (java_trim (drop (length prefix) h)) of
              Inl _ \<Rightarrow> None
            | Inr decoded \<Rightarrow> split_first 58 (utf8_decode decoded)))"

text \<open>The credentials of a token request: form fields first, then the Basic header.\<close>

definition token_credentials ::
  "(jstring \<Rightarrow> jstring option) \<Rightarrow> RequestContext \<Rightarrow> jstring option \<times> jstring option" where
  "token_credentials form ctx =
     (let basic = basicCredentials (ctx_header ctx ''Authorization'')
      in (case form (js ''client_id'') of Some v \<Rightarrow> Some v | None \<Rightarrow> map_option fst basic,
          case form (js ''client_secret'') of Some v \<Rightarrow> Some v | None \<Rightarrow> map_option snd basic))"

definition token_json :: "IssuedToken \<Rightarrow> json" where
  "token_json issued = JObject
     [(js ''access_token'', JString (it_accessToken issued)),
      (js ''token_type'', JString (it_tokenType issued)),
      (js ''expires_in'', json_long (it_expiresIn issued)),
      (js ''scope'', JString (it_scope issued))]"

definition handler_token ::
  "libs \<Rightarrow> server \<Rightarrow> inputs \<Rightarrow> RequestContext \<Rightarrow> Idp \<Rightarrow> (exn + HttpResponse) \<times> Idp" where
  "handler_token lb sv i ctx =
     st_then (st_lift (formParams ctx)) (\<lambda>form.
       if form (js ''grant_type'') \<noteq> Some (js ''client_credentials'') then
         st_lift (Inl (ApiException 400 (js ''unsupported_grant_type'')
                   (js ''only the client_credentials grant is supported'')))
       else
         (let (clientId, secret) = token_credentials form ctx
          in if clientId = None \<or> secret = None then st_lift (Inl invalidClient)
             else
               st_read id_clients (\<lambda>registry.
               st_then (st_lift (ClientService_authenticate (lb_argon2 lb) clientId secret registry))
                 (\<lambda>authenticated.
                   case authenticated of
                     None \<Rightarrow> st_lift (Inl invalidClient)
                   | Some client \<Rightarrow>
                       st_read id_keys (\<lambda>signingKeys.
                       st_then (st_lift (TokenIssuer_issue (lb_ed lb) (lb_jackson lb) (sv_issuer sv)
                                  (in_now i 0) (in_bytes i 0) signingKeys client)) (\<lambda>issued.
                       st_then (audit_record (in_now i 1) (in_save i 0) (js ''token.issued'')
                                  (Some (cr_clientId client)) (Some (js ''jti='' @ it_jti issued)))
                         (\<lambda>_. st_lift (HttpResponse_json (lb_write lb) 200 (token_json issued)))))))))"

definition handler_jwks ::
  "libs \<Rightarrow> server \<Rightarrow> inputs \<Rightarrow> RequestContext \<Rightarrow> Idp \<Rightarrow> (exn + HttpResponse) \<times> Idp" where
  "handler_jwks lb sv i ctx =
     st_then (on_keys (SigningKeyService_jwkSet (retiredKeyRetention (sv_config sv)) (in_now i 0)))
       (\<lambda>jwks. st_lift (HttpResponse_json (lb_write lb) 200 (jwks_json jwks)))"

definition discovery_json :: "ServerConfig \<Rightarrow> json" where
  "discovery_json c = JObject
     [(js ''issuer'', JString (sc_issuer c)),
      (js ''token_endpoint'', JString (tokenEndpoint c)),
      (js ''jwks_uri'', JString (jwksUri c)),
      (js ''grant_types_supported'', JArray [JString (js ''client_credentials'')]),
      (js ''token_endpoint_auth_methods_supported'',
         JArray [JString (js ''client_secret_post''), JString (js ''client_secret_basic'')]),
      (js ''token_endpoint_auth_signing_alg_values_supported'', JArray [JString (js ''EdDSA'')]),
      (js ''id_token_signing_alg_values_supported'', JArray [JString (js ''EdDSA'')])]"

definition handler_discovery ::
  "libs \<Rightarrow> server \<Rightarrow> inputs \<Rightarrow> RequestContext \<Rightarrow> Idp \<Rightarrow> (exn + HttpResponse) \<times> Idp" where
  "handler_discovery lb sv i ctx =
     st_lift (HttpResponse_json (lb_write lb) 200 (discovery_json (sv_config sv)))"

definition handler_health ::
  "libs \<Rightarrow> server \<Rightarrow> inputs \<Rightarrow> RequestContext \<Rightarrow> Idp \<Rightarrow> (exn + HttpResponse) \<times> Idp" where
  "handler_health lb sv i ctx =
     st_lift (HttpResponse_json (lb_write lb) 200 (JObject [(js ''status'', JString (js ''ok''))]))"

definition handler_openApiYaml :: "server \<Rightarrow> Idp \<Rightarrow> (exn + HttpResponse) \<times> Idp" where
  "handler_openApiYaml sv =
     st_lift (Inr (HttpResponse_raw 200 (js ''application/yaml'') (od_yaml (sv_openApi sv))))"

definition handler_openApiJson :: "server \<Rightarrow> Idp \<Rightarrow> (exn + HttpResponse) \<times> Idp" where
  "handler_openApiJson sv =
     st_lift (Inr (HttpResponse_raw 200 (js ''application/json'') (od_json (sv_openApi sv))))"

definition handler_docs :: "Idp \<Rightarrow> (exn + HttpResponse) \<times> Idp" where
  "handler_docs =
     st_lift (Inr (HttpResponse_text 200 (js ''text/html; charset=utf-8'') SwaggerUiPage_HTML))"

definition handler_asset ::
  "server \<Rightarrow> jstring \<Rightarrow> jstring \<Rightarrow> Idp \<Rightarrow> (exn + HttpResponse) \<times> Idp" where
  "handler_asset sv file contentType =
     st_lift (and_then (StaticResource_bytes (sv_resources sv) (js ''/swagger-ui/'' @ file)) (\<lambda>b.
       Inr (HttpResponse_raw 200 contentType b)))"

text \<open>A JSON body of the request: \<open>Json.parse(ctx.body(), type)\<close>.\<close>

definition ctx_parse :: "(byte list \<Rightarrow> 'a option option) \<Rightarrow> RequestContext \<Rightarrow> exn + 'a option" where
  "ctx_parse reader ctx = and_then (RequestContext_body ctx) (Json_parse reader)"

definition not_null :: "'a option \<Rightarrow> exn + 'a" where
  "not_null x = of_option NullPointerException x"

definition handler_registerClient ::
  "libs \<Rightarrow> server \<Rightarrow> inputs \<Rightarrow> RequestContext \<Rightarrow> Idp \<Rightarrow> (exn + HttpResponse) \<times> Idp" where
  "handler_registerClient lb sv i ctx =
     st_then (st_lift (handler_requireAdmin sv ctx)) (\<lambda>_.
     st_then (st_lift (and_then (ctx_parse (lb_register lb) ctx) not_null)) (\<lambda>request.
     st_then (st_lift (handler_toAuthorization (rr_authorization request))) (\<lambda>authorization.
     st_then (on_clients (ClientService_register (lb_argon2 lb) (sc_argonSettings (sv_config sv))
                (in_bytes i 0) (in_bytes i 1) (in_bytes i 2) (in_now i 0) (in_save i 0)
                (rr_displayName request) (Some authorization))) (\<lambda>registration.
       (let r = rg_client registration
        in st_then (audit_record (in_now i 1) (in_save i 1) (js ''client.registered'')
                      (Some (cr_clientId r)) None) (\<lambda>_.
           st_lift (HttpResponse_json (lb_write lb) 201 (register_json
             \<lparr>re_clientId = cr_clientId r, re_secret = rg_secret registration,
              re_displayName = cr_displayName r,
              re_authorization = GrantsClaim_from (cr_authorization r),
              re_createdAt = cr_createdAt r\<rparr>))))))))"

definition handler_listClients ::
  "libs \<Rightarrow> server \<Rightarrow> inputs \<Rightarrow> RequestContext \<Rightarrow> Idp \<Rightarrow> (exn + HttpResponse) \<times> Idp" where
  "handler_listClients lb sv i ctx =
     st_then (st_lift (handler_requireAdmin sv ctx)) (\<lambda>_.
     st_read (\<lambda>s. ClientService_list (id_clients s)) (\<lambda>records.
       st_lift (HttpResponse_json (lb_write lb) 200
         (JArray (map (\<lambda>r. view_json (ClientView_from r)) records)))))"

text \<open>The path variable \<open>id\<close> of the route; the router always binds it.\<close>

definition ctx_id :: "RequestContext \<Rightarrow> jstring" where
  "ctx_id ctx = (case rc_pathParams ctx (js ''id'') of None \<Rightarrow> [] | Some v \<Rightarrow> v)"

definition handler_deleteClient ::
  "libs \<Rightarrow> server \<Rightarrow> inputs \<Rightarrow> RequestContext \<Rightarrow> Idp \<Rightarrow> (exn + HttpResponse) \<times> Idp" where
  "handler_deleteClient lb sv i ctx =
     st_then (st_lift (handler_requireAdmin sv ctx)) (\<lambda>_.
     st_then (on_clients (ClientService_remove (in_save i 0) (ctx_id ctx))) (\<lambda>removed.
       if \<not> removed then st_lift (Inl (notFound (js ''no such client: '' @ ctx_id ctx)))
       else st_then (audit_record (in_now i 0) (in_save i 1) (js ''client.removed'')
                       (Some (ctx_id ctx)) None)
              (\<lambda>_. st_lift (Inr HttpResponse_noContent))))"

definition handler_setGrants ::
  "libs \<Rightarrow> server \<Rightarrow> inputs \<Rightarrow> RequestContext \<Rightarrow> Idp \<Rightarrow> (exn + HttpResponse) \<times> Idp" where
  "handler_setGrants lb sv i ctx =
     st_then (st_lift (handler_requireAdmin sv ctx)) (\<lambda>_.
     st_then (st_lift (ctx_parse (lb_grants lb) ctx)) (\<lambda>grants.
     st_then (st_lift (handler_toAuthorization grants)) (\<lambda>authorization.
     st_then (on_clients (ClientService_setAuthorization (in_save i 0) (ctx_id ctx)
                            (Some authorization))) (\<lambda>updated.
       case updated of
         None \<Rightarrow> st_lift (Inl (notFound (js ''no such client: '' @ ctx_id ctx)))
       | Some r \<Rightarrow>
           st_then (audit_record (in_now i 0) (in_save i 1) (js ''client.grants_set'')
                      (Some (ctx_id ctx)) None)
             (\<lambda>_. st_lift (HttpResponse_json (lb_write lb) 200 (view_json (ClientView_from r))))))))"

text \<open>
  A freshly rotated service always has an active kid, so neither string concatenation nor
  \<open>Map.of\<close> meets a null.
\<close>

definition handler_rotateKeys ::
  "libs \<Rightarrow> server \<Rightarrow> inputs \<Rightarrow> RequestContext \<Rightarrow> Idp \<Rightarrow> (exn + HttpResponse) \<times> Idp" where
  "handler_rotateKeys lb sv i ctx =
     st_then (st_lift (handler_requireAdmin sv ctx)) (\<lambda>_.
     st_then (on_keys (SigningKeyService_rotate (lb_ed lb) (retiredKeyRetention (sv_config sv))
                (in_now i 0) (in_seed i) (in_bytes i 0) (in_now i 1) (in_now i 2) (in_save i 0)))
       (\<lambda>newKid.
     st_then (audit_record (in_now i 3) (in_save i 1) (js ''key.rotated'') None
                (Some (js ''activeKid='' @ (case newKid of None \<Rightarrow> js ''null'' | Some k \<Rightarrow> k)))) (\<lambda>_.
     st_then (st_lift (not_null newKid)) (\<lambda>kid.
       st_lift (HttpResponse_json (lb_write lb) 200 (JObject [(js ''activeKid'', JString kid)]))))))"

definition handler_revoke ::
  "libs \<Rightarrow> server \<Rightarrow> inputs \<Rightarrow> RequestContext \<Rightarrow> Idp \<Rightarrow> (exn + HttpResponse) \<times> Idp" where
  "handler_revoke lb sv i ctx =
     st_then (st_lift (handler_requireAdmin sv ctx)) (\<lambda>_.
     st_then (st_lift (and_then (ctx_parse (lb_revocation lb) ctx) not_null)) (\<lambda>request.
       if (case rx_jti request of None \<Rightarrow> True | Some j \<Rightarrow> is_blank j) then
         st_lift (Inl (badRequest (js ''jti is required'')))
       else
         (let expiresAt = (case rx_expiresAt request of
                             Some e \<Rightarrow> e
                           | None \<Rightarrow> in_now i 0 + sc_tokenTtl (sv_config sv))
          in st_then (on_revocations (RevocationService_revoke (in_now i 1) (in_now i 2) (in_save i 0)
                        (rx_jti request) expiresAt (rx_reason request))) (\<lambda>revocation.
             st_then (audit_record (in_now i 3) (in_save i 1) (js ''token.revoked'') None
                        (Some (js ''jti='' @ rv_jti revocation)))
               (\<lambda>_. st_lift (HttpResponse_json (lb_write lb) 201 (revocation_json revocation)))))))"

definition handler_listRevocations ::
  "libs \<Rightarrow> server \<Rightarrow> inputs \<Rightarrow> RequestContext \<Rightarrow> Idp \<Rightarrow> (exn + HttpResponse) \<times> Idp" where
  "handler_listRevocations lb sv i ctx =
     st_then (st_lift (handler_requireAdmin sv ctx)) (\<lambda>_.
     st_then (on_revocations (\<lambda>v. (let (es, v') = RevocationService_activeDenylist (in_now i 0) v
                                    in (Inr es, v')))) (\<lambda>es.
       st_lift (HttpResponse_json (lb_write lb) 200 (JArray (map revocation_json es)))))"

definition handler_auditLog ::
  "libs \<Rightarrow> server \<Rightarrow> inputs \<Rightarrow> RequestContext \<Rightarrow> Idp \<Rightarrow> (exn + HttpResponse) \<times> Idp" where
  "handler_auditLog lb sv i ctx =
     st_then (st_lift (handler_requireAdmin sv ctx)) (\<lambda>_.
     st_read (\<lambda>s. AuditService_list (id_audit s)) (\<lambda>es.
       st_lift (HttpResponse_json (lb_write lb) 200 (JArray (map audit_json es)))))"

section \<open>The routes\<close>

datatype Endpoint =
    EToken | EJwks | EDiscovery | EHealth | EOpenApiYaml | EOpenApiJson | EDocs
  | EAssetCss | EAssetJs
  | ERegisterClient | EListClients | EDeleteClient | ESetGrants | ERotateKeys | ERevoke
  | EListRevocations | EAuditLog

fun run_endpoint ::
  "libs \<Rightarrow> server \<Rightarrow> inputs \<Rightarrow> Endpoint \<Rightarrow> RequestContext \<Rightarrow> Idp \<Rightarrow> (exn + HttpResponse) \<times> Idp" where
  "run_endpoint lb sv i EToken ctx = handler_token lb sv i ctx"
| "run_endpoint lb sv i EJwks ctx = handler_jwks lb sv i ctx"
| "run_endpoint lb sv i EDiscovery ctx = handler_discovery lb sv i ctx"
| "run_endpoint lb sv i EHealth ctx = handler_health lb sv i ctx"
| "run_endpoint lb sv i EOpenApiYaml ctx = handler_openApiYaml sv"
| "run_endpoint lb sv i EOpenApiJson ctx = handler_openApiJson sv"
| "run_endpoint lb sv i EDocs ctx = handler_docs"
| "run_endpoint lb sv i EAssetCss ctx = handler_asset sv (js ''swagger-ui.css'') (js ''text/css'')"
| "run_endpoint lb sv i EAssetJs ctx =
     handler_asset sv (js ''swagger-ui-bundle.js'') (js ''application/javascript'')"
| "run_endpoint lb sv i ERegisterClient ctx = handler_registerClient lb sv i ctx"
| "run_endpoint lb sv i EListClients ctx = handler_listClients lb sv i ctx"
| "run_endpoint lb sv i EDeleteClient ctx = handler_deleteClient lb sv i ctx"
| "run_endpoint lb sv i ESetGrants ctx = handler_setGrants lb sv i ctx"
| "run_endpoint lb sv i ERotateKeys ctx = handler_rotateKeys lb sv i ctx"
| "run_endpoint lb sv i ERevoke ctx = handler_revoke lb sv i ctx"
| "run_endpoint lb sv i EListRevocations ctx = handler_listRevocations lb sv i ctx"
| "run_endpoint lb sv i EAuditLog ctx = handler_auditLog lb sv i ctx"

definition Router_route :: "string \<Rightarrow> string \<Rightarrow> 'h \<Rightarrow> 'h Route" where
  "Router_route meth pattern handler =
     \<lparr>ro_method = js meth, ro_segments = Router_split (js pattern), ro_handler = handler\<rparr>"

definition ApiHandlers_router :: "Endpoint Route list" where
  "ApiHandlers_router =
     [Router_route ''POST'' ''/oauth/token'' EToken,
      Router_route ''GET'' ''/.well-known/jwks.json'' EJwks,
      Router_route ''GET'' ''/.well-known/idp-configuration'' EDiscovery,
      Router_route ''GET'' ''/health'' EHealth,
      Router_route ''GET'' ''/openapi.yaml'' EOpenApiYaml,
      Router_route ''GET'' ''/openapi.json'' EOpenApiJson,
      Router_route ''GET'' ''/docs'' EDocs,
      Router_route ''GET'' ''/docs/swagger-ui.css'' EAssetCss,
      Router_route ''GET'' ''/docs/swagger-ui-bundle.js'' EAssetJs,
      Router_route ''POST'' ''/admin/clients'' ERegisterClient,
      Router_route ''GET'' ''/admin/clients'' EListClients,
      Router_route ''DELETE'' ''/admin/clients/{id}'' EDeleteClient,
      Router_route ''PUT'' ''/admin/clients/{id}/grants'' ESetGrants,
      Router_route ''POST'' ''/admin/keys/rotate'' ERotateKeys,
      Router_route ''POST'' ''/admin/revocations'' ERevoke,
      Router_route ''GET'' ''/admin/revocations'' EListRevocations,
      Router_route ''GET'' ''/admin/audit'' EAuditLog]"

text \<open>One request, from the exchange to the response.\<close>

definition Idp_handle ::
  "libs \<Rightarrow> server \<Rightarrow> inputs \<Rightarrow> Request \<Rightarrow> Idp \<Rightarrow> (exn + HttpResponse) \<times> Idp" where
  "Idp_handle lb sv i req =
     Router_handle (lb_write lb) ApiHandlers_router (run_endpoint lb sv i) req"

section \<open>What a handler can do to the state\<close>

named_theorems handler_defs

lemmas handler_definitions [handler_defs] =
  handler_token_def handler_jwks_def handler_discovery_def handler_health_def
  handler_openApiYaml_def handler_openApiJson_def handler_docs_def handler_asset_def
  handler_registerClient_def handler_listClients_def handler_deleteClient_def
  handler_setGrants_def handler_rotateKeys_def handler_revoke_def handler_listRevocations_def
  handler_auditLog_def

definition admin_endpoint :: "Endpoint \<Rightarrow> bool" where
  "admin_endpoint e \<longleftrightarrow>
     e \<in> {ERegisterClient, EListClients, EDeleteClient, ESetGrants, ERotateKeys, ERevoke,
          EListRevocations, EAuditLog}"

lemma admin_endpoint_guard:
  "admin_endpoint e \<Longrightarrow> \<not> isValid (sv_admin sv) (ctx_header ctx ''Authorization'') \<Longrightarrow>
     run_endpoint lb sv i e ctx s = (Inl unauthorized, s)"
  by (cases e) (simp_all add: admin_endpoint_def handler_defs handler_requireAdmin_def requireAdmin_def)

text \<open>
  A handler keeps every relation that its service calls keep, with the exceptions they have.
  The premises list the calls; each handler makes at most one of them besides the audit entry.
\<close>

lemma endpoint_settles:
  assumes R: "preorder_rel R"
    and audit: "\<And>t out ev cid det. settles X R (audit_record t out ev cid det)"
    and jwks: "e = EJwks \<or> e = ERotateKeys \<Longrightarrow>
      settles X R (on_keys (SigningKeyService_jwkSet (retiredKeyRetention (sv_config sv)) (in_now i 0)))"
    and reg: "\<And>dn g au. e = ERegisterClient \<Longrightarrow> handler_toAuthorization g = Inr au \<Longrightarrow>
      settles X R (on_clients (ClientService_register (lb_argon2 lb) (sc_argonSettings (sv_config sv))
                (in_bytes i 0) (in_bytes i 1) (in_bytes i 2) (in_now i 0) (in_save i 0) dn (Some au)))"
    and del: "\<And>k. e = EDeleteClient \<Longrightarrow> settles X R (on_clients (ClientService_remove (in_save i 0) k))"
    and set: "\<And>k g au. e = ESetGrants \<Longrightarrow> handler_toAuthorization g = Inr au \<Longrightarrow>
      settles X R (on_clients (ClientService_setAuthorization (in_save i 0) k (Some au)))"
    and rot: "e = ERotateKeys \<Longrightarrow>
      settles X R (on_keys (SigningKeyService_rotate (lb_ed lb) (retiredKeyRetention (sv_config sv))
                (in_now i 0) (in_seed i) (in_bytes i 0) (in_now i 1) (in_now i 2) (in_save i 0)))"
    and rev: "\<And>j ex why. e = ERevoke \<Longrightarrow>
      settles X R (on_revocations (RevocationService_revoke (in_now i 1) (in_now i 2) (in_save i 0) j ex why))"
    and list: "e = EListRevocations \<Longrightarrow>
      settles X R (on_revocations (\<lambda>v. (let (es, v') = RevocationService_activeDenylist (in_now i 0) v
                                    in (Inr es, v'))))"
  shows "settles X R (run_endpoint lb sv i e ctx)"
  by (cases e)
     (auto simp: handler_defs Let_def simp del: One_nat_def split: prod.split
       intro!: settles_intros R audit jwks reg del set rot rev list [unfolded Let_def])

lemmas endpoint_keeps = endpoint_settles [where X = "\<lambda>_. False"]

lemma on_clients_frame:
  "on_clients f s = (r, s') \<Longrightarrow> id_keys s' = id_keys s \<and> id_revocations s' = id_revocations s
     \<and> id_audit s' = id_audit s \<and> f (id_clients s) = (r, id_clients s')"
  by (auto simp: on_clients_def Let_def split: prod.splits)

lemma on_keys_frame:
  "on_keys f s = (r, s') \<Longrightarrow> id_clients s' = id_clients s \<and> id_revocations s' = id_revocations s
     \<and> id_audit s' = id_audit s \<and> f (id_keys s) = (r, id_keys s')"
  by (auto simp: on_keys_def Let_def split: prod.splits)

lemma on_revocations_frame:
  "on_revocations f s = (r, s') \<Longrightarrow> id_clients s' = id_clients s \<and> id_keys s' = id_keys s
     \<and> id_audit s' = id_audit s \<and> f (id_revocations s) = (r, id_revocations s')"
  by (auto simp: on_revocations_def Let_def split: prod.splits)

lemma audit_record_frame:
  "audit_record t out ev cid det s = (r, s') \<Longrightarrow> id_clients s' = id_clients s
     \<and> id_keys s' = id_keys s \<and> id_revocations s' = id_revocations s
     \<and> AuditService_record t out ev cid det (id_audit s) = (r, id_audit s')"
  by (auto simp: audit_record_def Let_def split: prod.splits)

text \<open>The audit log only grows.\<close>

definition audit_grows :: "Idp \<Rightarrow> Idp \<Rightarrow> bool" where
  "audit_grows s t \<longleftrightarrow> (\<exists>es. au_entries (id_audit t) = au_entries (id_audit s) @ es)"

lemma audit_grows_preorder: "preorder_rel audit_grows"
  by (auto simp: preorder_rel_def audit_grows_def)

lemma endpoint_audit_grows: "keeps audit_grows (run_endpoint lb sv i e ctx)"
  by (rule endpoint_keeps [OF audit_grows_preorder]; rule keepsI;
      auto simp: audit_grows_def record_entries(1)
        dest!: on_clients_frame on_keys_frame on_revocations_frame audit_record_frame)

text \<open>Who may change the clients, the denylist and the signing keys.\<close>

definition same_registry :: "Idp \<Rightarrow> Idp \<Rightarrow> bool" where
  "same_registry s t \<longleftrightarrow> id_clients t = id_clients s"

definition same_denylist :: "Idp \<Rightarrow> Idp \<Rightarrow> bool" where
  "same_denylist s t \<longleftrightarrow> id_revocations t = id_revocations s"

definition same_signer :: "Idp \<Rightarrow> Idp \<Rightarrow> bool" where
  "same_signer s t \<longleftrightarrow> sk_activeKid (id_keys t) = sk_activeKid (id_keys s)
     \<and> sk_store (id_keys t) = sk_store (id_keys s)
     \<and> filter kr_active (sk_keys (id_keys t)) = filter kr_active (sk_keys (id_keys s))"

lemma frame_preorders: "preorder_rel same_registry" "preorder_rel same_denylist"
  "preorder_rel same_signer"
  by (auto simp: preorder_rel_def same_registry_def same_denylist_def same_signer_def)

lemma jwkSet_effect:
  assumes "SigningKeyService_jwkSet r t k = (res, k')"
  shows "k' = pruneExpiredRetired r t k" and "filter kr_active (sk_keys k') = filter kr_active (sk_keys k)"
    and "sk_activeKid k' = sk_activeKid k" and "sk_store k' = sk_store k"
proof -
  show k': "k' = pruneExpiredRetired r t k"
    using assms by (simp add: SigningKeyService_jwkSet_def Let_def)
  have "(\<not> expired_retired r t x \<and> kr_active x) = kr_active x" for x by auto
  then show "filter kr_active (sk_keys k') = filter kr_active (sk_keys k)"
    by (simp add: k' pruneExpiredRetired_def conj_commute)
  show "sk_activeKid k' = sk_activeKid k" "sk_store k' = sk_store k"
    by (simp_all add: k' pruneExpiredRetired_def)
qed

lemma endpoint_same_registry:
  "e \<notin> {ERegisterClient, EDeleteClient, ESetGrants} \<Longrightarrow> keeps same_registry (run_endpoint lb sv i e ctx)"
  by (rule endpoint_keeps [OF frame_preorders(1)]; (rule keepsI)?;
      auto simp: same_registry_def dest!: on_keys_frame on_revocations_frame audit_record_frame)

lemma endpoint_same_denylist:
  "e \<notin> {ERevoke, EListRevocations} \<Longrightarrow> keeps same_denylist (run_endpoint lb sv i e ctx)"
  by (rule endpoint_keeps [OF frame_preorders(2)]; (rule keepsI)?;
      auto simp: same_denylist_def dest!: on_keys_frame on_clients_frame audit_record_frame)

lemma endpoint_same_signer:
  "e \<noteq> ERotateKeys \<Longrightarrow> keeps same_signer (run_endpoint lb sv i e ctx)"
  by (rule endpoint_keeps [OF frame_preorders(3)]; (rule keepsI)?;
      auto simp: same_signer_def dest!: on_revocations_frame on_clients_frame audit_record_frame
        on_keys_frame dest: jwkSet_effect(2-4))

section \<open>The invariant of the server state\<close>

definition idp_inv :: "ed25519 \<Rightarrow> Idp \<Rightarrow> bool" where
  "idp_inv ed s \<longleftrightarrow>
     clients_inv (id_clients s) \<and> keys_inv ed (id_keys s) \<and> revocations_inv (id_revocations s)"

definition keeps_inv :: "ed25519 \<Rightarrow> Idp \<Rightarrow> Idp \<Rightarrow> bool" where
  "keeps_inv ed s t \<longleftrightarrow> (idp_inv ed s \<longrightarrow> idp_inv ed t)"

lemma handler_toAuthorization_wf: "handler_toAuthorization g = Inr au \<Longrightarrow> wf_authorization au"
  by (auto simp: handler_toAuthorization_def dest: toAuthorization_wf
      split: option.splits sum.splits exn.splits)

lemma register_request_inv:
  "handler_toAuthorization g = Inr au \<Longrightarrow> clients_inv c \<Longrightarrow> wf_settings st \<Longrightarrow>
     ClientService_register argon2 st ib sb salt now out dn (Some au) c = (r, c') \<Longrightarrow> clients_inv c'"
  by (rule register_inv) (auto dest: handler_toAuthorization_wf)

lemma grants_request_inv:
  "handler_toAuthorization g = Inr au \<Longrightarrow> clients_inv c \<Longrightarrow>
     ClientService_setAuthorization out k (Some au) c = (r, c') \<Longrightarrow> clients_inv c'"
  by (rule setAuthorization_inv) (auto dest: handler_toAuthorization_wf)

lemma jwkSet_inv: "keys_inv ed k \<Longrightarrow> SigningKeyService_jwkSet r t k = (res, k') \<Longrightarrow> keys_inv ed k'"
  by (auto dest: jwkSet_effect(1) intro: keys_inv_prune)

lemma denylist_inv:
  "revocations_inv v \<Longrightarrow> RevocationService_prune t v = v' \<Longrightarrow> revocations_inv v'"
  by (auto intro: revocations_inv_prune)

lemmas service_invs =
  register_request_inv grants_request_inv remove_inv jwkSet_inv revoke_inv denylist_inv

lemma endpoint_keeps_inv:
  assumes "wf_settings (sc_argonSettings (sv_config sv))" and "e \<noteq> ERotateKeys"
  shows "keeps (keeps_inv ed) (run_endpoint lb sv i e ctx)"
proof -
  have pre: "preorder_rel (keeps_inv ed)" by (auto simp: preorder_rel_def keeps_inv_def)
  show ?thesis
    by (rule endpoint_keeps [OF pre]; (rule keepsI)?; insert assms;
        auto simp: keeps_inv_def idp_inv_def RevocationService_activeDenylist_def Let_def
          dest!: on_keys_frame on_revocations_frame on_clients_frame audit_record_frame
          intro: service_invs)
qed

text \<open>A rotation through the API: the service call, or nothing.\<close>

lemma rotate_endpoint:
  assumes "run_endpoint lb sv i ERotateKeys ctx s = (r, s')"
  shows "id_clients s' = id_clients s" and "id_revocations s' = id_revocations s"
    and "id_keys s' = id_keys s \<or>
      (isValid (sv_admin sv) (ctx_header ctx ''Authorization'') \<and>
       id_keys s' = snd (SigningKeyService_rotate (lb_ed lb) (retiredKeyRetention (sv_config sv))
         (in_now i 0) (in_seed i) (in_bytes i 0) (in_now i 1) (in_now i 2) (in_save i 0) (id_keys s)))"
  using assms
  by (auto simp: handler_rotateKeys_def handler_requireAdmin_def requireAdmin_def st_then_def st_lift_def
      on_keys_def audit_record_def Let_def simp del: One_nat_def split: prod.splits sum.splits if_splits)

lemma endpoint_inv:
  assumes inv: "idp_inv (lb_ed lb) s" and st: "wf_settings (sc_argonSettings (sv_config sv))"
    and seed: "length (in_seed i) = 32"
    and fresh: "newKid (in_bytes i 0) \<notin> kr_kid ` set (sk_keys (id_keys s))"
    and run: "run_endpoint lb sv i e ctx s = (r, s')"
  shows "idp_inv (lb_ed lb) s'"
proof (cases "e = ERotateKeys")
  case True
  note rot = rotate_endpoint [OF run [unfolded True]]
  have "keys_inv (lb_ed lb) (snd (SigningKeyService_rotate (lb_ed lb) (retiredKeyRetention (sv_config sv))
         (in_now i 0) (in_seed i) (in_bytes i 0) (in_now i 1) (in_now i 2) (in_save i 0) (id_keys s)))"
    using rotate_inv [OF _ seed fresh prod.collapse [symmetric]] inv by (simp add: idp_inv_def)
  with rot inv show ?thesis by (auto simp: idp_inv_def)
next
  case False
  from keepsD [OF endpoint_keeps_inv [OF st False] run] inv show ?thesis
    by (simp add: keeps_inv_def)
qed

section \<open>The route table\<close>

lemma is_variable_js [simp]:
  "is_variable (js s) \<longleftrightarrow> 1 < length s \<and> hd s = CHR ''{'' \<and> last s = CHR ''}''"
proof (cases "s = []")
  case False
  have "hd (js s) = 123 \<longleftrightarrow> hd s = CHR ''{''" "last (js s) = 125 \<longleftrightarrow> last s = CHR ''}''"
    using False of_char_jchar_eq_iff [of "hd s" "CHR ''{''"] of_char_jchar_eq_iff [of "last s" "CHR ''}''"]
    by (simp_all add: js_def hd_map last_map)
  then show ?thesis by (auto simp: is_variable_def)
qed (simp add: is_variable_def js_def)

lemma route_splits:
  "Router_split (js ''/oauth/token'') = [js ''oauth'', js ''token'']"
  "Router_split (js ''/.well-known/jwks.json'') = [js ''.well-known'', js ''jwks.json'']"
  "Router_split (js ''/.well-known/idp-configuration'') = [js ''.well-known'', js ''idp-configuration'']"
  "Router_split (js ''/health'') = [js ''health'']"
  "Router_split (js ''/openapi.yaml'') = [js ''openapi.yaml'']"
  "Router_split (js ''/openapi.json'') = [js ''openapi.json'']"
  "Router_split (js ''/docs'') = [js ''docs'']"
  "Router_split (js ''/docs/swagger-ui.css'') = [js ''docs'', js ''swagger-ui.css'']"
  "Router_split (js ''/docs/swagger-ui-bundle.js'') = [js ''docs'', js ''swagger-ui-bundle.js'']"
  "Router_split (js ''/admin/clients'') = [js ''admin'', js ''clients'']"
  "Router_split (js ''/admin/clients/{id}'') = [js ''admin'', js ''clients'', js ''{id}'']"
  "Router_split (js ''/admin/clients/{id}/grants'') = [js ''admin'', js ''clients'', js ''{id}'', js ''grants'']"
  "Router_split (js ''/admin/keys/rotate'') = [js ''admin'', js ''keys'', js ''rotate'']"
  "Router_split (js ''/admin/revocations'') = [js ''admin'', js ''revocations'']"
  "Router_split (js ''/admin/audit'') = [js ''admin'', js ''audit'']"
  by code_simp+

lemma route_table:
  "r \<in> set ApiHandlers_router \<Longrightarrow> route_matches r (js ''admin'' # segs) \<Longrightarrow> admin_endpoint (ro_handler r)"
  by (auto simp: ApiHandlers_router_def Router_route_def route_splits route_matches_def admin_endpoint_def)

lemma Idp_handle_cases:
  assumes "Idp_handle lb sv i req s = (r, s')"
  obtains (nothing) st er de where "s' = s" and "r = errorResponse (lb_write lb) st er de"
      and "st \<in> {404, 405}"
      and "find (\<lambda>q. route_matches q (Router_split (rq_path req)) \<and> ro_method q = rq_method req)
             ApiHandlers_router = None"
    | (endpoint) route params res where "route \<in> set ApiHandlers_router"
      and "route_matches route (Router_split (rq_path req))" and "ro_method route = rq_method req"
      and "run_endpoint lb sv i (ro_handler route)
             \<lparr>rc_request = req, rc_pathParams = params\<rparr> s = (res, s')"
      and "Router_match (ro_segments route) (Router_split (rq_path req)) = Some params"
      and "r = (case res of Inr response \<Rightarrow> Inr response
                | Inl (ApiException st er de) \<Rightarrow> errorResponse (lb_write lb) st er de
                | Inl _ \<Rightarrow> errorResponse (lb_write lb) 500 (js ''internal_error'')
                             (js ''an unexpected error occurred''))"
proof (cases "find (\<lambda>q. route_matches q (Router_split (rq_path req)) \<and> ro_method q = rq_method req)
             ApiHandlers_router")
  case None
  with assms have "s' = s" and "r = (if list_ex (\<lambda>q. route_matches q (Router_split (rq_path req)))
        ApiHandlers_router
      then errorResponse (lb_write lb) 405 (js ''method_not_allowed'')
             (js ''method not allowed for this resource'')
      else errorResponse (lb_write lb) 404 (js ''not_found'')
             (js ''no such resource: '' @ rq_path req))"
    by (auto simp: Idp_handle_def Router_handle_def Router_dispatch_def dispatch_loop_find
        notFound_def split: if_splits)
  then obtain st er de where "s' = s" "r = errorResponse (lb_write lb) st er de" "st \<in> {404, 405}"
    by (auto split: if_splits)
  from this None show ?thesis by (rule nothing)
next
  case (Some route)
  then have route: "route \<in> set ApiHandlers_router"
    "route_matches route (Router_split (rq_path req))" "ro_method route = rq_method req"
    by (auto simp: find_Some_iff)
  then obtain params where params:
    "Router_match (ro_segments route) (Router_split (rq_path req)) = Some params"
    by (auto simp flip: Router_match_iff)
  obtain res t where run: "run_endpoint lb sv i (ro_handler route)
             \<lparr>rc_request = req, rc_pathParams = params\<rparr> s = (res, t)" by (rule prod.exhaust)
  with assms Some params have "t = s'" and "r = (case res of Inr response \<Rightarrow> Inr response
                | Inl e \<Rightarrow> (case e of ApiException st er de \<Rightarrow> errorResponse (lb_write lb) st er de
                | _ \<Rightarrow> errorResponse (lb_write lb) 500 (js ''internal_error'')
                             (js ''an unexpected error occurred'')))"
    by (auto simp: Idp_handle_def Router_handle_def Router_dispatch_def dispatch_loop_find)
  then show ?thesis
    using endpoint [OF route _ params] run by (auto split: sum.splits)
qed

lemma Idp_handle_found:
  assumes "find (\<lambda>q. route_matches q (Router_split (rq_path req)) \<and> ro_method q = rq_method req)
      ApiHandlers_router = Some route"
    and "Router_match (ro_segments route) (Router_split (rq_path req)) = Some params"
    and "run_endpoint lb sv i (ro_handler route) \<lparr>rc_request = req, rc_pathParams = params\<rparr> s = (Inr resp, s')"
  shows "Idp_handle lb sv i req s = (Inr resp, s')"
  using assms by (simp add: Idp_handle_def Router_handle_def Router_dispatch_def dispatch_loop_find)

end
