(* ===== verification/ApiProps.thy ===== *)
theory ApiProps
  imports Handlers
begin

text \<open>
  What the API guarantees, over the handlers of \<open>Handlers\<close>: the admin guard, what requests
  without the admin token can change, the token endpoint's single failure, and the effect
  of the admin operations.
\<close>

section \<open>Auxiliary facts\<close>

lemma verify_secret_total:
  assumes "wf_hash h" and "\<And>pw salt st. \<exists>b. argon2 pw salt st = Inr b"
  shows "\<exists>ok. verify_secret argon2 (Some p) (Some h) = Inr ok"
proof -
  from assms(1) obtain salt hash st where st: "wf_settings st" and h: "h =
        \<lparr>sh_algorithm = ALGORITHM_ARGON2ID, sh_saltBase64 = base64_std salt,
         sh_hashBase64 = base64_std hash, sh_memoryKiB = as_memoryKiB st,
         sh_iterations = as_iterations st, sh_parallelism = as_parallelism st\<rparr>"
    by (auto simp: wf_hash_def)
  show ?thesis
  proof (cases "p = []")
    case True
    then have "verify_secret argon2 (Some p) (Some h) = Inr False" by (simp add: verify_secret_def)
    then show ?thesis ..
  next
    case False
    obtain b where "argon2 (toUtf8 p) salt st = Inr b" using assms(2) by blast
    with st False have "verify_secret argon2 (Some p) (Some h) = Inr (hash = b)"
      by (simp add: verify_secret_def h base64.dec_enc SecretHash_settings_def
          mk_Argon2Settings_same derive_def)
    then show ?thesis ..
  qed
qed

lemma verify_dummy_total:
  assumes "\<And>pw salt st. \<exists>b. argon2 pw salt st = Inr b"
  shows "\<exists>ok. verify_secret argon2 (Some p) (Some DUMMY_HASH) = Inr ok"
proof (cases "p = []")
  case True
  then have "verify_secret argon2 (Some p) (Some DUMMY_HASH) = Inr False"
    by (simp add: verify_secret_def)
  then show ?thesis ..
next
  case False
  obtain b where "argon2 (toUtf8 p) (replicate 16 0)
      \<lparr>as_memoryKiB = 8, as_iterations = 1, as_parallelism = 1\<rparr> = Inr b" using assms by blast
  then have "verify_secret argon2 (Some p) (Some DUMMY_HASH) = Inr (replicate 32 0 = b)"
    unfolding verify_dummy [OF False] by simp
  then show ?thesis ..
qed

lemma authenticate_total:
  assumes inv: "clients_inv c" and argon: "\<And>pw salt st. \<exists>b. argon2 pw salt st = Inr b"
  shows "\<exists>res. ClientService_authenticate argon2 (Some k) (Some p) c = Inr res"
proof (cases "lhm_get (cs_clients c) k")
  case None
  with verify_dummy_total [of argon2 p] argon show ?thesis by (auto simp: ClientService_authenticate_def)
next
  case (Some r)
  from clients_get_wf [OF inv Some] obtain h where "cr_secretHash r = Some h" "wf_hash h"
    by (auto simp: wf_client_def)
  with verify_secret_total [of h argon2 p] argon Some show ?thesis
    by (auto simp: ClientService_authenticate_def)
qed

section \<open>A concrete server\<close>

definition demo_libs :: libs where
  "demo_libs =
     \<lparr>lb_ed = demo_ed, lb_jackson = demo_jackson, lb_argon2 = demo_argon2,
      lb_write = (\<lambda>t. Some (json_bytes t)), lb_yaml = (\<lambda>_. Some (JObject [])),
      lb_register = (\<lambda>b. if b = null_text then Some None
                         else Some (Some \<lparr>rr_displayName = None, rr_authorization = None\<rparr>)),
      lb_grants = (\<lambda>b. if b = null_text then Some None
                       else Some (Some \<lparr>gc_control = False, gc_groups = Some []\<rparr>)),
      lb_revocation = (\<lambda>b. if b = null_text then Some None
                          else Some (Some \<lparr>rx_jti = Some (js ''t1''), rx_expiresAt = None,
                                           rx_reason = None\<rparr>))\<rparr>"

definition demo_server :: server where
  "demo_server =
     \<lparr>sv_config = demo_config, sv_issuer = demo_issuer,
      sv_admin = \<lparr>aa_expectedToken = utf8_encode (js ''s3cret'')\<rparr>,
      sv_openApi = \<lparr>od_yaml = [], od_json = json_bytes (JObject [])\<rparr>, sv_resources = (\<lambda>_. Some (Some []))\<rparr>"

lemma demo_openApi:
  "OpenApiDocument_load (lb_yaml demo_libs) (lb_write demo_libs) (\<lambda>_. Some (Some []))
     = Inr \<lparr>od_yaml = [], od_json = json_bytes (JObject [])\<rparr>"
  by (simp add: OpenApiDocument_load_def StaticResource_bytes_def demo_libs_def)

definition demo_idp :: Idp where
  "demo_idp =
     \<lparr>id_clients = demo_clients, id_keys = demo_keys, id_revocations = demo_denylist,
      id_audit = \<lparr>au_entries = [], au_store = Absent\<rparr>\<rparr>"

definition demo_inputs :: inputs where
  "demo_inputs = \<lparr>in_now = (\<lambda>_. 200), in_bytes = (\<lambda>n. [of_nat n, 9]), in_seed = replicate 32 2,
     in_save = (\<lambda>_. Saved)\<rparr>"

definition demo_request ::
  "string \<Rightarrow> string \<Rightarrow> jstring option \<Rightarrow> byte list \<Rightarrow> Request" where
  "demo_request m p auth body =
     \<lparr>rq_method = js m, rq_path = js p,
      rq_header = (\<lambda>h. if h = js ''Authorization'' then auth else None), rq_body = Some body\<rparr>"

lemma demo_sel [simp]:
  "lb_ed demo_libs = demo_ed" "lb_jackson demo_libs = demo_jackson"
  "lb_argon2 demo_libs = demo_argon2" "lb_write demo_libs t = Some (json_bytes t)"
  "sv_issuer demo_server = demo_issuer" "in_now demo_inputs n = 200"
  "in_bytes demo_inputs n = [of_nat n, 9]" "in_save demo_inputs n = Saved"
  "id_keys demo_idp = demo_keys" "au_entries (id_audit demo_idp) = []"
  "sv_config demo_server = demo_config"
  by (simp_all add: demo_libs_def demo_server_def demo_inputs_def demo_idp_def)

lemma demo_admin: "isValid (sv_admin demo_server) (Some (js ''Bearer s3cret''))"
proof -
  have "java_trim (js ''s3cret'') = js ''s3cret''"
    unfolding java_trim_def by (rule trim_by_id) (simp add: js_def)
  then have "bearerToken (Some (js ''Bearer '' @ js ''s3cret'')) = Some (js ''s3cret'')"
    by (intro bearerToken_presented) simp_all
  then show ?thesis by (simp add: isValid_def demo_server_def flip: js_append)
qed

section \<open>Properties\<close>

text \<open>
  C9. The admin API is guarded: a request to any path under \<open>/admin\<close> without the admin
  token changes nothing, and is answered 401 (or 404 or 405, when no route matches).
\<close>

theorem admin_paths_guarded:
  assumes "Router_split (rq_path req) = js ''admin'' # segs"
    and "\<not> isValid (sv_admin sv) (rq_header req (js ''Authorization''))"
    and "Idp_handle lb sv i req s = (r, s')"
  shows "s' = s \<and> (\<exists>st er de. r = errorResponse (lb_write lb) st er de \<and> st \<in> {401, 404, 405})"
  using assms(3)
proof (cases rule: Idp_handle_cases)
  case (nothing st er de)
  then show ?thesis by blast
next
  case (endpoint route params res)
  have "admin_endpoint (ro_handler route)"
    using route_table endpoint(1,2) assms(1) by simp
  from admin_endpoint_guard [OF this, of sv "\<lparr>rc_request = req, rc_pathParams = params\<rparr>"] assms(2) endpoint(4)
  have "res = Inl unauthorized" "s' = s" by (simp_all add: ctx_header_def)
  with endpoint(6) show ?thesis by (auto simp: unauthorized_def)
qed

theorem admin_paths_guarded_witness:
  "snd (Idp_handle demo_libs demo_server demo_inputs
     (demo_request ''DELETE'' ''/admin/clients/client_a'' None []) demo_idp) = demo_idp"
proof -
  let ?req = "demo_request ''DELETE'' ''/admin/clients/client_a'' None []"
  have "Router_split (js ''/admin/clients/client_a'') = [js ''admin'', js ''clients'', js ''client_a'']"
    by code_simp
  then have p: "Router_split (rq_path ?req) = js ''admin'' # [js ''clients'', js ''client_a'']"
    by (simp add: demo_request_def)
  have v: "\<not> isValid (sv_admin demo_server) (rq_header ?req (js ''Authorization''))"
    by (simp add: demo_request_def isValid_def bearerToken_def)
  obtain r s' where h: "Idp_handle demo_libs demo_server demo_inputs ?req demo_idp = (r, s')"
    by (rule prod.exhaust)
  from admin_paths_guarded [OF p v h] h show ?thesis by simp
qed

text \<open>
  C10. Without the admin token no request, whatever its path, changes the client registry,
  the denylist or the active signing key; the audit log can only grow.
\<close>

theorem unauthenticated_frame:
  assumes "\<not> isValid (sv_admin sv) (rq_header req (js ''Authorization''))"
    and "Idp_handle lb sv i req s = (r, s')"
  shows "id_clients s' = id_clients s \<and> id_revocations s' = id_revocations s
     \<and> same_signer s s' \<and> audit_grows s s'"
  using assms(2)
proof (cases rule: Idp_handle_cases)
  case (nothing st er de)
  then show ?thesis
    using frame_preorders(3) audit_grows_preorder by (simp add: preorder_rel_def)
next
  case (endpoint route params res)
  let ?e = "ro_handler route"
  show ?thesis
  proof (cases "admin_endpoint ?e")
    case True
    from admin_endpoint_guard [OF this, of sv "\<lparr>rc_request = req, rc_pathParams = params\<rparr>"]
      assms(1) endpoint(4) have "s' = s" by (simp add: ctx_header_def)
    then show ?thesis
      using frame_preorders(3) audit_grows_preorder by (simp add: preorder_rel_def)
  next
    case False
    then have e: "?e \<notin> {ERegisterClient, EDeleteClient, ESetGrants}"
      "?e \<notin> {ERevoke, EListRevocations}" "?e \<noteq> ERotateKeys" by (auto simp: admin_endpoint_def)
    show ?thesis
      using keepsD [OF endpoint_same_registry [OF e(1)] endpoint(4)]
        keepsD [OF endpoint_same_denylist [OF e(2)] endpoint(4)]
        keepsD [OF endpoint_same_signer [OF e(3)] endpoint(4)]
        keepsD [OF endpoint_audit_grows endpoint(4)]
      by (simp add: same_registry_def same_denylist_def)
  qed
qed

theorem unauthenticated_frame_witness:
  "id_clients (snd (Idp_handle demo_libs demo_server demo_inputs
     (demo_request ''GET'' ''/.well-known/jwks.json'' None []) demo_idp)) = demo_clients"
proof -
  let ?req = "demo_request ''GET'' ''/.well-known/jwks.json'' None []"
  have v: "\<not> isValid (sv_admin demo_server) (rq_header ?req (js ''Authorization''))"
    by (simp add: demo_request_def isValid_def bearerToken_def)
  obtain r s' where h: "Idp_handle demo_libs demo_server demo_inputs ?req demo_idp = (r, s')"
    by (rule prod.exhaust)
  from unauthenticated_frame [OF v h] h show ?thesis by (simp add: demo_idp_def)
qed

text \<open>
  C22. No credential oracle: when the credentials of a token request are not those of an
  enabled client, for whatever reason, the answer is the one \<open>invalid_client\<close> error and
  nothing changes.
\<close>

theorem token_failure_uniform:
  assumes "clients_inv (id_clients s)" and "\<And>pw salt st. \<exists>b. lb_argon2 lb pw salt st = Inr b"
    and "formParams ctx = Inr form" and "form (js ''grant_type'') = Some (js ''client_credentials'')"
    and "\<not> (\<exists>k p c. token_credentials form ctx = (Some k, Some p)
              \<and> ClientService_get k (id_clients s) = Some c \<and> cr_enabled c
              \<and> verify_secret (lb_argon2 lb) (Some p) (cr_secretHash c) = Inr True)"
  shows "run_endpoint lb sv i EToken ctx s = (Inl invalidClient, s)"
proof -
  obtain i' p' where cr: "token_credentials form ctx = (i', p')" by (rule prod.exhaust)
  show ?thesis
  proof (cases "i' = None \<or> p' = None")
    case True
    with assms(3,4) cr show ?thesis by (auto simp: handler_token_def st_lift_def)
  next
    case False
    then obtain k p where kp: "i' = Some k" "p' = Some p" by auto
    obtain res where res: "ClientService_authenticate (lb_argon2 lb) (Some k) (Some p) (id_clients s) = Inr res"
      using authenticate_total [OF assms(1)] assms(2) by blast
    have "res = None"
    proof (rule ccontr)
      assume "res \<noteq> None"
      with res assms(5) cr kp show False by (auto simp: authenticate_Some_iff ClientService_get_def)
    qed
    with res cr kp assms(3,4) show ?thesis
      by (simp add: handler_token_def st_read_def) (simp add: st_lift_def)
  qed
qed

lemma demo_idp_clients_inv: "clients_inv (id_clients demo_idp)"
  by (simp add: demo_idp_def demo_clients_inv)

theorem token_failure_uniform_witness:
  "\<exists>form. formParams \<lparr>rc_request = demo_request ''POST'' ''/oauth/token'' None
        (utf8_encode (js ''grant_type=client_credentials'')), rc_pathParams = (\<lambda>_. None)\<rparr> = Inr form
     \<and> run_endpoint demo_libs demo_server demo_inputs EToken
        \<lparr>rc_request = demo_request ''POST'' ''/oauth/token'' None
           (utf8_encode (js ''grant_type=client_credentials'')), rc_pathParams = (\<lambda>_. None)\<rparr> demo_idp
       = (Inl invalidClient, demo_idp)"
proof -
  let ?ps = "[(js ''grant_type'', js ''client_credentials'')]"
  let ?ctx = "\<lparr>rc_request = demo_request ''POST'' ''/oauth/token'' None
      (utf8_encode (js ''grant_type=client_credentials'')), rc_pathParams = (\<lambda>_. None)\<rparr>"
  have t: "js ''grant_type=client_credentials'' = form_text ?ps" by code_simp
  have f: "formParams ?ctx = Inr (map_of (rev ?ps))"
    unfolding t
  proof (rule form_plain)
    show "utf16_ok (form_text ?ps)" unfolding t [symmetric] by (rule utf16_ok_js) simp
    show "\<not> is_blank (form_text ?ps)"
      by (simp add: form_text_def is_blank_def is_whitespace_def js_def)
    have "list_all (\<lambda>(k, v). plain_form k \<and> plain_form v) ?ps" by code_simp
    then show "plain_form k \<and> plain_form v" if "(k, v) \<in> set ?ps" for k v
      using that unfolding list_all_iff by blast
  qed (simp_all add: demo_request_def)
  have "run_endpoint demo_libs demo_server demo_inputs EToken ?ctx demo_idp = (Inl invalidClient, demo_idp)"
  proof (rule token_failure_uniform [OF demo_idp_clients_inv _ f])
    show "\<exists>b. lb_argon2 demo_libs pw salt st = Inr b" for pw salt st
      by (simp add: demo_libs_def demo_argon2_def)
  qed (simp_all add: token_credentials_def ctx_header_def demo_request_def basicCredentials_def)
  with f show ?thesis by blast
qed

text \<open>
  C21. A token response means: the request asked for the client-credentials grant, the client id
  and the secret it carried, in its form or in its Basic header, are those of an enabled
  client, the token in the response was issued to that client and signed by the current key,
  and the issuance is in the audit log under the token's id, in memory and on disk; nothing
  else changed.
\<close>

theorem token_issued_is_audited:
  assumes "run_endpoint lb sv i EToken ctx s = (Inr response, s')"
  shows "\<exists>form k p c tok. formParams ctx = Inr form
     \<and> form (js ''grant_type'') = Some (js ''client_credentials'')
     \<and> token_credentials form ctx = (Some k, Some p)
     \<and> ClientService_get k (id_clients s) = Some c \<and> cr_enabled c
     \<and> verify_secret (lb_argon2 lb) (Some p) (cr_secretHash c) = Inr True
     \<and> TokenIssuer_issue (lb_ed lb) (lb_jackson lb) (sv_issuer sv) (in_now i 0) (in_bytes i 0)
         (id_keys s) c = Inr tok
     \<and> HttpResponse_json (lb_write lb) 200 (token_json tok) = Inr response
     \<and> au_entries (id_audit s') = au_entries (id_audit s) @
         [\<lparr>ae_at = in_now i 1, ae_event = js ''token.issued'', ae_clientId = Some (cr_clientId c),
           ae_detail = Some (js ''jti='' @ it_jti tok)\<rparr>]
     \<and> au_store (id_audit s') = Doc (au_entries (id_audit s'))
     \<and> id_clients s' = id_clients s \<and> id_keys s' = id_keys s \<and> id_revocations s' = id_revocations s"
proof -
  from assms obtain form i' p' where form: "formParams ctx = Inr form"
    "token_credentials form ctx = (i', p')" "i' \<noteq> None" "p' \<noteq> None"
    "form (js ''grant_type'') = Some (js ''client_credentials'')"
    and rest: "st_then (st_lift (ClientService_authenticate (lb_argon2 lb) i' p' (id_clients s)))
          (\<lambda>authenticated.
             case authenticated of None \<Rightarrow> st_lift (Inl invalidClient)
             | Some client \<Rightarrow> st_read id_keys (\<lambda>signingKeys.
                 st_then (st_lift (TokenIssuer_issue (lb_ed lb) (lb_jackson lb) (sv_issuer sv)
                            (in_now i 0) (in_bytes i 0) signingKeys client)) (\<lambda>issued.
                 st_then (audit_record (in_now i 1) (in_save i 0) (js ''token.issued'')
                            (Some (cr_clientId client)) (Some (js ''jti='' @ it_jti issued)))
                   (\<lambda>_. st_lift (HttpResponse_json (lb_write lb) 200 (token_json issued)))))) s
        = (Inr response, s')"
    by (cases "formParams ctx")
       (auto simp: handler_token_def st_read_def st_lift_def [of "Inl _"] simp del: One_nat_def
         split: if_splits prod.splits)
  from rest obtain c where c: "ClientService_authenticate (lb_argon2 lb) i' p' (id_clients s) = Inr (Some c)"
    by (cases "ClientService_authenticate (lb_argon2 lb) i' p' (id_clients s)")
       (auto simp: st_lift_def [of "Inl _"] split: option.splits)
  with rest obtain tok where tok: "TokenIssuer_issue (lb_ed lb) (lb_jackson lb) (sv_issuer sv)
      (in_now i 0) (in_bytes i 0) (id_keys s) c = Inr tok"
    by (cases "TokenIssuer_issue (lb_ed lb) (lb_jackson lb) (sv_issuer sv)
      (in_now i 0) (in_bytes i 0) (id_keys s) c") (auto simp: st_read_def)
  with rest c have fin: "st_then (audit_record (in_now i 1) (in_save i 0) (js ''token.issued'')
          (Some (cr_clientId c)) (Some (js ''jti='' @ it_jti tok)))
        (\<lambda>_. st_lift (HttpResponse_json (lb_write lb) 200 (token_json tok))) s = (Inr response, s')"
    by (simp add: st_read_def del: One_nat_def)
  obtain res s1 where a: "audit_record (in_now i 1) (in_save i 0) (js ''token.issued'')
      (Some (cr_clientId c)) (Some (js ''jti='' @ it_jti tok)) s = (res, s1)" by (rule prod.exhaust)
  with fin have "s1 = s'" "res = Inr ()" "HttpResponse_json (lb_write lb) 200 (token_json tok) = Inr response"
    by (auto simp: st_then_def st_lift_def simp del: One_nat_def split: sum.splits)
  with a have fr: "id_clients s' = id_clients s" "id_keys s' = id_keys s"
    "id_revocations s' = id_revocations s"
    and rec: "AuditService_record (in_now i 1) (in_save i 0) (js ''token.issued'')
      (Some (cr_clientId c)) (Some (js ''jti='' @ it_jti tok)) (id_audit s) = (Inr (), id_audit s')"
    by (auto dest!: audit_record_frame)
  have "in_save i 0 = Saved" using record_entries(2) [OF rec] by (auto split: if_splits)
  then have "au_store (id_audit s') = Doc (au_entries (id_audit s'))"
    using record_entries(3) [OF rec] by simp
  moreover from c form(3,4) obtain k p where "i' = Some k" "p' = Some p"
    "ClientService_get k (id_clients s) = Some c" "cr_enabled c"
    "verify_secret (lb_argon2 lb) (Some p) (cr_secretHash c) = Inr True"
    by (auto simp: authenticate_Some_iff ClientService_get_def)
  ultimately show ?thesis
    using record_entries(1) [OF rec] fr tok form(1,2,5)
      \<open>HttpResponse_json (lb_write lb) 200 (token_json tok) = Inr response\<close> by blast
qed

definition demo_member :: ClientRecord where
  "demo_member = demo_subject\<lparr>cr_secretHash := Some
     \<lparr>sh_algorithm = ALGORITHM_ARGON2ID, sh_saltBase64 = base64_std [4],
      sh_hashBase64 = base64_std (utf8_encode (js ''pw'') @ [4]), sh_memoryKiB = 8,
      sh_iterations = 1, sh_parallelism = 1\<rparr>\<rparr>"

definition demo_login_idp :: Idp where
  "demo_login_idp = demo_idp
     \<lparr>id_clients := \<lparr>cs_clients = [(js ''client_a'', demo_member)], cs_store = Absent\<rparr>\<rparr>"

definition demo_login :: RequestContext where
  "demo_login = \<lparr>rc_request = demo_request ''POST'' ''/oauth/token'' None (utf8_encode
     (js ''grant_type=client_credentials&client_id=client_a&client_secret=pw'')),
     rc_pathParams = (\<lambda>_. None)\<rparr>"

definition demo_form :: "jstring \<Rightarrow> jstring option" where
  "demo_form = map_of (rev
     [(js ''grant_type'', js ''client_credentials''), (js ''client_id'', js ''client_a''),
      (js ''client_secret'', js ''pw'')])"

lemma demo_form [simp]:
  "demo_form (js ''grant_type'') = Some (js ''client_credentials'')"
  "demo_form (js ''client_id'') = Some (js ''client_a'')"
  "demo_form (js ''client_secret'') = Some (js ''pw'')"
  by (simp_all add: demo_form_def)

lemma demo_login_form: "formParams demo_login = Inr demo_form"
proof -
  let ?ps = "[(js ''grant_type'', js ''client_credentials''), (js ''client_id'', js ''client_a''),
      (js ''client_secret'', js ''pw'')]"
  have t: "js ''grant_type=client_credentials&client_id=client_a&client_secret=pw'' = form_text ?ps"
    by code_simp
  show ?thesis
    unfolding demo_form_def
  proof (rule form_plain)
    show "utf16_ok (form_text ?ps)" unfolding t [symmetric] by (rule utf16_ok_js) simp
    show "\<not> is_blank (form_text ?ps)"
      by (simp add: form_text_def is_blank_def is_whitespace_def js_def)
    have "list_all (\<lambda>(k, v). plain_form k \<and> plain_form v) ?ps" by code_simp
    then show "plain_form k \<and> plain_form v" if "(k, v) \<in> set ?ps" for k v
      using that unfolding list_all_iff by blast
  qed (simp_all add: demo_login_def t demo_request_def)
qed

lemma demo_member_verifies:
  "verify_secret demo_argon2 (Some (js ''pw'')) (cr_secretHash demo_member) = Inr True"
  by (simp add: demo_member_def verify_secret_def SecretHash_settings_def mk_Argon2Settings_def
      derive_def demo_argon2_def toUtf8_def base64.dec_enc word_sless_alt)

lemma demo_member_issue:
  assumes "length jb \<le> 1000"
  shows "\<exists>tok. TokenIssuer_issue demo_ed demo_jackson demo_issuer 200 jb demo_keys demo_member = Inr tok"
proof -
  have e: "instant_plus 200 (ti_tokenTtl demo_issuer) = Inr 500"
    by (simp add: instant_plus_def demo_issuer_def instant_min_def instant_max_def)
  have h: "json_plain (header_json (JwsHeader_forKid (newKid [1])))"
    by (simp add: json_plain_header plain_newKid)
  have "json_plain (claims_json (issue_claims demo_issuer 200 500 (newJti jb) demo_member))"
    using assms by (intro json_plain_claims)
      (auto simp: demo_issuer_def demo_member_def demo_subject_def plain_string_js plain_newJti)
  from issue_succeeds [OF demo_jackson_ok demo_keys_inv e demo_keys_kid(1) h this]
  show ?thesis by blast
qed

theorem token_issued_is_audited_witness:
  "\<exists>tok :: IssuedToken. au_entries (id_audit (snd (run_endpoint demo_libs demo_server demo_inputs EToken demo_login
        demo_login_idp)))
     = [\<lparr>ae_at = 200, ae_event = js ''token.issued'', ae_clientId = Some (js ''client_a''),
         ae_detail = Some (js ''jti='' @ it_jti tok)\<rparr>]"
proof -
  have auth: "ClientService_authenticate demo_argon2 (Some (js ''client_a'')) (Some (js ''pw''))
      (id_clients demo_login_idp) = Inr (Some demo_member)"
    by (simp add: authenticate_Some_iff demo_login_idp_def demo_member_verifies lhm_get_def)
       (simp add: demo_member_def demo_subject_def)
  obtain tok where issued: "TokenIssuer_issue demo_ed demo_jackson demo_issuer 200 [0, 9] demo_keys
      demo_member = Inr tok"
    using demo_member_issue [of "[0, 9]"] by auto
  obtain res s' where run: "run_endpoint demo_libs demo_server demo_inputs EToken demo_login
      demo_login_idp = (res, s')" by (rule prod.exhaust)
  have cred: "token_credentials demo_form demo_login = (Some (js ''client_a''), Some (js ''pw''))"
    by (simp add: token_credentials_def)
  have "\<exists>response. res = Inr response"
    using run auth issued
    by (auto simp: handler_token_def demo_login_form cred st_read_def st_lift_def [of "Inr _"]
        st_then_def audit_record_def AuditService_record_def HttpResponse_json_def Json_toBytes_def
        demo_login_idp_def Let_def)
  then obtain response where "run_endpoint demo_libs demo_server demo_inputs EToken demo_login
      demo_login_idp = (Inr response, s')" using run by blast
  from token_issued_is_audited [OF this]
  obtain k c and tok' :: IssuedToken where c: "ClientService_get k (id_clients demo_login_idp) = Some c"
    and entry: "au_entries (id_audit s') = au_entries (id_audit demo_login_idp) @
         [\<lparr>ae_at = in_now demo_inputs 1, ae_event = js ''token.issued'',
           ae_clientId = Some (cr_clientId c), ae_detail = Some (js ''jti='' @ it_jti tok')\<rparr>]"
    by blast
  from c have "cr_clientId c = js ''client_a''"
    by (auto simp: demo_login_idp_def ClientService_get_def lhm_get_def demo_member_def
        demo_subject_def split: if_splits)
  with entry have "au_entries (id_audit s') =
      [\<lparr>ae_at = 200, ae_event = js ''token.issued'', ae_clientId = Some (js ''client_a''),
        ae_detail = Some (js ''jti='' @ it_jti tok')\<rparr>]"
    by (simp add: demo_login_idp_def)
  then show ?thesis unfolding run by auto
qed

end
