(* ===== verification/Secrecy.thy ===== *)
theory Secrecy
  imports ApiProps
begin

text \<open>
  What a response can reveal. \<open>public_view\<close> is what is left of the state of the server when the
  secret hashes, the private keys and the files that hold both are blanked out. Two states
  with the same view are indistinguishable for every endpoint but the token endpoint, whose
  purpose is to check a secret and to sign.
\<close>

section \<open>Indistinguishability of two computations\<close>

text \<open>
  From states with the same view, the two computations raise the same exception or return
  results related by \<open>R\<close>, and leave states with the same view.
\<close>

definition indist ::
  "('s \<Rightarrow> 'v) \<Rightarrow> ('a \<Rightarrow> 'b \<Rightarrow> bool) \<Rightarrow> ('s \<Rightarrow> (exn + 'a) \<times> 's) \<Rightarrow> ('s \<Rightarrow> (exn + 'b) \<times> 's) \<Rightarrow> bool" where
  "indist view R f g \<longleftrightarrow> (\<forall>s t. view s = view t \<longrightarrow>
     rel_sum (=) R (fst (f s)) (fst (g t)) \<and> view (snd (f s)) = view (snd (g t)))"

named_theorems indist_intros

lemma indist_lift [indist_intros]: "rel_sum (=) R r q \<Longrightarrow> indist view R (st_lift r) (st_lift q)"
  by (simp add: indist_def st_lift_def)

lemma indist_then:
  assumes "indist view Q f g" and "\<And>x y. Q x y \<Longrightarrow> indist view R (h x) (k y)"
  shows "indist view R (st_then f h) (st_then g k)"
  unfolding indist_def
proof (intro allI impI)
  fix s t assume "view s = view t"
  with assms(1) have fg: "rel_sum (=) Q (fst (f s)) (fst (g t))" "view (snd (f s)) = view (snd (g t))"
    by (auto simp: indist_def)
  obtain r s' q t' where e: "f s = (r, s')" "g t = (q, t')" by (metis prod.exhaust)
  from fg(1) show "rel_sum (=) R (fst (st_then f h s)) (fst (st_then g k t))
      \<and> view (snd (st_then f h s)) = view (snd (st_then g k t))"
  proof (cases rule: rel_sum.cases)
    case (1 a b)
    then show ?thesis using fg(2) by (simp add: e st_then_def)
  next
    case (2 a b)
    with assms(2) [of a b] fg(2) show ?thesis by (simp add: e st_then_def indist_def)
  qed
qed

lemma indist_then_same [indist_intros]:
  "indist view (=) f f \<Longrightarrow> (\<And>x. indist view R (h x) (k x)) \<Longrightarrow> indist view R (st_then f h) (st_then f k)"
  by (rule indist_then [of view "(=)"]) auto

lemma indist_read:
  assumes "\<And>s t. view s = view t \<Longrightarrow> Q (a s) (a t)" and "\<And>x y. Q x y \<Longrightarrow> indist view R (h x) (k y)"
  shows "indist view R (st_read a h) (st_read a k)"
  using assms by (auto simp: indist_def st_read_def)

lemma indist_if [indist_intros]:
  "indist view R f g \<Longrightarrow> indist view R h k \<Longrightarrow>
     indist view R (if b then f else h) (if b then g else k)"
  by simp

lemma rel_sum_refl [simp]: "rel_sum (=) (=) r r"
  by (simp add: sum.rel_eq)

section \<open>The public part of the state\<close>

definition erase_client :: "ClientRecord \<Rightarrow> ClientRecord" where
  "erase_client r = r\<lparr>cr_secretHash := None\<rparr>"

definition erase_key :: "SigningKeyRecord \<Rightarrow> SigningKeyRecord" where
  "erase_key k = k\<lparr>kr_private := []\<rparr>"

definition public_clients :: "ClientService \<Rightarrow> (jstring, ClientRecord) linked_map" where
  "public_clients s = map (map_prod id erase_client) (cs_clients s)"

definition public_keys :: "SigningKeyService \<Rightarrow> SigningKeyRecord list \<times> jstring option" where
  "public_keys s = (map erase_key (sk_keys s), sk_activeKid s)"

definition public_revocations :: "RevocationService \<Rightarrow> (jstring, Revocation) linked_map" where
  "public_revocations s = rs_byJti s"

definition public_view ::
  "Idp \<Rightarrow> (jstring, ClientRecord) linked_map \<times> (SigningKeyRecord list \<times> jstring option)
     \<times> (jstring, Revocation) linked_map \<times> AuditEntry list" where
  "public_view s = (public_clients (id_clients s), public_keys (id_keys s),
     public_revocations (id_revocations s), au_entries (id_audit s))"

lemma lhm_map:
  "lhm_get (map (map_prod id f) m) k = map_option f (lhm_get m k)"
  "map (map_prod id f) (lhm_put k v m) = lhm_put k (f v) (map (map_prod id f) m)"
  "map (map_prod id f) (lhm_remove k m) = lhm_remove k (map (map_prod id f) m)"
  "lhm_values (map (map_prod id f) m) = map f (lhm_values m)"
  by (induction m) (auto simp: lhm_defs)

section \<open>The services\<close>

lemma register_hides:
  "indist public_clients (=) (ClientService_register argon2 st ib sb salt now out dn au)
     (ClientService_register argon2 st ib sb salt now out dn au)"
  by (cases out; cases "hash_secret argon2 st salt (Some (newClientSecret sb))")
     (simp_all add: indist_def client_ops public_clients_def lhm_map Let_def)

lemma remove_hides:
  "indist public_clients (=) (ClientService_remove out k) (ClientService_remove out k)"
  unfolding indist_def
proof (intro allI impI)
  fix s t :: ClientService assume v: "public_clients s = public_clients t"
  then have "lhm_get (public_clients s) k = lhm_get (public_clients t) k" by simp
  then have "lhm_get (cs_clients s) k = None \<longleftrightarrow> lhm_get (cs_clients t) k = None"
    by (simp add: public_clients_def lhm_map) (metis map_option_is_None)
  with v show "rel_sum (=) (=) (fst (ClientService_remove out k s)) (fst (ClientService_remove out k t))
      \<and> public_clients (snd (ClientService_remove out k s)) = public_clients (snd (ClientService_remove out k t))"
    by (cases out) (auto simp: client_ops public_clients_def lhm_map Let_def)
qed

lemma setAuthorization_hides:
  "indist public_clients (rel_option (\<lambda>r q. erase_client r = erase_client q))
     (ClientService_setAuthorization out k (Some au)) (ClientService_setAuthorization out k (Some au))"
  unfolding indist_def
proof (intro allI impI)
  fix s t :: ClientService assume v: "public_clients s = public_clients t"
  then have "lhm_get (public_clients s) k = lhm_get (public_clients t) k" by simp
  then have "map_option erase_client (lhm_get (cs_clients s) k)
      = map_option erase_client (lhm_get (cs_clients t) k)"
    by (simp add: public_clients_def lhm_map)
  moreover have "erase_client (withAuthorization au r) = withAuthorization au (erase_client r)" for r
    by (simp add: erase_client_def withAuthorization_def)
  ultimately show "rel_sum (=) (rel_option (\<lambda>r q. erase_client r = erase_client q))
      (fst (ClientService_setAuthorization out k (Some au) s)) (fst (ClientService_setAuthorization out k (Some au) t))
      \<and> public_clients (snd (ClientService_setAuthorization out k (Some au) s))
        = public_clients (snd (ClientService_setAuthorization out k (Some au) t))"
    using v by (cases out; cases "lhm_get (cs_clients s) k"; cases "lhm_get (cs_clients t) k")
      (auto simp: client_ops public_clients_def lhm_map Let_def)
qed

lemma expired_erase [simp]: "expired_retired r t (erase_key k) = expired_retired r t k"
  by (simp add: expired_retired_def erase_key_def)

lemma prune_hides:
  "public_keys s = public_keys t \<Longrightarrow>
     public_keys (pruneExpiredRetired r now s) = public_keys (pruneExpiredRetired r now t)"
proof -
  have "map erase_key (filter (\<lambda>k. \<not> expired_retired r now k) ks)
      = filter (\<lambda>k. \<not> expired_retired r now k) (map erase_key ks)" for ks
    by (simp add: filter_map comp_def)
  then show "public_keys s = public_keys t \<Longrightarrow> ?thesis"
    by (simp add: public_keys_def pruneExpiredRetired_def)
qed

lemma jwkSet_hides: "indist public_keys (=) (SigningKeyService_jwkSet r now) (SigningKeyService_jwkSet r now)"
  unfolding indist_def
proof (intro allI impI)
  fix s t :: SigningKeyService assume "public_keys s = public_keys t"
  from prune_hides [OF this, of r now]
  have v: "public_keys (pruneExpiredRetired r now s) = public_keys (pruneExpiredRetired r now t)" .
  let ?f = "\<lambda>key. and_then (decodePublic (kr_public key)) (Jwk_forEd25519 (kr_kid key))"
  have "?f \<circ> erase_key = ?f" by (rule ext) (simp add: erase_key_def)
  then have e: "map_throw ?f (map erase_key ks) = map_throw ?f ks" for ks by (simp only: map_throw_map)
  from v have "map erase_key (sk_keys (pruneExpiredRetired r now s))
      = map erase_key (sk_keys (pruneExpiredRetired r now t))" by (simp add: public_keys_def)
  from arg_cong [OF this, of "map_throw ?f"]
  have "map_throw ?f (sk_keys (pruneExpiredRetired r now s))
      = map_throw ?f (sk_keys (pruneExpiredRetired r now t))" unfolding e .
  with v show "rel_sum (=) (=) (fst (SigningKeyService_jwkSet r now s)) (fst (SigningKeyService_jwkSet r now t))
      \<and> public_keys (snd (SigningKeyService_jwkSet r now s))
        = public_keys (snd (SigningKeyService_jwkSet r now t))"
    by (simp add: SigningKeyService_jwkSet_def Let_def)
qed

lemma rotate_hides:
  "indist public_keys (=) (SigningKeyService_rotate ed r now seed kb created pruned out)
     (SigningKeyService_rotate ed r now seed kb created pruned out)"
  unfolding indist_def
proof (intro allI impI)
  fix s t :: SigningKeyService assume v: "public_keys s = public_keys t"
  let ?up = "\<lambda>key. if kr_active key then SigningKeyRecord_retiredAt now key else key"
  let ?new = "\<lambda>u. pruneExpiredRetired r pruned
      (generateActive ed seed kb created (u\<lparr>sk_keys := map ?up (sk_keys u)\<rparr>))"
  have "map erase_key (map ?up ks) = map ?up (map erase_key ks)" for ks
    by (simp add: erase_key_def SigningKeyRecord_retiredAt_def)
  then have "public_keys (generateActive ed seed kb created (s\<lparr>sk_keys := map ?up (sk_keys s)\<rparr>))
      = public_keys (generateActive ed seed kb created (t\<lparr>sk_keys := map ?up (sk_keys t)\<rparr>))"
    using v by (simp add: public_keys_def generateActive_def Let_def del: map_map)
  from prune_hides [OF this] have "public_keys (?new s) = public_keys (?new t)" .
  moreover have "fst (SigningKeyService_rotate ed r now seed kb created pruned out u)
      = (if out = Saved then Inr (sk_activeKid (?new u)) else Inl save_error)"
    "public_keys (snd (SigningKeyService_rotate ed r now seed kb created pruned out u)) = public_keys (?new u)" for u
    by (cases out; simp add: SigningKeyService_rotate_def SigningKeyService_persist_def public_keys_def Let_def)+
  ultimately show "rel_sum (=) (=) (fst (SigningKeyService_rotate ed r now seed kb created pruned out s))
        (fst (SigningKeyService_rotate ed r now seed kb created pruned out t))
      \<and> public_keys (snd (SigningKeyService_rotate ed r now seed kb created pruned out s))
        = public_keys (snd (SigningKeyService_rotate ed r now seed kb created pruned out t))"
    by (simp add: public_keys_def)
qed

section \<open>The endpoints\<close>

text \<open>A service call inside the server: the view of the service is part of the view of the server.\<close>

lemma on_clients_hides:
  "indist public_clients R f g \<Longrightarrow> indist public_view R (on_clients f) (on_clients g)"
  by (auto simp: indist_def public_view_def on_clients_def Let_def split: prod.splits) (metis fst_conv snd_conv)+

lemma on_keys_hides:
  "indist public_keys R f g \<Longrightarrow> indist public_view R (on_keys f) (on_keys g)"
  by (auto simp: indist_def public_view_def on_keys_def Let_def split: prod.splits) (metis fst_conv snd_conv)+

lemma on_revocations_hides:
  "indist public_revocations R f g \<Longrightarrow> indist public_view R (on_revocations f) (on_revocations g)"
  by (auto simp: indist_def public_view_def on_revocations_def Let_def split: prod.splits)
     (metis fst_conv snd_conv)+

lemma audit_hides: "indist public_view (=) (audit_record t out ev cid det) (audit_record t out ev cid det)"
  unfolding indist_def
proof (intro allI impI)
  fix a b assume "public_view a = public_view b"
  then show "rel_sum (=) (=) (fst (audit_record t out ev cid det a)) (fst (audit_record t out ev cid det b))
      \<and> public_view (snd (audit_record t out ev cid det a)) = public_view (snd (audit_record t out ev cid det b))"
    by (cases out) (auto simp: public_view_def audit_record_def AuditService_record_def Let_def
        split: prod.splits sum.splits)
qed

lemma revoke_hides:
  "indist public_revocations (=) (RevocationService_revoke now pruned out j ex why)
     (RevocationService_revoke now pruned out j ex why)"
  by (cases out; cases j)
     (auto simp: indist_def public_revocations_def revocation_ops Let_def)

lemma denylist_hides:
  "indist public_revocations (=)
     (\<lambda>v. let (es, v') = RevocationService_activeDenylist now v in (Inr es, v'))
     (\<lambda>v. let (es, v') = RevocationService_activeDenylist now v in (Inr es, v'))"
  by (auto simp: indist_def public_revocations_def RevocationService_activeDenylist_def
      RevocationService_prune_def Let_def)

lemma view_erase: "view_json (ClientView_from r) = view_json (ClientView_from (erase_client r))"
  by (simp add: ClientView_from_def erase_client_def)

lemma list_hides:
  assumes "\<And>ts. indist public_view R (f ts) (f ts)"
  shows "indist public_view R
     (st_read (\<lambda>s. ClientService_list (id_clients s)) (\<lambda>rs. f (map (\<lambda>r. view_json (ClientView_from r)) rs)))
     (st_read (\<lambda>s. ClientService_list (id_clients s)) (\<lambda>rs. f (map (\<lambda>r. view_json (ClientView_from r)) rs)))"
proof (rule indist_read)
  fix s t :: Idp assume "public_view s = public_view t"
  then have "lhm_values (public_clients (id_clients s)) = lhm_values (public_clients (id_clients t))"
    by (simp add: public_view_def)
  then show "map erase_client (ClientService_list (id_clients s)) = map erase_client (ClientService_list (id_clients t))"
    by (simp only: public_clients_def ClientService_list_def lhm_map)
next
  fix xs ys assume "map erase_client xs = map erase_client ys"
  then have "map (\<lambda>r. view_json (ClientView_from r)) xs = map (\<lambda>r. view_json (ClientView_from r)) ys"
    by (subst (1 2) view_erase) (simp add: list_eq_iff_nth_eq map_eq_conv)
  with assms show "indist public_view R (f (map (\<lambda>r. view_json (ClientView_from r)) xs))
      (f (map (\<lambda>r. view_json (ClientView_from r)) ys))" by simp
qed

lemma grants_hides:
  assumes "\<And>t. indist public_view R (f t) (f t)" and "indist public_view R g g"
  shows "indist public_view R
     (st_then (on_clients (ClientService_setAuthorization out k (Some au)))
        (\<lambda>u. case u of None \<Rightarrow> g | Some r \<Rightarrow> f (view_json (ClientView_from r))))
     (st_then (on_clients (ClientService_setAuthorization out k (Some au)))
        (\<lambda>u. case u of None \<Rightarrow> g | Some r \<Rightarrow> f (view_json (ClientView_from r))))"
proof (rule indist_then [OF on_clients_hides [OF setAuthorization_hides]])
  fix x y :: "ClientRecord option" assume "rel_option (\<lambda>r q. erase_client r = erase_client q) x y"
  then show "indist public_view R
      (case x of None \<Rightarrow> g | Some r \<Rightarrow> f (view_json (ClientView_from r)))
      (case y of None \<Rightarrow> g | Some r \<Rightarrow> f (view_json (ClientView_from r)))"
    by (cases rule: option.rel_cases) (use assms in \<open>auto, metis view_erase\<close>)
qed

lemma read_audit_hides:
  assumes "\<And>es. indist public_view R (f es) (f es)"
  shows "indist public_view R (st_read (\<lambda>s. AuditService_list (id_audit s)) f)
     (st_read (\<lambda>s. AuditService_list (id_audit s)) f)"
  by (rule indist_read [where Q = "(=)"]) (simp_all add: assms public_view_def AuditService_list_def)

lemmas service_hides = on_clients_hides on_keys_hides on_revocations_hides audit_hides
  register_hides remove_hides jwkSet_hides rotate_hides revoke_hides denylist_hides

lemma endpoint_hides:
  assumes "e \<noteq> EToken"
  shows "indist public_view (=) (run_endpoint lb sv i e ctx) (run_endpoint lb sv i e ctx)"
  using assms
proof (cases e)
  case EListClients
  show ?thesis unfolding EListClients run_endpoint.simps handler_listClients_def
    by (intro indist_intros list_hides rel_sum_refl)
next
  case ESetGrants
  show ?thesis unfolding ESetGrants run_endpoint.simps handler_setGrants_def
    by (intro indist_intros grants_hides audit_hides rel_sum_refl)
next
  case EAuditLog
  show ?thesis unfolding EAuditLog run_endpoint.simps handler_auditLog_def
    by (intro indist_intros read_audit_hides rel_sum_refl)
next
  case ERegisterClient
  show ?thesis unfolding ERegisterClient run_endpoint.simps handler_registerClient_def Let_def
    by (intro indist_intros service_hides rel_sum_refl)
next
  case EDeleteClient
  show ?thesis unfolding EDeleteClient run_endpoint.simps handler_deleteClient_def
    by (intro indist_intros service_hides rel_sum_refl)
next
  case ERotateKeys
  show ?thesis unfolding ERotateKeys run_endpoint.simps handler_rotateKeys_def
    by (intro indist_intros service_hides rel_sum_refl)
next
  case ERevoke
  show ?thesis unfolding ERevoke run_endpoint.simps handler_revoke_def Let_def
    by (intro indist_intros service_hides rel_sum_refl)
next
  case EListRevocations
  show ?thesis unfolding EListRevocations run_endpoint.simps handler_listRevocations_def
    by (intro indist_intros service_hides rel_sum_refl)
next
  case EJwks
  show ?thesis unfolding EJwks run_endpoint.simps handler_jwks_def
    by (intro indist_intros service_hides rel_sum_refl)
qed (auto simp: handler_defs intro!: indist_intros)

lemma token_route:
  assumes "Router_dispatch ApiHandlers_router m path = Inr (EToken, params)"
  shows "m = js ''POST'' \<and> Router_split path = [js ''oauth'', js ''token'']"
proof -
  from assms obtain q where "q \<in> set ApiHandlers_router" "ro_handler q = EToken"
    "route_matches q (Router_split path)" "ro_method q = m"
    by (auto simp: Router_dispatch_def dispatch_loop_find find_Some_iff set_conv_nth split: option.splits)
  then show ?thesis
    by (auto simp: ApiHandlers_router_def Router_route_def route_splits route_matches_def
        list_all2_Cons1)
qed

section \<open>Properties\<close>

text \<open>
  C11. No secret leaves the server except through the token endpoint: the response to any
  other request, whoever sends it, and the public part of the state after it, are the same
  for any two states that differ only in secret hashes, private keys and file contents. In
  particular no stored hash or private key is ever in a response, a header or an error.
\<close>

theorem secrets_not_revealed:
  assumes "public_view s = public_view t"
    and "rq_method req \<noteq> js ''POST'' \<or> Router_split (rq_path req) \<noteq> [js ''oauth'', js ''token'']"
  shows "fst (Idp_handle lb sv i req s) = fst (Idp_handle lb sv i req t)
     \<and> public_view (snd (Idp_handle lb sv i req s)) = public_view (snd (Idp_handle lb sv i req t))"
proof (cases "Router_dispatch ApiHandlers_router (rq_method req) (rq_path req)")
  case (Inl e)
  with assms(1) show ?thesis by (simp add: Idp_handle_def Router_handle_def)
next
  case (Inr hp)
  obtain e params where hp: "hp = (e, params)" by (rule prod.exhaust)
  let ?ctx = "\<lparr>rc_request = req, rc_pathParams = params\<rparr>"
  have "e \<noteq> EToken" using token_route [of "rq_method req" "rq_path req" params] Inr hp assms(2) by auto
  then have "indist public_view (=) (run_endpoint lb sv i e ?ctx) (run_endpoint lb sv i e ?ctx)"
    by (rule endpoint_hides)
  moreover obtain r s' q t' where
    run: "run_endpoint lb sv i e ?ctx s = (r, s')" "run_endpoint lb sv i e ?ctx t = (q, t')"
    by (metis prod.exhaust)
  ultimately have "r = q" "public_view s' = public_view t'"
    using assms(1) by (force simp: indist_def sum.rel_eq)+
  then show ?thesis by (simp add: Idp_handle_def Router_handle_def Inr hp run)
qed

theorem secrets_not_revealed_witness:
  "fst (Idp_handle demo_libs demo_server demo_inputs
      (demo_request ''GET'' ''/admin/clients'' (Some (js ''Bearer s3cret'')) []) demo_login_idp)
   = fst (Idp_handle demo_libs demo_server demo_inputs
      (demo_request ''GET'' ''/admin/clients'' (Some (js ''Bearer s3cret'')) [])
      (demo_login_idp\<lparr>id_clients := \<lparr>cs_clients = [(js ''client_a'', demo_subject)], cs_store = Absent\<rparr>\<rparr>))"
proof -
  let ?req = "demo_request ''GET'' ''/admin/clients'' (Some (js ''Bearer s3cret'')) []"
  let ?t = "demo_login_idp\<lparr>id_clients := \<lparr>cs_clients = [(js ''client_a'', demo_subject)], cs_store = Absent\<rparr>\<rparr>"
  have "public_view demo_login_idp = public_view ?t"
    by (simp add: public_view_def public_clients_def demo_login_idp_def demo_member_def erase_client_def)
  moreover have "rq_method ?req \<noteq> js ''POST'' \<or> Router_split (rq_path ?req) \<noteq> [js ''oauth'', js ''token'']"
    by (simp add: demo_request_def)
  ultimately show ?thesis using secrets_not_revealed by blast
qed

end
