(* ===== verification/EndToEnd.thy ===== *)
theory EndToEnd
  imports Secrecy
begin

text \<open>
  The service from the outside, over two requests: a client is registered by one request and
  gets a token by another, and the token verifies offline. The lemmas say when the two
  endpoints succeed and what they return.
\<close>

section \<open>The two endpoints when they succeed\<close>

text \<open>A token request with the given id and secret, in the form or in the Basic header.\<close>

definition login_with :: "jstring \<Rightarrow> jstring \<Rightarrow> RequestContext \<Rightarrow> bool" where
  "login_with clientId secret ctx \<longleftrightarrow>
     (case formParams ctx of
        Inl _ \<Rightarrow> False
      | Inr form \<Rightarrow> form (js ''grant_type'') = Some (js ''client_credentials'')
          \<and> token_credentials form ctx = (Some clientId, Some secret))"

text \<open>
  A token request made in state \<open>s\<close> is answered 200 with a token, and a verifier \<open>tv\<close> that holds
  the JWKS the server then serves accepts that token at time \<open>t\<close>, as issued to the client and
  with the grants.
\<close>

definition login_yields ::
  "libs \<Rightarrow> server \<Rightarrow> inputs \<Rightarrow> RequestContext \<Rightarrow> Idp \<Rightarrow> long \<Rightarrow> long \<Rightarrow> TokenVerifier \<Rightarrow> long
   \<Rightarrow> jstring \<Rightarrow> GrantsClaim \<Rightarrow> bool" where
  "login_yields lb sv i ctx s ret fetched tv t clientId grants \<longleftrightarrow>
     (\<exists>tok b s' jwks c. lb_write lb (token_json tok) = Some b
        \<and> run_endpoint lb sv i EToken ctx s
          = (Inr \<lparr>hr_status = 200, hr_contentType = js ''application/json'', hr_body = b\<rparr>, s')
        \<and> fst (SigningKeyService_jwkSet ret fetched (id_keys s')) = Inr jwks
        \<and> TokenVerifier_verify (lb_ed lb) (lb_jackson lb) tv t (Some (it_accessToken tok)) jwks None
          = Inr (Result_success c)
        \<and> jc_subject c = Some clientId \<and> jc_grants c = Some grants)"

definition registration_response :: "Registration \<Rightarrow> RegisterClientResponse" where
  "registration_response reg =
     \<lparr>re_clientId = cr_clientId (rg_client reg), re_secret = rg_secret reg,
      re_displayName = cr_displayName (rg_client reg),
      re_authorization = GrantsClaim_from (cr_authorization (rg_client reg)),
      re_createdAt = cr_createdAt (rg_client reg)\<rparr>"

lemma register_endpoint:
  assumes "run_endpoint lb sv i ERegisterClient ctx s = (Inr resp, s')"
  obtains reg dn au where
    "ClientService_register (lb_argon2 lb) (sc_argonSettings (sv_config sv)) (in_bytes i 0)
       (in_bytes i 1) (in_bytes i 2) (in_now i 0) (in_save i 0) dn (Some au) (id_clients s)
     = (Inr reg, id_clients s')"
    and "HttpResponse_json (lb_write lb) 201 (register_json (registration_response reg)) = Inr resp"
    and "id_keys s' = id_keys s" and "id_revocations s' = id_revocations s"
proof -
  from assms have "\<exists>(request :: RegisterClientRequest) au (reg :: Registration) s1.
      on_clients (ClientService_register (lb_argon2 lb) (sc_argonSettings (sv_config sv))
        (in_bytes i 0) (in_bytes i 1) (in_bytes i 2) (in_now i 0) (in_save i 0)
        (rr_displayName request) (Some au)) s = (Inr reg, s1)
      \<and> audit_record (in_now i 1) (in_save i 1) (js ''client.registered'')
          (Some (cr_clientId (rg_client reg))) None s1 = (Inr (), s')
      \<and> HttpResponse_json (lb_write lb) 201 (register_json (registration_response reg)) = Inr resp"
    by (simp add: handler_registerClient_def registration_response_def Let_def st_then_Inr_iff
        st_lift_def del: One_nat_def) blast
  then obtain request :: RegisterClientRequest and au and reg :: Registration and s1 where
    op: "on_clients (ClientService_register (lb_argon2 lb) (sc_argonSettings (sv_config sv))
        (in_bytes i 0) (in_bytes i 1) (in_bytes i 2) (in_now i 0) (in_save i 0)
        (rr_displayName request) (Some au)) s = (Inr reg, s1)"
    and audit: "audit_record (in_now i 1) (in_save i 1) (js ''client.registered'')
      (Some (cr_clientId (rg_client reg))) None s1 = (Inr (), s')"
    and resp: "HttpResponse_json (lb_write lb) 201 (register_json (registration_response reg)) = Inr resp"
    by blast
  from on_clients_frame [OF op] audit_record_frame [OF audit] show ?thesis
    by (intro that [where dn = "rr_displayName request" and au = au, OF _ resp]) simp_all
qed

lemma token_endpoint:
  assumes "login_with clientId secret ctx"
    and "ClientService_authenticate (lb_argon2 lb) (Some clientId) (Some secret) (id_clients s)
           = Inr (Some client)"
    and "TokenIssuer_issue (lb_ed lb) (lb_jackson lb) (sv_issuer sv) (in_now i 0) (in_bytes i 0)
           (id_keys s) client = Inr tok"
    and "in_save i 0 = Saved" and "lb_write lb (token_json tok) = Some b"
  obtains s' where
    "run_endpoint lb sv i EToken ctx s
       = (Inr \<lparr>hr_status = 200, hr_contentType = js ''application/json'', hr_body = b\<rparr>, s')"
    and "id_keys s' = id_keys s"
proof -
  from assms(1) obtain form where form: "formParams ctx = Inr form"
    "form (js ''grant_type'') = Some (js ''client_credentials'')"
    "token_credentials form ctx = (Some clientId, Some secret)"
    by (auto simp: login_with_def split: sum.splits)
  obtain r s' where a: "audit_record (in_now i 1) (in_save i 0) (js ''token.issued'')
      (Some (cr_clientId client)) (Some (js ''jti='' @ it_jti tok)) s = (r, s')" by (rule prod.exhaust)
  note fr = audit_record_frame [OF a]
  have "r = Inr ()" using record_entries(2) [OF fr [THEN conjunct2, THEN conjunct2, THEN conjunct2]] assms(4)
    by simp
  with a have "run_endpoint lb sv i EToken ctx s
      = (Inr \<lparr>hr_status = 200, hr_contentType = js ''application/json'', hr_body = b\<rparr>, s')"
    by (simp add: handler_token_def form st_read_def assms(2,3,5) st_then_def [of "audit_record _ _ _ _ _"]
        st_lift_def HttpResponse_json_def Json_toBytes_def del: One_nat_def)
  then show ?thesis by (rule that) (use fr in simp)
qed

lemma plain_grants:
  "json_plain (grants_json (GrantsClaim_from a)) \<Longrightarrow> g \<in> set (a_grants a) \<Longrightarrow> plain_string (g_keyGroup g)"
  by (auto simp: json_plain_def grants_json_def group_json_def GrantsClaim_from_def)

section \<open>Properties\<close>

text \<open>
  C1. The service does what it is for: after a successful registration, a token request with
  the returned id and secret is answered 200 with a token, and that token verifies offline,
  against the JWKS served at any time from then on until the next key rotation, for exactly
  the registered client and with exactly the grants it was registered with, from the second
  it was issued until its expiry.
\<close>

theorem registered_client_gets_valid_token:
  assumes "ed25519_ok (lb_ed lb)" and "jackson_ok (lb_jackson lb)" and "\<And>x. lb_write lb x \<noteq> None"
    and "wf_settings (sc_argonSettings (sv_config sv))"
    and "clients_inv (id_clients s)" and "keys_inv (lb_ed lb) (id_keys s)"
    and "run_endpoint lb sv i ERegisterClient ctx s = (Inr resp, s1)"
    and "instant_plus (in_now i2 0) (ti_tokenTtl (sv_issuer sv)) = Inr expiry" and "in_save i2 0 = Saved"
    and "sk_activeKid (id_keys s) = Some kid" and "plain_string kid"
    and "plain_string (ti_issuer (sv_issuer sv))" and "plain_string (ti_audience (sv_issuer sv))"
    and "length (in_bytes i 0) \<le> 1000" and "length (in_bytes i2 0) \<le> 1000"
    and "tv_expectedIssuer tv \<in> {None, Some (ti_issuer (sv_issuer sv))}"
    and "tv_expectedAudience tv \<in> {None, Some (ti_audience (sv_issuer sv))}" and "leeway_ok tv"
    and "instant_ok t" and "sint (in_now i2 0) \<le> sint t" and "sint t < sint expiry"
  shows "\<exists>r. HttpResponse_json (lb_write lb) 201 (register_json r) = Inr resp
     \<and> (json_plain (grants_json (re_authorization r)) \<and> login_with (re_clientId r) (re_secret r) ctx2 \<longrightarrow>
        login_yields lb sv i2 ctx2 s1 ret fetched tv t (re_clientId r) (re_authorization r))"
proof -
  let ?ti = "sv_issuer sv" and ?now = "in_now i2 0" and ?jb = "in_bytes i2 0"
  from register_endpoint [OF assms(7)] obtain reg dn au where
    reg: "ClientService_register (lb_argon2 lb) (sc_argonSettings (sv_config sv)) (in_bytes i 0)
       (in_bytes i 1) (in_bytes i 2) (in_now i 0) (in_save i 0) dn (Some au) (id_clients s)
     = (Inr reg, id_clients s1)"
    and resp: "HttpResponse_json (lb_write lb) 201 (register_json (registration_response reg)) = Inr resp"
    and keys: "id_keys s1 = id_keys s" by blast
  let ?r = "registration_response reg" and ?c = "rg_client reg"
  note auth = register_authenticates [OF assms(5,4) reg]
  have "login_yields lb sv i2 ctx2 s1 ret fetched tv t (cr_clientId ?c) (GrantsClaim_from (cr_authorization ?c))"
    if plain: "json_plain (grants_json (GrantsClaim_from (cr_authorization ?c)))"
      and login: "login_with (cr_clientId ?c) (rg_secret reg) ctx2"
  proof -
    have "cr_clientId ?c = newClientId (in_bytes i 0)"
      using reg by (auto elim!: register_cases split: if_splits)
    then have c: "json_plain (claims_json (issue_claims ?ti ?now expiry (newJti ?jb) ?c))"
      using assms(12-15) plain plain_grants
      by (intro json_plain_claims) (auto simp: plain_newJti plain_newClientId)
    note h = json_plain_header [OF assms(11)]
    from issue_succeeds [OF assms(2,6,8,10) h c] obtain tok where
      tok: "TokenIssuer_issue (lb_ed lb) (lb_jackson lb) ?ti ?now ?jb (id_keys s) ?c = Inr tok"
        "it_jti tok = newJti ?jb" "it_expiresAt tok = expiry" by blast
    then have ic: "issued_claims ?ti ?now tok ?c = issue_claims ?ti ?now expiry (newJti ?jb) ?c"
      by (simp add: issued_claims_def)
    from assms(3) obtain b where b: "lb_write lb (token_json tok) = Some b" by blast
    from token_endpoint [OF login auth tok(1) [folded keys] assms(9) b] obtain s2 where
      s2: "run_endpoint lb sv i2 EToken ctx2 s1
        = (Inr \<lparr>hr_status = 200, hr_contentType = js ''application/json'', hr_body = b\<rparr>, s2)"
        "id_keys s2 = id_keys s" using keys by metis
    from jwkSet_published [OF assms(6,1), of ret fetched] obtain jwks where
      jwks: "fst (SigningKeyService_jwkSet ret fetched (id_keys s)) = Inr jwks" by blast
    have found: "publicKeyFor jwks (Some (kr_kid key)) = Inr (Some (ed_public (lb_ed lb) seed))"
      if "key \<in> set (sk_keys (id_keys s))" "kr_active key" "length seed = 32"
        "kr_private key = encodePrivate seed" for key seed
      using jwkSet_finds [OF assms(6,1) jwks that(1) _ that(3,4)] that(2) by simp
    have "sint expiry = sint ?now + sint (ti_tokenTtl ?ti)" using instant_plus_Inr [OF assms(8)] by simp
    moreover have "0 \<le> sint (tv_leewaySeconds tv)" using assms(18) by (simp add: leeway_ok_def)
    ultimately have w: "\<not> sint t + sint (tv_leewaySeconds tv) < sint ?now"
      "\<not> sint ?now + sint (ti_tokenTtl ?ti) + sint (tv_leewaySeconds tv) \<le> sint t"
      using assms(20,21) by simp_all
    have "TokenVerifier_verify (lb_ed lb) (lb_jackson lb) tv t (Some (it_accessToken tok)) jwks None
        = Inr (Result_success (issue_claims ?ti ?now expiry (newJti ?jb) ?c))"
      by (simp only: issued_verify_window [OF assms(1,2,6) tok(1) assms(10) h c [folded ic] found assms(16-19)]
          w ic if_False option.case)
    moreover have "jc_subject (issue_claims ?ti ?now expiry (newJti ?jb) ?c) = Some (cr_clientId ?c)"
      "jc_grants (issue_claims ?ti ?now expiry (newJti ?jb) ?c)
        = Some (GrantsClaim_from (cr_authorization ?c))" by (simp_all add: issue_claims_def)
    ultimately show ?thesis unfolding login_yields_def using b s2(1) jwks [folded s2(2)] by blast
  qed
  with resp show ?thesis by (intro exI [of _ ?r]) (simp add: registration_response_def)
qed

definition demo_registration :: RequestContext where
  "demo_registration = \<lparr>rc_request = demo_request ''POST'' ''/admin/clients'' (Some (js ''Bearer s3cret''))
     [123, 125], rc_pathParams = (\<lambda>_. None)\<rparr>"

definition demo_pairs :: "(jstring \<times> jstring) list" where
  "demo_pairs = [(js ''grant_type'', js ''client_credentials''),
     (js ''client_id'', newClientId [0, 9]), (js ''client_secret'', newClientSecret [1, 9])]"

definition demo_login2 :: RequestContext where
  "demo_login2 = \<lparr>rc_request = demo_request ''POST'' ''/oauth/token'' None
     (utf8_encode (form_text demo_pairs)), rc_pathParams = (\<lambda>_. None)\<rparr>"

lemma url_safe_form: "\<forall>c \<in> set s. url_safe c \<Longrightarrow> plain_form s"
  by (auto simp: plain_form_def url_safe_def Let_def)

lemma demo_login2: "login_with (newClientId [0, 9]) (newClientSecret [1, 9]) demo_login2"
proof -
  have safe: "\<forall>c \<in> set (js ''client_'' @ randomBase64Url bs). url_safe c"
    "\<forall>c \<in> set (randomBase64Url bs). url_safe c" for bs
    using Base64Url_encode_url_safe [of _ bs]
    by (auto simp: randomBase64Url_def) (auto simp: js_def url_safe_def)
  have ft: "form_text demo_pairs = js ''grant_type=client_credentials&client_id='' @ newClientId [0, 9]
      @ js ''&client_secret='' @ newClientSecret [1, 9]"
    by (simp add: form_text_def demo_pairs_def js_def)
  have "unat c < 0x80" if "c \<in> set (form_text demo_pairs)" for c
    using that safe [of "[0, 9]"] safe [of "[1, 9]"]
    by (auto simp: ft newClientId_def newClientSecret_def url_safe_def Let_def) (auto simp: js_def)
  then have u: "utf16_ok (form_text demo_pairs)" by (rule utf16_ok_ascii)
  have p: "plain_form k \<and> plain_form v" if "(k, v) \<in> set demo_pairs" for k v
    using that safe url_safe_form
    by (auto simp: demo_pairs_def newClientId_def newClientSecret_def) (auto simp: plain_form_def js_def)
  have "formParams demo_login2 = Inr (map_of (rev demo_pairs))"
    by (rule form_plain [OF _ p u])
       (simp_all add: demo_login2_def demo_request_def demo_pairs_def [THEN arg_cong [of _ _ "(\<noteq>) []"]]
         ft is_blank_def, simp_all add: js_def is_whitespace_def demo_pairs_def)
  then show ?thesis by (simp add: login_with_def demo_pairs_def token_credentials_def)
qed

lemma demo_registers:
  "\<exists>s1. run_endpoint demo_libs demo_server demo_inputs ERegisterClient demo_registration s
     = (Inr \<lparr>hr_status = 201, hr_contentType = js ''application/json'', hr_body = json_bytes (register_json
         \<lparr>re_clientId = newClientId [0, 9], re_secret = newClientSecret [1, 9], re_displayName = None,
          re_authorization = GrantsClaim_from Authorization_none, re_createdAt = 200\<rparr>)\<rparr>, s1)
     \<and> au_entries (id_audit s1) \<noteq> au_entries (id_audit s)"
proof -
  have "handler_requireAdmin demo_server demo_registration = Inr ()"
    using demo_admin
    by (simp add: handler_requireAdmin_def requireAdmin_def ctx_header_def demo_registration_def demo_request_def)
  moreover have "and_then (ctx_parse (lb_register demo_libs) demo_registration) not_null
      = Inr \<lparr>rr_displayName = None, rr_authorization = None\<rparr>"
    by (simp add: ctx_parse_def RequestContext_body_def demo_registration_def demo_request_def Json_parse_def
        demo_libs_def not_null_def null_text_def)
  moreover have "hash_secret demo_argon2 (sc_argonSettings demo_config) [2, 9] (Some (newClientSecret [1, 9]))
      \<noteq> Inl e" for e
    by (simp add: hash_secret_def derive_def demo_argon2_def newClientSecret_nonempty Let_def)
  ultimately show ?thesis
    by (cases "hash_secret demo_argon2 (sc_argonSettings demo_config) [2, 9] (Some (newClientSecret [1, 9]))")
       (auto simp: handler_registerClient_def handler_toAuthorization_def on_clients_def client_ops
         audit_record_def AuditService_record_def st_then_def st_lift_def HttpResponse_json_def
         Json_toBytes_def Let_def)
qed

lemma demo_registration_route:
  "find (\<lambda>q. route_matches q (Router_split (rq_path (rc_request demo_registration)))
       \<and> ro_method q = rq_method (rc_request demo_registration)) ApiHandlers_router
     = Some (Router_route ''POST'' ''/admin/clients'' ERegisterClient)"
  "Router_match (ro_segments (Router_route ''POST'' ''/admin/clients'' ERegisterClient))
     (Router_split (rq_path (rc_request demo_registration))) = Some (\<lambda>_. None)"
  "ro_handler (Router_route ''POST'' ''/admin/clients'' ERegisterClient) = ERegisterClient"
  "\<lparr>rc_request = rc_request demo_registration, rc_pathParams = \<lambda>_. None\<rparr> = demo_registration"
  by (simp_all add: demo_registration_def demo_request_def Router_route_def ApiHandlers_router_def route_splits
      route_matches_def Router_match_def del: js_append)

theorem registered_client_gets_valid_token_witness:
  "login_yields demo_libs demo_server demo_inputs demo_login2
     (snd (run_endpoint demo_libs demo_server demo_inputs ERegisterClient demo_registration demo_idp))
     600 210 demo_verifier 499 (newClientId [0, 9]) (GrantsClaim_from Authorization_none)"
proof -
  let ?r = "\<lparr>re_clientId = newClientId [0, 9], re_secret = newClientSecret [1, 9], re_displayName = None,
    re_authorization = GrantsClaim_from Authorization_none, re_createdAt = 200\<rparr>"
  let ?resp = "\<lparr>hr_status = 201, hr_contentType = js ''application/json'', hr_body = json_bytes (register_json ?r)\<rparr>"
  from demo_registers [of demo_idp] obtain s1 where s1: "run_endpoint demo_libs demo_server demo_inputs ERegisterClient
      demo_registration demo_idp = (Inr ?resp, s1)" by blast
  have e: "instant_plus (in_now demo_inputs 0) (ti_tokenTtl (sv_issuer demo_server)) = Inr 500"
    by (simp add: instant_plus_def demo_issuer_def instant_min_def instant_max_def)
  have st: "wf_settings (sc_argonSettings (sv_config demo_server))"
    by (simp add: wf_settings_def demo_config_def)
  have side: "ed25519_ok (lb_ed demo_libs)" "jackson_ok (lb_jackson demo_libs)"
    "clients_inv (id_clients demo_idp)" "keys_inv (lb_ed demo_libs) (id_keys demo_idp)"
    "sk_activeKid (id_keys demo_idp) = Some (newKid [1])" "plain_string (newKid [1])"
    by (simp_all add: demo_ed_ok demo_jackson_ok demo_idp_clients_inv demo_keys_inv demo_keys_kid plain_newKid)
  have "\<exists>r. HttpResponse_json (lb_write demo_libs) 201 (register_json r) = Inr ?resp
     \<and> (json_plain (grants_json (re_authorization r)) \<and> login_with (re_clientId r) (re_secret r) demo_login2 \<longrightarrow>
        login_yields demo_libs demo_server demo_inputs demo_login2 s1 600 210 demo_verifier 499
          (re_clientId r) (re_authorization r))"
    by (rule registered_client_gets_valid_token [OF side(1,2) _ st side(3,4) s1 e _ side(5,6)])
       (simp_all add: demo_issuer_def demo_verifier_def plain_string_js leeway_ok_def instant_ok_def
          instant_min_def instant_max_def)
  then obtain r :: RegisterClientResponse where
    r: "HttpResponse_json (lb_write demo_libs) 201 (register_json r) = Inr ?resp"
    and go: "json_plain (grants_json (re_authorization r)) \<Longrightarrow>
        login_with (re_clientId r) (re_secret r) demo_login2 \<Longrightarrow>
        login_yields demo_libs demo_server demo_inputs demo_login2 s1 600 210 demo_verifier 499
          (re_clientId r) (re_authorization r)" by blast
  from r have "json_bytes (register_json r) = json_bytes (register_json ?r)"
    by (simp add: HttpResponse_json_def Json_toBytes_def)
  from arg_cong [OF this, of json_of_bytes] have "register_json r = register_json ?r"
    unfolding json_of_bytes_json by (rule option.inject [THEN iffD1])
  then have f: "re_clientId r = newClientId [0, 9]" "re_secret r = newClientSecret [1, 9]"
    "json_nullable grants_json (Some (re_authorization r))
      = json_nullable grants_json (Some (GrantsClaim_from Authorization_none))"
    by (simp_all add: register_json_def)
  from f(3) have g: "re_authorization r = GrantsClaim_from Authorization_none"
    by (metis demo_grants option.inject)
  have "json_plain (grants_json (GrantsClaim_from Authorization_none))"
    by (simp add: json_plain_def grants_json_def GrantsClaim_from_def Authorization_none_def)
  with go f(1,2) g demo_login2 s1 show ?thesis by simp
qed

end
