(* ===== verification/AuditTrail.thy ===== *)
theory AuditTrail
  imports EndToEnd
begin

text \<open>
  The audit log as a record of what happened: a request that was not answered 500 either
  changed nothing but what pruning forgets, or made exactly one change and one audit entry
  that names it, both of them written to their files.
\<close>

section \<open>What an entry tells\<close>

text \<open>The change of each kind of entry, from \<open>s\<close> to \<open>s'\<close>.\<close>

definition registry_change ::
  "Idp \<Rightarrow> Idp \<Rightarrow> (jstring, ClientRecord) linked_map \<Rightarrow> bool" where
  "registry_change s s' m \<longleftrightarrow> id_clients s' = \<lparr>cs_clients = m, cs_store = Doc (lhm_values m)\<rparr>
     \<and> id_keys s' = id_keys s \<and> id_revocations s' = id_revocations s"

definition key_rotation :: "jstring \<Rightarrow> SigningKeyService \<Rightarrow> SigningKeyService \<Rightarrow> bool" where
  "key_rotation kid k k' \<longleftrightarrow> (\<exists>ed ret now seed kb created pruned.
     SigningKeyService_rotate ed ret now seed kb created pruned Saved k = (Inr (Some kid), k'))"

lemma key_rotationI:
  "SigningKeyService_rotate ed ret now seed kb created pruned Saved k = (Inr (Some kid), k') \<Longrightarrow>
     key_rotation kid k k'"
  unfolding key_rotation_def by (intro exI)

definition entry_tells :: "Idp \<Rightarrow> Idp \<Rightarrow> AuditEntry \<Rightarrow> bool" where
  "entry_tells s s' e \<longleftrightarrow>
     (\<exists>c. ae_event e = js ''client.registered'' \<and> ae_clientId e = Some (cr_clientId c) \<and> ae_detail e = None
        \<and> registry_change s s' (lhm_put (cr_clientId c) c (cs_clients (id_clients s))))
   \<or> (\<exists>k c. ae_event e = js ''client.removed'' \<and> ae_clientId e = Some k \<and> ae_detail e = None
        \<and> lhm_get (cs_clients (id_clients s)) k = Some c
        \<and> registry_change s s' (lhm_remove k (cs_clients (id_clients s))))
   \<or> (\<exists>k c a. ae_event e = js ''client.grants_set'' \<and> ae_clientId e = Some k \<and> ae_detail e = None
        \<and> lhm_get (cs_clients (id_clients s)) k = Some c
        \<and> registry_change s s' (lhm_put k (c\<lparr>cr_authorization := a\<rparr>) (cs_clients (id_clients s))))
   \<or> (\<exists>kid. ae_event e = js ''key.rotated'' \<and> ae_clientId e = None
        \<and> ae_detail e = Some (js ''activeKid='' @ kid) \<and> sk_activeKid (id_keys s') = Some kid
        \<and> key_rotation kid (id_keys s) (id_keys s')
        \<and> id_clients s' = id_clients s \<and> id_revocations s' = id_revocations s)
   \<or> (\<exists>v t. ae_event e = js ''token.revoked'' \<and> ae_clientId e = None
        \<and> ae_detail e = Some (js ''jti='' @ rv_jti v)
        \<and> rs_byJti (id_revocations s') = rs_byJti (RevocationService_prune t
            ((id_revocations s)\<lparr>rs_byJti := lhm_put (rv_jti v) v (rs_byJti (id_revocations s))\<rparr>))
        \<and> rs_store (id_revocations s') = Doc (lhm_values (rs_byJti (id_revocations s')))
        \<and> id_clients s' = id_clients s \<and> id_keys s' = id_keys s)
   \<or> (\<exists>k c jti. ae_event e = js ''token.issued'' \<and> ae_clientId e = Some (cr_clientId c)
        \<and> ae_detail e = Some (js ''jti='' @ jti) \<and> cr_enabled c
        \<and> lhm_get (cs_clients (id_clients s)) k = Some c
        \<and> id_clients s' = id_clients s \<and> id_keys s' = id_keys s \<and> id_revocations s' = id_revocations s)"

definition only_pruned :: "Idp \<Rightarrow> Idp \<Rightarrow> bool" where
  "only_pruned s s' \<longleftrightarrow> id_clients s' = id_clients s \<and> id_audit s' = id_audit s
     \<and> same_signer s s'
     \<and> (id_revocations s' = id_revocations s
        \<or> (\<exists>t. id_revocations s' = RevocationService_prune t (id_revocations s)))"

definition audited :: "Idp \<Rightarrow> Idp \<Rightarrow> bool" where
  "audited s s' \<longleftrightarrow> (\<exists>e. au_entries (id_audit s') = au_entries (id_audit s) @ [e]
     \<and> au_store (id_audit s') = Doc (au_entries (id_audit s')) \<and> entry_tells s s' e)"

section \<open>Each handler\<close>

text \<open>The results that the router does not answer 500.\<close>

definition expected :: "exn + 'a \<Rightarrow> bool" where
  "expected r \<longleftrightarrow> (case r of Inr _ \<Rightarrow> True | Inl e \<Rightarrow> \<exists>st er de. e = ApiException st er de)"

lemma expected_simps [simp]: "expected (Inr x)" "\<not> expected (Inl save_error)"
  "\<not> expected (Inl NullPointerException)"
  by (simp_all add: expected_def save_error_def)

lemma only_pruned_refl [simp]: "only_pruned s s"
  using frame_preorders(3) by (simp add: only_pruned_def preorder_rel_def)

text \<open>An audit entry behind an operation.\<close>

lemma audit_record_trail:
  assumes "audit_record t out ev cid det s = (r, s')"
  shows "r = (if out = Saved then Inr () else Inl save_error)"
    and "out = Saved \<Longrightarrow> s' = s\<lparr>id_audit := \<lparr>au_entries = au_entries (id_audit s) @
            [\<lparr>ae_at = t, ae_event = ev, ae_clientId = cid, ae_detail = det\<rparr>],
          au_store = Doc (au_entries (id_audit s) @
            [\<lparr>ae_at = t, ae_event = ev, ae_clientId = cid, ae_detail = det\<rparr>])\<rparr>\<rparr>"
  using assms by (cases out; auto simp: audit_record_def AuditService_record_def Let_def)+

text \<open>The claim about one step from \<open>s\<close>, with a rule for each shape of a handler.\<close>

definition trails :: "Idp \<Rightarrow> Idp \<Rightarrow> (Idp \<Rightarrow> (exn + 'a) \<times> Idp) \<Rightarrow> bool" where
  "trails s t m \<longleftrightarrow> (\<forall>r s'. m t = (r, s') \<longrightarrow> expected r \<longrightarrow> only_pruned s s' \<or> audited s s')"

named_theorems trails_intros

lemma trails_pruned [trails_intros]: "only_pruned s t \<Longrightarrow> trails s t (st_lift r)"
  by (simp add: trails_def st_lift_def)

lemma trails_read [trails_intros]: "trails s t (f (g t)) \<Longrightarrow> trails s t (st_read g f)"
  by (simp add: trails_def st_read_def)

lemma trails_then_lift [trails_intros]:
  "only_pruned s t \<Longrightarrow> (\<And>x. r = Inr x \<Longrightarrow> trails s t (f x)) \<Longrightarrow> trails s t (st_then (st_lift r) f)"
  by (cases r) (simp_all add: trails_def)

lemma trails_if [trails_intros]:
  "(b \<Longrightarrow> trails s t f) \<Longrightarrow> (\<not> b \<Longrightarrow> trails s t g) \<Longrightarrow> trails s t (if b then f else g)"
  by simp

lemma trails_option [trails_intros]:
  "(x = None \<Longrightarrow> trails s t f) \<Longrightarrow> (\<And>y. x = Some y \<Longrightarrow> trails s t (g y)) \<Longrightarrow>
     trails s t (case x of None \<Rightarrow> f | Some y \<Rightarrow> g y)"
  by (cases x) simp_all

lemma trails_pair [trails_intros]:
  "(\<And>x y. p = (x, y) \<Longrightarrow> trails s t (f x y)) \<Longrightarrow> trails s t (case p of (x, y) \<Rightarrow> f x y)"
  by (cases p) simp

lemma trails_then:
  assumes "\<And>e u. m t = (Inl e, u) \<Longrightarrow> expected (Inl e :: exn + 'a) \<Longrightarrow> only_pruned s u"
    and "\<And>x u. m t = (Inr x, u) \<Longrightarrow> trails s u (f x)"
  shows "trails s t (st_then m f :: Idp \<Rightarrow> (exn + 'a) \<times> Idp)"
  unfolding trails_def
proof (intro allI impI)
  fix r s' assume run: "st_then m f t = (r, s')" and e: "expected r"
  obtain y u where m: "m t = (y, u)" by (rule prod.exhaust)
  with run e assms show "only_pruned s s' \<or> audited s s'"
    by (cases y) (auto simp: st_then_def trails_def)
qed

lemma trails_audit:
  assumes "entry_tells s t \<lparr>ae_at = now, ae_event = ev, ae_clientId = cid, ae_detail = det\<rparr>"
    and "id_audit t = id_audit s" and "\<And>u. snd (g u) = u"
  shows "trails s t (st_then (audit_record now out ev cid det) (\<lambda>_. g))"
  unfolding trails_def
proof (intro allI impI)
  fix r s' assume run: "st_then (audit_record now out ev cid det) (\<lambda>_. g) t = (r, s')" and e: "expected r"
  obtain y u where a: "audit_record now out ev cid det t = (y, u)" by (rule prod.exhaust)
  note u = audit_record_trail [OF a]
  with run e a have "out = Saved" by (cases "out = Saved") (auto simp: st_then_def)
  with run a u assms(3) [of u] have "s' = u" by (simp add: st_then_def)
  with u(2) [OF \<open>out = Saved\<close>] assms(1,2) have "audited s s'"
    by (simp add: audited_def entry_tells_def registry_change_def)
  then show "only_pruned s s' \<or> audited s s'" ..
qed

lemma snd_lift [simp]: "snd (st_lift r u) = u" "snd (st_then (st_lift x) (\<lambda>y. st_lift (f y)) u) = u"
  by (cases x; simp add: st_lift_def st_then_def)+

section \<open>The services behind the handlers\<close>

lemma register_trail:
  assumes "on_clients (ClientService_register argon2 st ib sb salt now out dn au) s = (r, t)"
  shows "r = Inl e \<Longrightarrow> expected (Inl e :: exn + 'a) \<Longrightarrow> only_pruned s t"
    and "r = Inr x \<Longrightarrow> id_audit t = id_audit s \<and> registry_change s t
           (lhm_put (cr_clientId (rg_client x)) (rg_client x) (cs_clients (id_clients s)))"
proof -
  note f = on_clients_frame [OF assms]
  then have op: "ClientService_register argon2 st ib sb salt now out dn au (id_clients s) = (r, id_clients t)"
    by blast
  show "only_pruned s t" if "r = Inl e" "expected (Inl e :: exn + 'a)"
    using op
  proof (cases rule: register_cases)
    case (throws e')
    with f have "t = s" by (cases s; cases t) simp
    then show ?thesis by simp
  next
    case (puts h c)
    with that show ?thesis by (auto simp: expected_def save_error_def split: if_splits)
  qed
  show "id_audit t = id_audit s \<and> registry_change s t
           (lhm_put (cr_clientId (rg_client x)) (rg_client x) (cs_clients (id_clients s)))" if "r = Inr x"
    using op
  proof (cases rule: register_cases)
    case (puts h c)
    with that f show ?thesis
      by (cases "id_clients t") (auto simp: registry_change_def split: if_splits)
  qed (use that in simp)
qed

lemma remove_trail:
  assumes "on_clients (ClientService_remove out k) s = (r, t)"
  shows "r = Inl e \<Longrightarrow> \<not> expected (Inl e :: exn + 'a)" and "r = Inr False \<Longrightarrow> only_pruned s t"
    and "r = Inr True \<Longrightarrow> id_audit t = id_audit s \<and> (\<exists>c. lhm_get (cs_clients (id_clients s)) k = Some c)
           \<and> registry_change s t (lhm_remove k (cs_clients (id_clients s)))"
proof -
  note f = on_clients_frame [OF assms]
  then have op: "ClientService_remove out k (id_clients s) = (r, id_clients t)" by blast
  show "\<not> expected (Inl e :: exn + 'a)" if "r = Inl e"
    using op that by (cases out)
      (auto simp: client_ops Let_def expected_def save_error_def split: if_splits)
  show "only_pruned s t" if "r = Inr False"
  proof -
    from op that have "id_clients t = id_clients s"
      by (cases out) (auto simp: client_ops Let_def lhm_remove_absent split: if_splits)
    with f have "t = s" by (cases s; cases t) simp
    then show ?thesis by simp
  qed
  show "id_audit t = id_audit s \<and> (\<exists>c. lhm_get (cs_clients (id_clients s)) k = Some c)
           \<and> registry_change s t (lhm_remove k (cs_clients (id_clients s)))" if "r = Inr True"
  proof -
    have "(\<exists>c. lhm_get (cs_clients (id_clients s)) k = Some c)
        \<and> id_clients t = \<lparr>cs_clients = lhm_remove k (cs_clients (id_clients s)),
            cs_store = Doc (lhm_values (lhm_remove k (cs_clients (id_clients s))))\<rparr>"
      using op [symmetric] that by (cases out) (auto simp: client_ops Let_def split: if_splits)
    with f show ?thesis by (simp add: registry_change_def)
  qed
qed

lemma setAuthorization_trail:
  assumes "on_clients (ClientService_setAuthorization out k au) s = (r, t)"
  shows "r = Inl e \<Longrightarrow> \<not> expected (Inl e :: exn + 'a)" and "r = Inr None \<Longrightarrow> only_pruned s t"
    and "r = Inr (Some x) \<Longrightarrow> id_audit t = id_audit s
      \<and> (\<exists>c a. lhm_get (cs_clients (id_clients s)) k = Some c
           \<and> registry_change s t (lhm_put k (c\<lparr>cr_authorization := a\<rparr>) (cs_clients (id_clients s))))"
proof -
  note f = on_clients_frame [OF assms]
  then have op: "ClientService_setAuthorization out k au (id_clients s) = (r, id_clients t)" by blast
  show "\<not> expected (Inl e :: exn + 'a)" if "r = Inl e"
    using op that by (cases rule: setAuthorization_cases) (auto simp: expected_def save_error_def split: if_splits)
  show "only_pruned s t" if "r = Inr None"
  proof -
    from op that have "id_clients t = id_clients s"
      by (cases rule: setAuthorization_cases) (auto split: if_splits)
    with f have "t = s" by (cases s; cases t) simp
    then show ?thesis by simp
  qed
  show "id_audit t = id_audit s \<and> (\<exists>c a. lhm_get (cs_clients (id_clients s)) k = Some c
           \<and> registry_change s t (lhm_put k (c\<lparr>cr_authorization := a\<rparr>) (cs_clients (id_clients s))))"
    if "r = Inr (Some x)"
    using op
  proof (cases rule: setAuthorization_cases)
    case (puts c c')
    with that f show ?thesis
      by (cases "id_clients t") (auto simp: registry_change_def split: if_splits)
  qed (use that in simp)
qed

lemma rotate_trail:
  assumes "on_keys (SigningKeyService_rotate ed ret now seed kb created pruned out) s = (r, t)"
  shows "r = Inl e \<Longrightarrow> \<not> expected (Inl e :: exn + 'a)"
    and "r = Inr x \<Longrightarrow> \<exists>kid. x = Some kid \<and> id_audit t = id_audit s \<and> sk_activeKid (id_keys t) = Some kid
           \<and> key_rotation kid (id_keys s) (id_keys t)
           \<and> id_clients t = id_clients s \<and> id_revocations t = id_revocations s"
proof -
  note f = on_keys_frame [OF assms]
  note op = rotate_effect [OF f [THEN conjunct2, THEN conjunct2, THEN conjunct2]]
  show "\<not> expected (Inl e :: exn + 'a)" if "r = Inl e"
    using op(3) that by (auto simp: expected_def save_error_def split: if_splits)
  show "\<exists>kid. x = Some kid \<and> id_audit t = id_audit s \<and> sk_activeKid (id_keys t) = Some kid
           \<and> key_rotation kid (id_keys s) (id_keys t)
           \<and> id_clients t = id_clients s \<and> id_revocations t = id_revocations s" if "r = Inr x"
  proof -
    have out: "out = Saved" "x = Some (newKid kb)" using op(3) that by (simp_all split: if_splits)
    have "key_rotation (newKid kb) (id_keys s) (id_keys t)"
      by (rule key_rotationI [of ed ret now seed kb created pruned]) (use out f that in simp)
    then show ?thesis using op(2) out(2) f by simp
  qed
qed

lemma revoke_trail:
  assumes "on_revocations (RevocationService_revoke now pruned out j ex why) s = (r, t)"
  shows "r = Inl e \<Longrightarrow> \<not> expected (Inl e :: exn + 'a)"
    and "r = Inr v \<Longrightarrow> id_audit t = id_audit s \<and> id_clients t = id_clients s \<and> id_keys t = id_keys s
           \<and> rs_byJti (id_revocations t) = rs_byJti (RevocationService_prune pruned
               ((id_revocations s)\<lparr>rs_byJti := lhm_put (rv_jti v) v (rs_byJti (id_revocations s))\<rparr>))
           \<and> rs_store (id_revocations t) = Doc (lhm_values (rs_byJti (id_revocations t)))"
proof -
  note f = on_revocations_frame [OF assms]
  then have op: "RevocationService_revoke now pruned out j ex why (id_revocations s) = (r, id_revocations t)"
    by blast
  show "\<not> expected (Inl e :: exn + 'a)" if "r = Inl e"
    using op that by (cases rule: revoke_cases) (auto simp: expected_def save_error_def split: if_splits)
  show "id_audit t = id_audit s \<and> id_clients t = id_clients s \<and> id_keys t = id_keys s
           \<and> rs_byJti (id_revocations t) = rs_byJti (RevocationService_prune pruned
               ((id_revocations s)\<lparr>rs_byJti := lhm_put (rv_jti v) v (rs_byJti (id_revocations s))\<rparr>))
           \<and> rs_store (id_revocations t) = Doc (lhm_values (rs_byJti (id_revocations t)))" if "r = Inr v"
    using op
  proof (cases rule: revoke_cases)
    case (puts i w)
    with that f show ?thesis by (auto split: if_splits)
  qed (use that in simp)
qed

section \<open>The handlers\<close>

lemma jwks_trail: "trails s s (run_endpoint lb sv i EJwks ctx)"
proof -
  have "only_pruned s t"
    if "on_keys (SigningKeyService_jwkSet (retiredKeyRetention (sv_config sv)) (in_now i 0)) s = (r, t)" for r t
  proof -
    note f = on_keys_frame [OF that]
    note e = jwkSet_effect(2-4) [OF f [THEN conjunct2, THEN conjunct2, THEN conjunct2]]
    from f e show ?thesis by (simp add: only_pruned_def same_signer_def)
  qed
  then show ?thesis
    unfolding run_endpoint.simps handler_jwks_def by (intro trails_then trails_intros)
qed

lemma denylist_trail: "trails s s (run_endpoint lb sv i EListRevocations ctx)"
proof -
  have "only_pruned s t" if "on_revocations (\<lambda>v. (let (es, v') = RevocationService_activeDenylist (in_now i 0) v
      in (Inr es, v'))) s = (r, t)" for r :: "exn + Revocation list" and t
  proof -
    from on_revocations_frame [OF that] have "id_clients t = id_clients s \<and> id_keys t = id_keys s
        \<and> id_audit t = id_audit s \<and> id_revocations t = RevocationService_prune (in_now i 0) (id_revocations s)"
      by (auto simp: RevocationService_activeDenylist_def Let_def)
    then show ?thesis by (auto simp: only_pruned_def same_signer_def)
  qed
  then show ?thesis
    unfolding run_endpoint.simps handler_listRevocations_def
    by (intro trails_then trails_then_lift trails_pruned only_pruned_refl)
qed

lemma register_endpoint_trail: "trails s s (run_endpoint lb sv i ERegisterClient ctx)"
  unfolding run_endpoint.simps handler_registerClient_def Let_def
  by (intro trails_then trails_audit trails_then_lift only_pruned_refl snd_lift(1);
      auto simp: entry_tells_def dest: register_trail)

lemma remove_endpoint_trail: "trails s s (run_endpoint lb sv i EDeleteClient ctx)"
  unfolding run_endpoint.simps handler_deleteClient_def
proof (intro trails_then_lift trails_then only_pruned_refl)
  fix removed t
  assume op: "on_clients (ClientService_remove (in_save i 0) (ctx_id ctx)) s = (Inr removed, t)"
  show "trails s t (if \<not> removed then st_lift (Inl (notFound (js ''no such client: '' @ ctx_id ctx)))
       else st_then (audit_record (in_now i 0) (in_save i 1) (js ''client.removed'')
              (Some (ctx_id ctx)) None) (\<lambda>_. st_lift (Inr HttpResponse_noContent)))"
    using remove_trail(2,3) [OF op]
    by (cases removed) (auto simp: entry_tells_def intro!: trails_pruned trails_audit)
qed (auto dest: remove_trail(1))

lemma grants_endpoint_trail: "trails s s (run_endpoint lb sv i ESetGrants ctx)"
  unfolding run_endpoint.simps handler_setGrants_def
proof (intro trails_then_lift trails_then only_pruned_refl)
  fix au updated t
  assume op: "on_clients (ClientService_setAuthorization (in_save i 0) (ctx_id ctx) (Some au)) s = (Inr updated, t)"
  show "trails s t (case updated of
         None \<Rightarrow> st_lift (Inl (notFound (js ''no such client: '' @ ctx_id ctx)))
       | Some r \<Rightarrow> st_then (audit_record (in_now i 0) (in_save i 1) (js ''client.grants_set'')
                      (Some (ctx_id ctx)) None)
             (\<lambda>_. st_lift (HttpResponse_json (lb_write lb) 200 (view_json (ClientView_from r)))))"
    using setAuthorization_trail(2,3) [OF op]
    by (cases updated) (auto simp: entry_tells_def intro!: trails_pruned trails_audit)
qed (auto dest: setAuthorization_trail(1))

lemma rotate_endpoint_trail: "trails s s (run_endpoint lb sv i ERotateKeys ctx)"
  unfolding run_endpoint.simps handler_rotateKeys_def
proof (intro trails_then_lift only_pruned_refl, rule trails_then)
  fix newKid t
  assume op: "on_keys (SigningKeyService_rotate (lb_ed lb) (retiredKeyRetention (sv_config sv)) (in_now i 0)
      (in_seed i) (in_bytes i 0) (in_now i 1) (in_now i 2) (in_save i 0)) s = (Inr newKid, t)"
  note changed = rotate_trail(2) [OF op refl]
  show "trails s t (st_then (audit_record (in_now i 3) (in_save i 1) (js ''key.rotated'') None
      (Some (js ''activeKid='' @ (case newKid of None \<Rightarrow> js ''null'' | Some k \<Rightarrow> k))))
      (\<lambda>_. st_then (st_lift (not_null newKid))
        (\<lambda>kid. st_lift (HttpResponse_json (lb_write lb) 200 (JObject [(js ''activeKid'', JString kid)])))))"
    by (rule trails_audit) (use changed in \<open>auto simp: entry_tells_def\<close>)
qed (blast dest: rotate_trail(1))

lemma revoke_endpoint_trail: "trails s s (run_endpoint lb sv i ERevoke ctx)"
  unfolding run_endpoint.simps handler_revoke_def Let_def
  by (intro trails_then_lift trails_if trails_pruned trails_then trails_audit only_pruned_refl snd_lift(1);
      auto simp: entry_tells_def simp del: One_nat_def dest: revoke_trail)

lemma token_endpoint_trail: "trails s s (run_endpoint lb sv i EToken ctx)"
  unfolding run_endpoint.simps handler_token_def Let_def
  by (intro trails_intros trails_audit only_pruned_refl snd_lift(1))
     (auto simp: entry_tells_def authenticate_Some_iff)

text \<open>The remaining handlers do not touch the state.\<close>

lemma endpoint_trail: "trails s s (run_endpoint lb sv i e ctx)"
proof (cases "e \<in> {EJwks, EListRevocations, ERegisterClient, EDeleteClient, ESetGrants, ERotateKeys, ERevoke, EToken}")
  case True
  then show ?thesis
    by (elim insertE emptyE; simp only: jwks_trail denylist_trail register_endpoint_trail
        remove_endpoint_trail grants_endpoint_trail rotate_endpoint_trail revoke_endpoint_trail
        token_endpoint_trail)
next
  case False
  then show ?thesis
    by (cases e) (simp_all add: handler_defs, (intro trails_intros only_pruned_refl)+)
qed

section \<open>Properties\<close>

text \<open>
  C18. The audit log is the history of the server: a request that is not answered 500 either
  changes nothing, apart from what a key set or denylist read forgets by pruning, or makes
  exactly one of six changes (a client registered, removed or given grants, the key rotated, a
  token revoked or issued) and appends exactly one entry, which names that change; the entry
  and the changed document are then in their files.
\<close>

theorem changes_are_audited:
  assumes "Idp_handle lb sv i req s = (Inr resp, s')" and "hr_status resp \<noteq> 500"
  shows "only_pruned s s' \<or> audited s s'"
  using assms(1)
proof (cases rule: Idp_handle_cases)
  case (endpoint route params res)
  have "expected res"
  proof (cases res)
    case (Inl e)
    with endpoint(6) assms(2) show ?thesis
      by (cases e) (auto simp: expected_def dest: errorResponse_status [OF sym])
  qed simp
  with endpoint_trail endpoint(4) show ?thesis unfolding trails_def by blast
qed simp

theorem changes_are_audited_witness:
  "\<exists>resp s. Idp_handle demo_libs demo_server demo_inputs (rc_request demo_registration) demo_idp = (Inr resp, s)
     \<and> hr_status resp = 201 \<and> audited demo_idp s"
proof -
  from demo_registers [of demo_idp] obtain resp s where
    run: "run_endpoint demo_libs demo_server demo_inputs ERegisterClient demo_registration demo_idp = (Inr resp, s)"
    and resp: "resp = \<lparr>hr_status = 201, hr_contentType = js ''application/json'', hr_body = json_bytes (register_json
      \<lparr>re_clientId = newClientId [0, 9], re_secret = newClientSecret [1, 9], re_displayName = None,
       re_authorization = GrantsClaim_from Authorization_none, re_createdAt = 200\<rparr>)\<rparr>"
    and changed: "au_entries (id_audit s) \<noteq> au_entries (id_audit demo_idp)" by blast
  have h: "Idp_handle demo_libs demo_server demo_inputs (rc_request demo_registration) demo_idp = (Inr resp, s)"
    by (rule Idp_handle_found [OF demo_registration_route(1,2)]) (simp only: run demo_registration_route(3,4))
  from changes_are_audited [OF h] resp changed h show ?thesis by (auto simp: only_pruned_def)
qed

end
