(* ===== verification/Server.thy ===== *)
theory Server
  imports Handlers
begin

text \<open>
  The whole server: \<open>server/IdpServer.java\<close>'s \<open>create\<close>, which builds the services from the four
  documents in the data directory, and the running system. A request is handled on its own
  thread, and only the methods of the services are synchronized, so the unit of execution is
  one service call: \<open>service_call\<close> makes one call, or restarts the server from its documents,
  and every interleaving of requests is a sequence of such steps (shown in \<open>Concurrency\<close>). The clock readings of the
  steps lie in a window \<open>[a, b]\<close> of seconds. Policies restrict a run: \<open>thr\<close> what a call may
  throw, \<open>ids\<close> which client ids are drawn, \<open>ok\<close> which revocations are asked for;
  \<open>service_step\<close> leaves the first two open.
\<close>

section \<open>server/IdpServer.java\<close>

record disk =
  dk_clients :: "ClientRecord list cell"
  dk_keys :: "SigningKeys cell"
  dk_revocations :: "Revocation list cell"
  dk_audit :: "AuditEntry list cell"

definition disk_of :: "Idp \<Rightarrow> disk" where
  "disk_of s =
     \<lparr>dk_clients = cs_store (id_clients s), dk_keys = sk_store (id_keys s),
      dk_revocations = rs_store (id_revocations s), dk_audit = au_store (id_audit s)\<rparr>"

text \<open>
  What a start takes from outside: the clock, random bytes and a key pair for a first signing
  key, the outcome of its save, the bundled resources, and whether the socket could be bound.
\<close>

record startup =
  su_now :: long
  su_kidBytes :: "byte list"
  su_seed :: private_key
  su_save :: outcome
  su_resources :: class_path
  su_bind :: "exn + unit"

definition create_issuer :: "ServerConfig \<Rightarrow> TokenIssuer" where
  "create_issuer config =
     \<lparr>ti_issuer = sc_issuer config, ti_audience = sc_audience config,
      ti_tokenTtl = sc_tokenTtl config\<rparr>"

definition IdpServer_create ::
  "libs \<Rightarrow> startup \<Rightarrow> ServerConfig \<Rightarrow> jstring option \<Rightarrow> disk \<Rightarrow> (exn + server \<times> Idp) \<times> disk" where
  "IdpServer_create lb su config adminToken d =
     (case ClientService_new (dk_clients d) of
        Inl e \<Rightarrow> (Inl e, d)
      | Inr clients \<Rightarrow>
          (case SigningKeyService_new (lb_ed lb) (su_seed su) (su_kidBytes su) (su_now su)
                  (su_save su) (dk_keys d) of
             (Inl e, c) \<Rightarrow> (Inl e, d\<lparr>dk_keys := c\<rparr>)
           | (Inr signingKeys, c) \<Rightarrow>
               (and_then (RevocationService_new (dk_revocations d)) (\<lambda>revocations.
                and_then (AuditService_new (dk_audit d)) (\<lambda>audit.
                and_then (mk_AdminAuthenticator adminToken) (\<lambda>admin.
                and_then (OpenApiDocument_load (lb_yaml lb) (lb_write lb) (su_resources su)) (\<lambda>openApi.
                and_then (su_bind su) (\<lambda>_.
                  Inr (\<lparr>sv_config = config, sv_issuer = create_issuer config, sv_admin = admin,
                        sv_openApi = openApi, sv_resources = su_resources su\<rparr>,
                       \<lparr>id_clients = clients, id_keys = signingKeys,
                        id_revocations = revocations, id_audit = audit\<rparr>)))))),
                d\<lparr>dk_keys := c\<rparr>)))"

section \<open>server/ServerMain.java\<close>

text \<open>
  \<open>run\<close> up to the start of the socket: \<open>readFile\<close> reads the admin-token file (\<open>None\<close>: it cannot
  be read), \<open>disks\<close> is the content of every directory that may be configured.
\<close>

definition ServerMain_run ::
  "(jstring list \<Rightarrow> exn + path) \<Rightarrow> jstring \<Rightarrow> libs \<Rightarrow> startup \<Rightarrow> (path \<Rightarrow> jstring option)
   \<Rightarrow> jstring list \<Rightarrow> env \<Rightarrow> (path \<Rightarrow> disk) \<Rightarrow> (exn + server \<times> Idp) \<times> (path \<Rightarrow> disk)" where
  "ServerMain_run paths_get userHome lb su readFile args env disks =
     (case resolve paths_get userHome args env of
        Inl e \<Rightarrow> (Inl e, disks)
      | Inr config \<Rightarrow>
          (case resolveAdminToken env (map_option readFile (sc_adminTokenFilePath config)) of
             Inl e \<Rightarrow> (Inl e, disks)
           | Inr adminToken \<Rightarrow>
               (let (r, d) = IdpServer_create lb su config (Some adminToken)
                               (disks (sc_dataDir config))
                in (r, disks(sc_dataDir config := d)))))"

text \<open>How the process goes on: it serves, exits with a status, or dies of an exception.\<close>

datatype Process = Running server Idp | Exit nat | Uncaught exn

definition ServerMain_main ::
  "(jstring list \<Rightarrow> exn + path) \<Rightarrow> jstring \<Rightarrow> libs \<Rightarrow> startup \<Rightarrow> (path \<Rightarrow> jstring option)
   \<Rightarrow> jstring list \<Rightarrow> env \<Rightarrow> (path \<Rightarrow> disk) \<Rightarrow> Process" where
  "ServerMain_main paths_get userHome lb su readFile args env disks =
     (case fst (ServerMain_run paths_get userHome lb su readFile args env disks) of
        Inr (sv, s) \<Rightarrow> Running sv s
      | Inl e \<Rightarrow>
          (case e of
             IllegalArgumentException _ \<Rightarrow> Exit 64
           | IllegalStateException _ \<Rightarrow> Exit 64
           | IOException _ \<Rightarrow> Exit 74
           | _ \<Rightarrow> Uncaught e))"

section \<open>Documents that the services can start from\<close>

definition good_cell :: "('s \<Rightarrow> bool) \<Rightarrow> ('s \<Rightarrow> 'd) \<Rightarrow> 'd cell \<Rightarrow> bool" where
  "good_cell ok document c \<longleftrightarrow> c = Absent \<or> (\<exists>s. ok s \<and> c = Doc (document s))"

lemma good_cell_save:
  "good_cell ok document c \<Longrightarrow> ok s \<Longrightarrow> good_cell ok document (snd (cell_save out (document s) c))"
  by (cases out) (auto simp: good_cell_def)

context restartable
begin

lemma restart_good:
  assumes "good_cell inv document c" and "c \<noteq> Absent"
  obtains s s' where "inv s" and "c = Doc (document s)" and "restart c = Inr s'" and "same s s'"
proof -
  from assms obtain s where s: "inv s" "c = Doc (document s)" by (auto simp: good_cell_def)
  with restart_document [OF s(1)] that show ?thesis by blast
qed

end

definition clients_good :: "ClientService \<Rightarrow> bool" where
  "clients_good s \<longleftrightarrow> clients_inv s
     \<and> good_cell clients_inv (\<lambda>s. lhm_values (cs_clients s)) (cs_store s)"

definition keys_document :: "SigningKeyService \<Rightarrow> SigningKeys" where
  "keys_document s = \<lparr>sd_activeKid = sk_activeKid s, sd_keys = sk_keys s\<rparr>"

definition keys_good :: "ed25519 \<Rightarrow> SigningKeyService \<Rightarrow> bool" where
  "keys_good ed s \<longleftrightarrow> keys_inv ed s \<and> good_cell (keys_inv ed) keys_document (sk_store s)"

definition revocations_good :: "RevocationService \<Rightarrow> bool" where
  "revocations_good s \<longleftrightarrow> revocations_inv s
     \<and> good_cell revocations_inv (\<lambda>s. lhm_values (rs_byJti s)) (rs_store s)"

definition system_inv :: "ed25519 \<Rightarrow> Idp \<Rightarrow> bool" where
  "system_inv ed s \<longleftrightarrow> clients_good (id_clients s) \<and> keys_good ed (id_keys s)
     \<and> revocations_good (id_revocations s) \<and> au_store (id_audit s) \<noteq> Unreadable"

text \<open>A data directory whose documents the services can start from.\<close>

definition good_disk :: "ed25519 \<Rightarrow> disk \<Rightarrow> bool" where
  "good_disk ed d \<longleftrightarrow>
     good_cell clients_inv (\<lambda>s. lhm_values (cs_clients s)) (dk_clients d)
     \<and> good_cell (keys_inv ed) keys_document (dk_keys d)
     \<and> good_cell revocations_inv (\<lambda>s. lhm_values (rs_byJti s)) (dk_revocations d)
     \<and> dk_audit d \<noteq> Unreadable"

text \<open>Every operation leaves its file as it was or saves what it has in memory.\<close>

lemma clients_persist_store:
  "ClientService_persist out s = (r, s') \<Longrightarrow>
     cs_store s' = snd (cell_save out (lhm_values (cs_clients s')) (cs_store s))"
  by (cases out) (auto simp: ClientService_persist_def)

lemma register_store:
  "ClientService_register argon2 st ib sb salt now out dn au s = (r, s') \<Longrightarrow>
     s' = s \<or> cs_store s' = snd (cell_save out (lhm_values (cs_clients s')) (cs_store s))"
  by (auto simp: ClientService_register_def Let_def dest: clients_persist_store
      split: sum.splits prod.splits)

lemma remove_store:
  "ClientService_remove out k s = (r, s') \<Longrightarrow>
     s' = s \<or> cs_store s' = snd (cell_save out (lhm_values (cs_clients s')) (cs_store s))"
  by (auto simp: ClientService_remove_def Let_def lhm_remove_absent dest: clients_persist_store
      split: sum.splits prod.splits if_splits)

lemma setAuthorization_store:
  "ClientService_setAuthorization out k au s = (r, s') \<Longrightarrow>
     s' = s \<or> cs_store s' = snd (cell_save out (lhm_values (cs_clients s')) (cs_store s))"
  by (auto simp: ClientService_setAuthorization_def Let_def dest: clients_persist_store
      split: option.splits sum.splits prod.splits)

lemma rotate_store:
  "SigningKeyService_rotate ed ret now seed kb created pruned out s = (r, s') \<Longrightarrow>
     sk_store s' = snd (cell_save out (keys_document s') (sk_store s))"
  by (cases out; auto simp: key_ops keys_document_def Let_def split: prod.splits)

lemma revoke_store:
  "RevocationService_revoke now pruned out j ex why s = (r, s') \<Longrightarrow>
     s' = s \<or> rs_store s' = snd (cell_save out (lhm_values (rs_byJti s')) (rs_store s))"
  by (cases out; auto simp: revocation_ops Let_def split: option.splits if_splits prod.splits)

lemma record_store:
  "AuditService_record now out ev cid det s = (r, s') \<Longrightarrow>
     au_store s' = snd (cell_save out (au_entries s') (au_store s))"
  by (cases out; auto simp: AuditService_record_def Let_def)

section \<open>The running system\<close>

text \<open>What a call may throw.\<close>

definition may_throw :: "(exn \<Rightarrow> bool) \<Rightarrow> exn + 'a \<Rightarrow> bool" where
  "may_throw thr r \<longleftrightarrow> (\<forall>e. r = Inl e \<longrightarrow> thr e)"

lemma may_throw_any [simp, intro]: "may_throw (\<lambda>_. True) r"
  by (simp add: may_throw_def)

inductive service_call ::
  "(exn \<Rightarrow> bool) \<Rightarrow> (jstring \<Rightarrow> bool) \<Rightarrow> libs \<Rightarrow> server \<Rightarrow> int \<Rightarrow> int \<Rightarrow> (jstring \<Rightarrow> long \<Rightarrow> bool) \<Rightarrow> Idp \<Rightarrow> Idp \<Rightarrow> bool"
  for thr ids lb sv a b ok
where
  s_register: "on_clients (ClientService_register (lb_argon2 lb) (sc_argonSettings (sv_config sv))
      idBytes secretBytes salt now out displayName (Some authorization)) s = (r, s') \<Longrightarrow>
    wf_authorization authorization \<Longrightarrow> ids (newClientId idBytes) \<Longrightarrow> may_throw thr r \<Longrightarrow>
    service_call thr ids lb sv a b ok s s'"
| s_remove: "on_clients (ClientService_remove out clientId) s = (r', s') \<Longrightarrow>
    may_throw thr r' \<Longrightarrow> service_call thr ids lb sv a b ok s s'"
| s_setAuthorization: "on_clients (ClientService_setAuthorization out clientId (Some authorization)) s
      = (r'', s') \<Longrightarrow> wf_authorization authorization \<Longrightarrow> may_throw thr r'' \<Longrightarrow> service_call thr ids lb sv a b ok s s'"
| s_jwkSet: "on_keys (SigningKeyService_jwkSet (retiredKeyRetention (sv_config sv)) now) s = (r1, s') \<Longrightarrow>
    sint now \<in> {a..b} \<Longrightarrow> may_throw thr r1 \<Longrightarrow> service_call thr ids lb sv a b ok s s'"
| s_rotate: "on_keys (SigningKeyService_rotate (lb_ed lb) (retiredKeyRetention (sv_config sv))
      now seed kidBytes created pruned out) s = (r2, s') \<Longrightarrow>
    sint now \<in> {a..b} \<Longrightarrow> sint pruned \<in> {a..b} \<Longrightarrow> length seed = 32 \<Longrightarrow>
    newKid kidBytes \<notin> kr_kid ` set (sk_keys (id_keys s)) \<Longrightarrow> may_throw thr r2 \<Longrightarrow> service_call thr ids lb sv a b ok s s'"
| s_revoke: "on_revocations (RevocationService_revoke now pruned out jti expiresAt reason) s = (r3, s') \<Longrightarrow>
    sint pruned \<in> {a..b} \<Longrightarrow> (\<And>j. jti = Some j \<Longrightarrow> ok j expiresAt) \<Longrightarrow>
    may_throw thr r3 \<Longrightarrow> service_call thr ids lb sv a b ok s s'"
| s_denylist: "on_revocations (\<lambda>v. let (es, v') = RevocationService_activeDenylist now v in (Inr es, v')) s
      = (r4, s') \<Longrightarrow> sint now \<in> {a..b} \<Longrightarrow> may_throw thr r4 \<Longrightarrow> service_call thr ids lb sv a b ok s s'"
| s_isRevoked: "on_revocations (\<lambda>v. let (x, v') = RevocationService_isRevoked now jti v in (Inr x, v')) s
      = (r5, s') \<Longrightarrow> sint now \<in> {a..b} \<Longrightarrow> may_throw thr r5 \<Longrightarrow> service_call thr ids lb sv a b ok s s'"
| s_audit: "audit_record now out event clientId detail s = (r6, s') \<Longrightarrow> may_throw thr r6 \<Longrightarrow> service_call thr ids lb sv a b ok s s'"
| s_restart: "fst (IdpServer_create lb su (sv_config sv) adminToken (disk_of s)) = Inr (sv', s') \<Longrightarrow>
    length (su_seed su) = 32 \<Longrightarrow> service_call thr ids lb sv a b ok s s'"

inductive_cases service_callE: "service_call thr ids lb sv a b ok s s'"

abbreviation service_step ::
  "libs \<Rightarrow> server \<Rightarrow> int \<Rightarrow> int \<Rightarrow> (jstring \<Rightarrow> long \<Rightarrow> bool) \<Rightarrow> Idp \<Rightarrow> Idp \<Rightarrow> bool" where
  "service_step \<equiv> service_call (\<lambda>_. True) (\<lambda>_. True)"

abbreviation service_run ::
  "libs \<Rightarrow> server \<Rightarrow> int \<Rightarrow> int \<Rightarrow> (jstring \<Rightarrow> long \<Rightarrow> bool) \<Rightarrow> Idp \<Rightarrow> Idp \<Rightarrow> bool" where
  "service_run lb sv a b ok \<equiv> (service_step lb sv a b ok)\<^sup>*\<^sup>*"

text \<open>A run in which no call fails to save.\<close>

abbreviation saving_run ::
  "libs \<Rightarrow> server \<Rightarrow> int \<Rightarrow> int \<Rightarrow> (jstring \<Rightarrow> long \<Rightarrow> bool) \<Rightarrow> Idp \<Rightarrow> Idp \<Rightarrow> bool" where
  "saving_run lb sv a b ok \<equiv> (service_call (\<lambda>e. e \<noteq> save_error) (\<lambda>_. True) lb sv a b ok)\<^sup>*\<^sup>*"

lemma call_is_step: "service_call thr ids lb sv a b ok s s' \<Longrightarrow> service_step lb sv a b ok s s'"
  by (induction rule: service_call.induct) (rule service_call.intros; (assumption | rule may_throw_any | blast))+

lemma saving_run_is_run: "saving_run lb sv a b ok s s' \<Longrightarrow> service_run lb sv a b ok s s'"
  by (rule rtranclp_mono [THEN predicate2D]) (auto intro: call_is_step)

text \<open>What a start makes of good documents.\<close>

lemma create_Inr:
  assumes "fst (IdpServer_create lb su config adminToken d) = Inr (sv, s)"
  shows "ClientService_new (dk_clients d) = Inr (id_clients s)"
    and "\<exists>c. SigningKeyService_new (lb_ed lb) (su_seed su) (su_kidBytes su) (su_now su) (su_save su)
           (dk_keys d) = (Inr (id_keys s), c)"
    and "RevocationService_new (dk_revocations d) = Inr (id_revocations s)"
    and "AuditService_new (dk_audit d) = Inr (id_audit s)"
    and "sv_config sv = config" and "sv_issuer sv = create_issuer config"
    and "mk_AdminAuthenticator adminToken = Inr (sv_admin sv)"
  using assms
  by (auto simp: IdpServer_create_def and_then_Inr_iff split: sum.splits prod.splits)

lemma start_clients:
  assumes "good_cell clients_inv (\<lambda>s. lhm_values (cs_clients s)) c" and "ClientService_new c = Inr s"
  shows "clients_good s \<and> cs_store s = c \<and> (case c of Doc d \<Rightarrow> lhm_values (cs_clients s) = d | _ \<Rightarrow> cs_clients s = [])"
proof (cases "c = Absent")
  case True
  with assms(2) show ?thesis
    by (auto simp: ClientService_new_def clients_good_def good_cell_def clients_inv_def lhm_values_def)
next
  case False
  with assms(1) obtain t where t: "clients_inv t" "c = Doc (lhm_values (cs_clients t))"
    by (auto simp: good_cell_def)
  with restart_clients [OF t(1)] assms show ?thesis
    by (auto simp: clients_good_def clients_inv_def)
qed

lemma start_keys:
  assumes good: "good_cell (keys_inv ed) keys_document c" and seed: "length seed = 32"
    and new: "SigningKeyService_new ed seed kb now out c = (Inr s, c')"
  shows "keys_good ed s" and "c \<noteq> Absent \<Longrightarrow> c = Doc (keys_document s)"
    and "c \<noteq> Absent \<Longrightarrow> sk_store s = c"
proof -
  consider "c = Absent" | t where "keys_inv ed t" "c = Doc (keys_document t)"
    using good by (auto simp: good_cell_def)
  then have "keys_good ed s \<and> (c \<noteq> Absent \<longrightarrow> c = Doc (keys_document s) \<and> sk_store s = c)"
  proof cases
    case 1
    note s = new_on_absent [OF seed new [unfolded 1]]
    have "sk_store s = snd (cell_save out (keys_document s) Absent)"
      using new by (cases out) (auto simp: 1 SigningKeyService_new_def SigningKeyService_persist_def
          keys_document_def Let_def split: if_splits)
    then show ?thesis
      using 1 s(1) good_cell_save [of "keys_inv ed" keys_document Absent s out]
      by (simp add: keys_good_def good_cell_def)
  next
    case (2 t)
    have "s = t\<lparr>sk_store := c\<rparr>"
      using restart_keys [OF 2(1), of ed seed kb now out] new by (simp add: 2(2) keys_document_def)
    with 2 good show ?thesis by (simp add: keys_good_def keys_inv_def keys_document_def findActive_def)
  qed
  then show "keys_good ed s" "c \<noteq> Absent \<Longrightarrow> c = Doc (keys_document s)"
    "c \<noteq> Absent \<Longrightarrow> sk_store s = c" by blast+
qed

lemma start_revocations:
  assumes "good_cell revocations_inv (\<lambda>s. lhm_values (rs_byJti s)) c"
    and "RevocationService_new c = Inr s"
  shows "revocations_good s" and "rs_store s = c"
    and "c \<noteq> Absent \<Longrightarrow> c = Doc (lhm_values (rs_byJti s))"
proof -
  have "revocations_good s \<and> rs_store s = c \<and> (c \<noteq> Absent \<longrightarrow> c = Doc (lhm_values (rs_byJti s)))"
  proof (cases "c = Absent")
    case True
    with assms(2) show ?thesis
      by (auto simp: RevocationService_new_def revocations_good_def good_cell_def revocations_inv_def)
  next
    case False
    with assms(1) obtain t where t: "revocations_inv t" "c = Doc (lhm_values (rs_byJti t))"
      by (auto simp: good_cell_def)
    with restart_revocations [OF t(1)] assms show ?thesis
      by (auto simp: revocations_good_def revocations_inv_def)
  qed
  then show "revocations_good s" "rs_store s = c" "c \<noteq> Absent \<Longrightarrow> c = Doc (lhm_values (rs_byJti s))"
    by blast+
qed

lemma start_audit: "AuditService_new c = Inr s \<Longrightarrow> au_store s = c"
  by (auto simp: AuditService_new_def and_then_Inr_iff split: if_splits)

section \<open>The invariant of the running system\<close>

lemma clients_goodI:
  assumes "clients_good s" and "clients_inv s'"
    and "s' = s \<or> cs_store s' = snd (cell_save out (lhm_values (cs_clients s')) (cs_store s))"
  shows "clients_good s'"
  using assms good_cell_save [of clients_inv "\<lambda>s. lhm_values (cs_clients s)" "cs_store s" s' out]
  by (auto simp: clients_good_def)

lemma revocations_goodI:
  assumes "revocations_good s" and "revocations_inv s'"
    and "s' = s \<or> rs_store s' = snd (cell_save out (lhm_values (rs_byJti s')) (rs_store s))"
  shows "revocations_good s'"
  using assms good_cell_save [of revocations_inv "\<lambda>s. lhm_values (rs_byJti s)" "rs_store s" s' out]
  by (auto simp: revocations_good_def)

lemma revocations_good_prune:
  "revocations_good s \<Longrightarrow> RevocationService_prune t s = s' \<Longrightarrow> revocations_good s'"
  by (auto simp: revocations_good_def revocations_inv_prune) (simp add: RevocationService_prune_def)

lemma keys_good_rotate:
  assumes "keys_good ed s" and "length seed = 32" and "newKid kb \<notin> kr_kid ` set (sk_keys s)"
    and rot: "SigningKeyService_rotate ed ret now seed kb created pruned out s = (r, s')"
  shows "keys_good ed s'"
proof -
  from assms(1) have s: "keys_inv ed s" "good_cell (keys_inv ed) keys_document (sk_store s)"
    by (simp_all add: keys_good_def)
  from rotate_inv [OF s(1) assms(2,3) rot] have inv: "keys_inv ed s'" .
  with good_cell_save [OF s(2) inv, of out] rotate_store [OF rot] show ?thesis
    by (simp add: keys_good_def)
qed

lemma keys_good_prune: "keys_good ed s \<Longrightarrow> keys_good ed (pruneExpiredRetired ret t s)"
  by (simp add: keys_good_def keys_inv_prune) (simp add: pruneExpiredRetired_def)

lemma step_clients:
  assumes "service_step lb sv a b ok s s'" and "clients_good (id_clients s)"
    and "wf_settings (sc_argonSettings (sv_config sv))"
  shows "clients_good (id_clients s')"
proof -
  have inv: "clients_inv (id_clients s)" using assms(2) by (simp add: clients_good_def)
  show ?thesis
    using assms(1)
proof (cases rule: service_call.cases)
  case s_register
  note op = on_clients_frame [OF s_register(1), THEN conjunct2, THEN conjunct2, THEN conjunct2]
  show ?thesis
    by (rule clients_goodI [OF assms(2) register_inv [OF inv assms(3) _ op] register_store [OF op]])
       (use s_register(2) in simp)
next
  case s_remove
  note op = on_clients_frame [OF s_remove(1), THEN conjunct2, THEN conjunct2, THEN conjunct2]
  show ?thesis by (rule clients_goodI [OF assms(2) remove_inv [OF inv op] remove_store [OF op]])
next
  case s_setAuthorization
  note op = on_clients_frame [OF s_setAuthorization(1), THEN conjunct2, THEN conjunct2, THEN conjunct2]
  show ?thesis
    by (rule clients_goodI [OF assms(2) setAuthorization_inv [OF inv _ op] setAuthorization_store [OF op]])
       (use s_setAuthorization(2) in simp)
next
  case s_restart
  then show ?thesis
    using create_Inr(1) [OF s_restart(1)] assms(2) start_clients
    by (auto simp: clients_good_def disk_of_def)
qed (use assms(2) in \<open>auto dest!: on_keys_frame on_revocations_frame audit_record_frame\<close>)
qed

lemma step_keys:
  assumes "service_step lb sv a b ok s s'" and "keys_good (lb_ed lb) (id_keys s)"
  shows "keys_good (lb_ed lb) (id_keys s')"
  using assms(1)
proof (cases rule: service_call.cases)
  case s_jwkSet
  then show ?thesis
    using assms(2) by (auto dest!: on_keys_frame jwkSet_effect(1) intro: keys_good_prune)
next
  case s_rotate
  then show ?thesis
    using assms(2) by (auto dest!: on_keys_frame intro: keys_good_rotate)
next
  case s_restart
  then show ?thesis
    using create_Inr(2) [OF s_restart(1)] assms(2) start_keys(1)
    by (auto simp: keys_good_def disk_of_def)
qed (use assms(2) in \<open>auto dest!: on_clients_frame on_revocations_frame audit_record_frame\<close>)

lemma step_revocations:
  assumes "service_step lb sv a b ok s s'" and "revocations_good (id_revocations s)"
  shows "revocations_good (id_revocations s')"
  using assms(1)
proof (cases rule: service_call.cases)
  case s_revoke
  note op = on_revocations_frame [OF s_revoke(1), THEN conjunct2, THEN conjunct2, THEN conjunct2]
  have "revocations_inv (id_revocations s)" using assms(2) by (simp add: revocations_good_def)
  then show ?thesis
    by (rule revocations_goodI [OF assms(2) revoke_inv [OF _ op] revoke_store [OF op]])
next
  case s_restart
  then show ?thesis
    using create_Inr(3) [OF s_restart(1)] assms(2) start_revocations(1)
    by (auto simp: revocations_good_def disk_of_def)
qed (use assms(2) in \<open>auto dest!: on_clients_frame on_keys_frame on_revocations_frame audit_record_frame
       simp: RevocationService_activeDenylist_def RevocationService_isRevoked_def Let_def
       intro: revocations_good_prune\<close>)

lemma step_audit_readable:
  assumes "service_step lb sv a b ok s s'" and "au_store (id_audit s) \<noteq> Unreadable"
  shows "au_store (id_audit s') \<noteq> Unreadable"
  using assms(1)
proof (cases rule: service_call.cases)
  case (s_audit now out event clientId detail r6)
  then show ?thesis
    using assms(2) by (cases out) (auto dest!: audit_record_frame record_store)
next
  case s_restart
  then show ?thesis
    using create_Inr(4) [OF s_restart(1)] assms(2)
    by (auto simp: disk_of_def dest: start_audit)
qed (use assms(2) in \<open>auto dest!: on_clients_frame on_keys_frame on_revocations_frame\<close>)

lemma step_system_inv:
  "service_step lb sv a b ok s s' \<Longrightarrow> wf_settings (sc_argonSettings (sv_config sv)) \<Longrightarrow>
     system_inv (lb_ed lb) s \<Longrightarrow> system_inv (lb_ed lb) s'"
  by (simp add: system_inv_def step_clients step_keys step_revocations step_audit_readable)

lemma run_system_inv:
  "service_run lb sv a b ok s s' \<Longrightarrow> wf_settings (sc_argonSettings (sv_config sv)) \<Longrightarrow>
     system_inv (lb_ed lb) s \<Longrightarrow> system_inv (lb_ed lb) s'"
  by (induction rule: rtranclp_induct) (auto intro: step_system_inv)

section \<open>A signing key stays as long as its tokens live\<close>

text \<open>
  A key that signed at second \<open>t0\<close>: in the list it is active, or it was retired at \<open>t0\<close> or
  later. Memory and file both hold it.
\<close>

definition key_held :: "jstring \<Rightarrow> jstring \<Rightarrow> int \<Rightarrow> SigningKeyRecord list \<Rightarrow> bool" where
  "key_held kid priv t0 ks \<longleftrightarrow>
     (\<exists>k \<in> set ks. kr_kid k = kid \<and> kr_private k = priv
        \<and> (kr_active k \<or> (\<exists>t. kr_retiredAt k = Some t \<and> t0 \<le> sint t)))"

definition signer_held :: "jstring \<Rightarrow> jstring \<Rightarrow> int \<Rightarrow> SigningKeyService \<Rightarrow> bool" where
  "signer_held kid priv t0 s \<longleftrightarrow> key_held kid priv t0 (sk_keys s)
     \<and> (\<exists>d. sk_store s = Doc d \<and> key_held kid priv t0 (sd_keys d))"

text \<open>The window in which the retention rule cannot reach the key.\<close>

lemma held_not_expired:
  assumes "key_held kid priv t0 ks" and "instant_ok now" and "0 \<le> sint ret" and "sint ret < 2 ^ 62"
    and "sint now \<le> t0 + sint ret"
  shows "key_held kid priv t0 (filter (\<lambda>k. \<not> expired_retired ret now k) ks)"
  using assms(1,5) unfolding key_held_def expired_retired_iff [OF assms(2-4)] by fastforce

lemma instant_window:
  fixes now :: long
  assumes "sint now \<in> {a..b}" and "instant_min \<le> a" and "b \<le> instant_max"
  shows "instant_ok now"
  using assms by (simp add: instant_ok_def)

lemma rotate_held:
  assumes "key_held kid priv t0 (sk_keys s)"
    and rot: "SigningKeyService_rotate ed ret now seed kb created pruned out s = (r, s')"
    and "t0 \<le> sint now" and "instant_ok pruned" and "0 \<le> sint ret" and "sint ret < 2 ^ 62"
    and "sint pruned \<le> t0 + sint ret"
  shows "key_held kid priv t0 (sk_keys s')"
proof -
  let ?retire = "\<lambda>k. if kr_active k then SigningKeyRecord_retiredAt now k else k"
  have "key_held kid priv t0 (map ?retire (sk_keys s))"
  proof -
    from assms(1) obtain k where k: "k \<in> set (sk_keys s)" "kr_kid k = kid" "kr_private k = priv"
      "kr_active k \<or> (\<exists>t. kr_retiredAt k = Some t \<and> t0 \<le> sint t)" unfolding key_held_def by blast
    then have "?retire k \<in> set (map ?retire (sk_keys s))" by simp
    moreover have "kr_kid (?retire k) = kid \<and> kr_private (?retire k) = priv
        \<and> (\<exists>t. kr_retiredAt (?retire k) = Some t \<and> t0 \<le> sint t)"
      using k(2-4) assms(3) by (auto simp: SigningKeyRecord_retiredAt_def)
    ultimately show ?thesis unfolding key_held_def by blast
  qed
  then have "key_held kid priv t0 (rotated_keys ed now seed kb created (sk_keys s))"
    unfolding key_held_def rotated_keys_def by auto
  then show ?thesis
    unfolding rotate_effect(1) [OF rot] by (rule held_not_expired [OF _ assms(4-7)])
qed

lemma signer_held_save:
  assumes "signer_held kid priv t0 s" and "key_held kid priv t0 (sk_keys s')"
    and "sk_store s' = snd (cell_save out (keys_document s') (sk_store s))"
  shows "signer_held kid priv t0 s'"
  using assms by (cases out) (auto simp: signer_held_def keys_document_def)

lemma step_signer_held:
  assumes "service_step lb sv t0 b ok s s'" and "signer_held kid priv t0 (id_keys s)"
    and good: "keys_good (lb_ed lb) (id_keys s)" and cfg: "wf_config (sv_config sv)"
    and win: "instant_min \<le> t0" "b \<le> instant_max" "b \<le> t0 + 2 * sint (sc_tokenTtl (sv_config sv))"
  shows "signer_held kid priv t0 (id_keys s')"
proof -
  let ?ret = "retiredKeyRetention (sv_config sv)"
  have ret: "sint ?ret = 2 * sint (sc_tokenTtl (sv_config sv))" "0 \<le> sint ?ret" "sint ?ret < 2 ^ 62"
    using cfg retention_sint [of "sv_config sv"] by (simp_all add: wf_config_def)
  show ?thesis
    using assms(1)
  proof (cases rule: service_call.cases)
    case (s_jwkSet now r1)
    from s_jwkSet(2) win ret(1) have now: "instant_ok now" "sint now \<le> t0 + sint ?ret"
      by (auto intro: instant_window)
    from on_keys_frame [OF s_jwkSet(1)] have "id_keys s' = pruneExpiredRetired ?ret now (id_keys s)"
      by (auto dest: jwkSet_effect(1))
    then show ?thesis
      using assms(2) held_not_expired [OF _ now(1) ret(2,3) now(2), of kid priv "sk_keys (id_keys s)"]
      by (simp add: signer_held_def pruneExpiredRetired_def)
  next
    case (s_rotate now seed kidBytes created pruned out r2)
    note op = on_keys_frame [OF s_rotate(1), THEN conjunct2, THEN conjunct2, THEN conjunct2]
    from s_rotate(2,3) win ret(1) have now: "t0 \<le> sint now" "instant_ok pruned" "sint pruned \<le> t0 + sint ?ret"
      by (auto intro: instant_window)
    have "key_held kid priv t0 (sk_keys (id_keys s))" using assms(2) by (simp add: signer_held_def)
    from rotate_held [OF this op now(1,2) ret(2,3) now(3)] rotate_store [OF op]
    show ?thesis by (rule signer_held_save [OF assms(2)])
  next
    case (s_restart su adminToken sv')
    from create_Inr(2) [OF s_restart(1)] obtain c where
      new: "SigningKeyService_new (lb_ed lb) (su_seed su) (su_kidBytes su) (su_now su) (su_save su)
        (sk_store (id_keys s)) = (Inr (id_keys s'), c)" by (auto simp: disk_of_def)
    have "sk_store (id_keys s) \<noteq> Absent" using assms(2) by (auto simp: signer_held_def)
    with start_keys(2,3) [OF _ s_restart(2) new] good assms(2) show ?thesis
      by (auto simp: keys_good_def signer_held_def keys_document_def)
  qed (use assms(2) in \<open>auto dest!: on_clients_frame on_revocations_frame audit_record_frame\<close>)
qed

lemma run_signer_held:
  assumes "service_run lb sv t0 b ok s s'" and "signer_held kid priv t0 (id_keys s)"
    and "keys_good (lb_ed lb) (id_keys s)" and "wf_config (sv_config sv)"
    and "instant_min \<le> t0" "b \<le> instant_max" "b \<le> t0 + 2 * sint (sc_tokenTtl (sv_config sv))"
  shows "signer_held kid priv t0 (id_keys s') \<and> keys_good (lb_ed lb) (id_keys s')"
  using assms(1)
proof (induction rule: rtranclp_induct)
  case (step t t')
  then show ?case
    using step_signer_held [OF step(2) _ _ assms(4-7)] step_keys [OF step(2)] by blast
qed (use assms(2,3) in simp)

section \<open>A revocation stays as long as its entry\<close>

definition entry_in :: "jstring \<Rightarrow> int \<Rightarrow> (jstring, Revocation) linked_map \<Rightarrow> bool" where
  "entry_in j e m \<longleftrightarrow> (\<exists>v. lhm_get m j = Some v \<and> e \<le> sint (rv_expiresAt v))"

definition entry_held :: "jstring \<Rightarrow> int \<Rightarrow> RevocationService \<Rightarrow> bool" where
  "entry_held j e s \<longleftrightarrow> entry_in j e (rs_byJti s)
     \<and> (\<exists>d. rs_store s = Doc d \<and> entry_in j e (lhm_load rv_jti d))"

text \<open>No later revocation gives the token id an earlier expiry.\<close>

definition keeps_entry :: "jstring \<Rightarrow> int \<Rightarrow> jstring \<Rightarrow> long \<Rightarrow> bool" where
  "keeps_entry j e j' expiresAt \<longleftrightarrow> (j' = j \<longrightarrow> e \<le> sint expiresAt)"

lemma entry_in_prune:
  assumes "revocations_inv s" and "entry_in j e (rs_byJti s)" and "sint now \<le> e"
  shows "entry_in j e (rs_byJti (RevocationService_prune now s))"
proof -
  from assms(2) obtain v where "lhm_get (rs_byJti s) j = Some v" "e \<le> sint (rv_expiresAt v)"
    by (auto simp: entry_in_def)
  moreover from this assms(3) have "\<not> rv_expiresAt v <s now" by (simp add: word_sless_alt)
  ultimately show ?thesis using get_prune [OF assms(1), of now j] by (simp add: entry_in_def)
qed

lemma entry_held_prune:
  "revocations_inv s \<Longrightarrow> entry_held j e s \<Longrightarrow> sint now \<le> e \<Longrightarrow>
     entry_held j e (RevocationService_prune now s)"
  unfolding entry_held_def by (auto intro: entry_in_prune) (auto simp: RevocationService_prune_def)

lemma revoke_entry_in:
  assumes inv: "revocations_inv s" and "entry_in j e (rs_byJti s) \<or> jti = Some j"
    and rev: "RevocationService_revoke now pruned out jti ex why s = (r, s')"
    and ok: "\<And>j'. jti = Some j' \<Longrightarrow> keeps_entry j e j' ex" and nb: "\<not> is_blank j" and "sint pruned \<le> e"
  shows "entry_in j e (rs_byJti s')"
  using rev
proof (cases rule: revoke_cases)
  case blank
  with assms(2) nb show ?thesis by auto
next
  case (puts j' v)
  let ?p = "s\<lparr>rs_byJti := lhm_put j' v (rs_byJti s)\<rparr>"
  have p: "revocations_inv ?p" using inv by (simp add: revocations_inv_def lhm_keyed_put puts(3))
  have "entry_in j e (rs_byJti ?p)"
    using assms(2) ok [OF puts(1)] puts(1,3) revocations_inv_ok [OF inv]
    by (auto simp: entry_in_def keeps_entry_def lhm.get_put)
  from entry_in_prune [OF p this assms(6)] show ?thesis by (simp add: puts(4))
qed

lemma entry_held_save:
  assumes "entry_in j e (rs_byJti s')" and "revocations_inv s'"
    and "entry_held j e s \<or> out \<noteq> NotSaved"
    and "rs_store s' = snd (cell_save out (lhm_values (rs_byJti s')) (rs_store s))"
  shows "entry_held j e s'"
  using assms by (cases out) (auto simp: entry_held_def revocations_inv_def lhm_load_values)

text \<open>A revocation that returned is held; every later call keeps it held.\<close>

lemma revoked_held:
  assumes "revocations_inv s" and "\<not> is_blank j" and "sint pruned \<le> sint ex"
    and rev: "RevocationService_revoke now pruned out (Some j) ex why s = (Inr v, s')"
  shows "entry_held j (sint ex) s'"
proof -
  have mem: "entry_in j (sint ex) (rs_byJti s')"
    using assms by (intro revoke_entry_in [OF assms(1) _ rev]) (simp_all add: keeps_entry_def)
  from rev have "out = Saved \<and> rs_store s' = Doc (lhm_values (rs_byJti s'))"
    by (cases rule: revoke_cases) (auto split: if_splits)
  then show ?thesis
    using mem entry_held_save [OF mem revoke_inv [OF assms(1) rev], of s Saved] by auto
qed

lemma step_entry_held:
  assumes "service_step lb sv a b (keeps_entry j e) s s'" and "entry_held j e (id_revocations s)"
    and good: "revocations_good (id_revocations s)" and nb: "\<not> is_blank j" and "b \<le> e"
  shows "entry_held j e (id_revocations s')"
proof -
  have inv: "revocations_inv (id_revocations s)" using good by (simp add: revocations_good_def)
  show ?thesis
    using assms(1)
  proof (cases rule: service_call.cases)
    case (s_revoke now pruned out jti expiresAt reason r3)
    note op = on_revocations_frame [OF s_revoke(1), THEN conjunct2, THEN conjunct2, THEN conjunct2]
    have "entry_in j e (rs_byJti (id_revocations s))" using assms(2) by (simp add: entry_held_def)
    then have "entry_in j e (rs_byJti (id_revocations s'))"
      using s_revoke(2,3) nb assms(5) by (intro revoke_entry_in [OF inv _ op]) auto
    from entry_held_save [OF this revoke_inv [OF inv op], of "id_revocations s" out]
      revoke_store [OF op] assms(2) show ?thesis by auto
  next
    case (s_denylist now r4)
    then have "id_revocations s' = RevocationService_prune now (id_revocations s)"
      by (auto dest!: on_revocations_frame simp: RevocationService_activeDenylist_def Let_def)
    with s_denylist(2) assms(5) show ?thesis by (auto intro: entry_held_prune [OF inv assms(2)])
  next
    case (s_isRevoked now jti r5)
    then have "id_revocations s' = RevocationService_prune now (id_revocations s)"
      by (auto dest!: on_revocations_frame simp: RevocationService_isRevoked_def Let_def)
    with s_isRevoked(2) assms(5) show ?thesis by (auto intro: entry_held_prune [OF inv assms(2)])
  next
    case (s_restart su adminToken sv')
    from create_Inr(3) [OF s_restart(1)] have
      "RevocationService_new (rs_store (id_revocations s)) = Inr (id_revocations s')"
      by (simp add: disk_of_def)
    moreover from assms(2) obtain d where d: "rs_store (id_revocations s) = Doc d"
      "entry_in j e (lhm_load rv_jti d)" by (auto simp: entry_held_def)
    ultimately have "id_revocations s' = \<lparr>rs_byJti = lhm_load rv_jti d, rs_store = Doc d\<rparr>"
      by (simp add: RevocationService_new_def)
    with d(2) show ?thesis by (simp add: entry_held_def)
  qed (use assms(2) in \<open>auto dest!: on_clients_frame on_keys_frame audit_record_frame\<close>)
qed

lemma run_entry_held:
  assumes "service_run lb sv a b (keeps_entry j e) s s'" and "entry_held j e (id_revocations s)"
    and "revocations_good (id_revocations s)" and "\<not> is_blank j" and "b \<le> e"
  shows "entry_held j e (id_revocations s') \<and> revocations_good (id_revocations s')"
  using assms(1)
proof (induction rule: rtranclp_induct)
  case (step t t')
  then show ?case
    using step_entry_held [OF step(2) _ _ assms(4,5)] step_revocations [OF step(2)] by blast
qed (use assms(2,3) in simp)

section \<open>A request is a sequence of service calls\<close>

definition inputs_in :: "int \<Rightarrow> int \<Rightarrow> inputs \<Rightarrow> bool" where
  "inputs_in a b i \<longleftrightarrow> (\<forall>n. sint (in_now i n) \<in> {a..b}) \<and> length (in_seed i) = 32"

abbreviation any_revocation :: "jstring \<Rightarrow> long \<Rightarrow> bool" where
  "any_revocation j e \<equiv> True"

text \<open>The calls of a request, unless one throws something else than \<open>thr\<close>.\<close>

lemma call_settles:
  assumes "\<And>s r s'. m s = (r, s') \<Longrightarrow> may_throw thr r \<Longrightarrow> service_call thr (\<lambda>_. True) lb sv a b ok s s'"
  shows "settles (\<lambda>e. \<not> thr e) (service_call thr (\<lambda>_. True) lb sv a b ok)\<^sup>*\<^sup>* m"
proof (rule settlesI)
  fix s r s' assume "m s = (r, s')"
  with assms [OF this] show "(service_call thr (\<lambda>_. True) lb sv a b ok)\<^sup>*\<^sup>* s s' \<or> (\<exists>e. r = Inl e \<and> \<not> thr e)"
    unfolding may_throw_def by blast
qed

lemma endpoint_calls:
  assumes "inputs_in a b i" and "e \<noteq> ERotateKeys"
  shows "settles (\<lambda>e. \<not> thr e) (service_call thr (\<lambda>_. True) lb sv a b any_revocation)\<^sup>*\<^sup>* (run_endpoint lb sv i e ctx)"
proof -
  have R: "preorder_rel (service_call thr (\<lambda>_. True) lb sv a b any_revocation)\<^sup>*\<^sup>*"
    by (auto simp: preorder_rel_def intro: rtranclp_trans)
  have now: "sint (in_now i n) \<in> {a..b}" for n using assms(1) by (simp add: inputs_in_def)
  show ?thesis
    by (rule endpoint_settles [OF R]; (rule call_settles)?)
       (auto intro: s_register s_setAuthorization s_audit s_remove s_jwkSet [OF _ now] s_revoke [OF _ now]
         s_denylist [unfolded Let_def, OF _ now] dest: handler_toAuthorization_wf simp: assms(2))
qed

lemma rotate_calls:
  assumes "inputs_in a b i" and fresh: "newKid (in_bytes i 0) \<notin> kr_kid ` set (sk_keys (id_keys s))"
    and run: "run_endpoint lb sv i ERotateKeys ctx s = (r, s')"
  shows "(service_call thr (\<lambda>_. True) lb sv a b any_revocation)\<^sup>*\<^sup>* s s' \<or> (\<exists>e. r = Inl e \<and> \<not> thr e)"
proof -
  let ?rotate = "SigningKeyService_rotate (lb_ed lb) (retiredKeyRetention (sv_config sv))
    (in_now i 0) (in_seed i) (in_bytes i 0) (in_now i 1) (in_now i 2) (in_save i 0)"
  let ?calls = "(service_call thr (\<lambda>_. True) lb sv a b any_revocation)\<^sup>*\<^sup>*"
  have now: "sint (in_now i n) \<in> {a..b}" "length (in_seed i) = 32" for n
    using assms(1) by (simp_all add: inputs_in_def)
  obtain kid s1 where rot: "on_keys ?rotate s = (kid, s1)" by (rule prod.exhaust)
  have first: "may_throw thr kid \<Longrightarrow> ?calls s s1"
    by (rule r_into_rtranclp, rule s_rotate [OF rot now(1) now(1) now(2) fresh])
  have second: "may_throw thr x \<Longrightarrow> ?calls s1 s'" if "audit_record t out ev cid det s1 = (x, s')" for t out ev cid det x
    by (rule r_into_rtranclp, rule s_audit [OF that])
  from run rot consider "s' = s" | e where "kid = Inl e" "r = Inl e" "s' = s1"
    | t out ev cid det e where "\<exists>x. kid = Inr x" "audit_record t out ev cid det s1 = (Inl e, s')" "r = Inl e"
    | t out ev cid det where "\<exists>x. kid = Inr x" "audit_record t out ev cid det s1 = (Inr (), s')"
    by (auto simp: handler_rotateKeys_def st_then_def st_lift_def simp del: One_nat_def
        split: sum.splits prod.splits if_splits)
  then show ?thesis
  proof cases
    case 2
    with first show ?thesis by (auto simp: may_throw_def)
  next
    case 3
    with first second [OF 3(2)] show ?thesis by (auto simp: may_throw_def intro: rtranclp_trans)
  next
    case 4
    with first second [OF 4(2)] show ?thesis by (auto simp: may_throw_def intro: rtranclp_trans)
  qed simp
qed

lemma handle_calls:
  assumes "inputs_in a b i" and "newKid (in_bytes i 0) \<notin> kr_kid ` set (sk_keys (id_keys s))"
    and "Idp_handle lb sv i req s = (r, s')" and "\<And>st er de. thr (ApiException st er de)"
  shows "(service_call thr (\<lambda>_. True) lb sv a b any_revocation)\<^sup>*\<^sup>* s s'
    \<or> (\<exists>e. \<not> thr e \<and> r = errorResponse (lb_write lb) 500 (js ''internal_error'') (js ''an unexpected error occurred''))"
  using assms(3)
proof (cases rule: Idp_handle_cases)
  case (endpoint route params res)
  have "(service_call thr (\<lambda>_. True) lb sv a b any_revocation)\<^sup>*\<^sup>* s s' \<or> (\<exists>e. res = Inl e \<and> \<not> thr e)"
  proof (cases "ro_handler route = ERotateKeys")
    case True
    with rotate_calls [OF assms(1,2)] endpoint(4) show ?thesis by simp
  next
    case False
    show ?thesis by (rule settlesD [OF endpoint_calls [OF assms(1) False] endpoint(4)])
  qed
  with endpoint(6) assms(4) show ?thesis by (auto split: exn.splits)
qed simp

lemma handle_run:
  assumes "inputs_in a b i" and "newKid (in_bytes i 0) \<notin> kr_kid ` set (sk_keys (id_keys s))"
    and "Idp_handle lb sv i req s = (r, s')"
  shows "service_run lb sv a b any_revocation s s'"
  using handle_calls [OF assms, of "\<lambda>_. True"] by blast

lemma handle_saving_run:
  assumes "inputs_in a b i" and "newKid (in_bytes i 0) \<notin> kr_kid ` set (sk_keys (id_keys s))"
    and "Idp_handle lb sv i req s = (Inr resp, s')" and "hr_status resp \<noteq> 500"
  shows "saving_run lb sv a b any_revocation s s'"
  using handle_calls [OF assms(1-3), of "\<lambda>e. e \<noteq> save_error"] assms(4)
  by (auto simp: save_error_def dest: errorResponse_status [OF sym])

end
