(* ===== verification/Concurrency.thy ===== *)
theory Concurrency
  imports Server ApiProps
begin

text \<open>
  Concurrent requests. \<open>server/IdpServer.java\<close> gives the HTTP server an executor that starts a
  virtual thread for each request, and only the methods of the services are synchronized: what
  other threads do can come between any two service calls of a handler, and a client may be
  removed between its authentication and the issuing of its token. A \<open>thread\<close> is what is
  left of a request: its answer, or the next service call with what follows it; there is one
  definition for each handler of \<open>ApiHandlers.java\<close> that calls a service, with the calls in the
  order of the source. \<open>pool_step\<close> lets any thread of a running server make its next call, a
  new request arrive, or the process restart. Each service has a lock of its own, over state
  and a file that no other service touches, so calls on different services that overlap in
  time have the effect of one after the other.
\<close>

section \<open>A request as the calls it makes\<close>

text \<open>
  \<open>Calling kid f\<close>: the next call is \<open>f\<close>, from the state when the thread gets the lock to the
  rest of the thread and the state after the call; \<open>kid\<close> is the key id it draws, if it does.
\<close>

datatype thread = Answered "exn + HttpResponse" | Calling "jstring option" "Idp \<Rightarrow> thread \<times> Idp"

text \<open>A service call, whose exception ends the handler; a computation outside the services; a call that only reads.\<close>

definition th_call :: "jstring option \<Rightarrow> (Idp \<Rightarrow> (exn + 'a) \<times> Idp) \<Rightarrow> ('a \<Rightarrow> thread) \<Rightarrow> thread" where
  "th_call kid call rest =
     Calling kid (\<lambda>s. let (r, s') = call s
                      in (case r of Inl e \<Rightarrow> Answered (Inl e) | Inr x \<Rightarrow> rest x, s'))"

definition th_lift :: "exn + 'a \<Rightarrow> ('a \<Rightarrow> thread) \<Rightarrow> thread" where
  "th_lift r rest = (case r of Inl e \<Rightarrow> Answered (Inl e) | Inr x \<Rightarrow> rest x)"

definition th_read :: "(Idp \<Rightarrow> exn + 'a) \<Rightarrow> ('a \<Rightarrow> thread) \<Rightarrow> thread" where
  "th_read call rest = th_call None (\<lambda>s. (call s, s)) rest"

text \<open>What is done with the answer in the end.\<close>

primrec th_answer :: "(exn + HttpResponse \<Rightarrow> exn + HttpResponse) \<Rightarrow> thread \<Rightarrow> thread" where
  "th_answer g (Answered r) = Answered (g r)"
| "th_answer g (Calling kid f) = Calling kid (map_prod (th_answer g) id \<circ> f)"

text \<open>
  The handlers. A token request authenticates, reads the current signing key and records the
  issuance in three calls.
\<close>

definition thread_token :: "libs \<Rightarrow> server \<Rightarrow> inputs \<Rightarrow> RequestContext \<Rightarrow> thread" where
  "thread_token lb sv i ctx =
     th_lift (formParams ctx) (\<lambda>form.
       if form (js ''grant_type'') \<noteq> Some (js ''client_credentials'') then
         Answered (Inl (ApiException 400 (js ''unsupported_grant_type'')
                   (js ''only the client_credentials grant is supported'')))
       else
         (let (clientId, secret) = token_credentials form ctx
          in if clientId = None \<or> secret = None then Answered (Inl invalidClient)
             else
               th_read (\<lambda>s. ClientService_authenticate (lb_argon2 lb) clientId secret (id_clients s))
                 (\<lambda>authenticated.
                   case authenticated of
                     None \<Rightarrow> Answered (Inl invalidClient)
                   | Some client \<Rightarrow>
                       th_read (\<lambda>s. TokenIssuer_issue (lb_ed lb) (lb_jackson lb) (sv_issuer sv)
                                  (in_now i 0) (in_bytes i 0) (id_keys s) client) (\<lambda>issued.
                       th_call None (audit_record (in_now i 1) (in_save i 0) (js ''token.issued'')
                                  (Some (cr_clientId client)) (Some (js ''jti='' @ it_jti issued)))
                         (\<lambda>_. Answered (HttpResponse_json (lb_write lb) 200 (token_json issued)))))))"

definition thread_jwks :: "libs \<Rightarrow> server \<Rightarrow> inputs \<Rightarrow> RequestContext \<Rightarrow> thread" where
  "thread_jwks lb sv i ctx =
     th_call None (on_keys (SigningKeyService_jwkSet (retiredKeyRetention (sv_config sv)) (in_now i 0)))
       (\<lambda>jwks. Answered (HttpResponse_json (lb_write lb) 200 (jwks_json jwks)))"

definition thread_registerClient :: "libs \<Rightarrow> server \<Rightarrow> inputs \<Rightarrow> RequestContext \<Rightarrow> thread" where
  "thread_registerClient lb sv i ctx =
     th_lift (handler_requireAdmin sv ctx) (\<lambda>_.
     th_lift (and_then (ctx_parse (lb_register lb) ctx) not_null) (\<lambda>request.
     th_lift (handler_toAuthorization (rr_authorization request)) (\<lambda>authorization.
     th_call None (on_clients (ClientService_register (lb_argon2 lb) (sc_argonSettings (sv_config sv))
                (in_bytes i 0) (in_bytes i 1) (in_bytes i 2) (in_now i 0) (in_save i 0)
                (rr_displayName request) (Some authorization))) (\<lambda>registration.
       (let r = rg_client registration
        in th_call None (audit_record (in_now i 1) (in_save i 1) (js ''client.registered'')
                      (Some (cr_clientId r)) None) (\<lambda>_.
           Answered (HttpResponse_json (lb_write lb) 201 (register_json
             \<lparr>re_clientId = cr_clientId r, re_secret = rg_secret registration,
              re_displayName = cr_displayName r,
              re_authorization = GrantsClaim_from (cr_authorization r),
              re_createdAt = cr_createdAt r\<rparr>))))))))"

definition thread_listClients :: "libs \<Rightarrow> server \<Rightarrow> RequestContext \<Rightarrow> thread" where
  "thread_listClients lb sv ctx =
     th_lift (handler_requireAdmin sv ctx) (\<lambda>_.
     th_read (\<lambda>s. Inr (ClientService_list (id_clients s))) (\<lambda>records.
       Answered (HttpResponse_json (lb_write lb) 200
         (JArray (map (\<lambda>r. view_json (ClientView_from r)) records)))))"

definition thread_deleteClient :: "libs \<Rightarrow> server \<Rightarrow> inputs \<Rightarrow> RequestContext \<Rightarrow> thread" where
  "thread_deleteClient lb sv i ctx =
     th_lift (handler_requireAdmin sv ctx) (\<lambda>_.
     th_call None (on_clients (ClientService_remove (in_save i 0) (ctx_id ctx))) (\<lambda>removed.
       if \<not> removed then Answered (Inl (notFound (js ''no such client: '' @ ctx_id ctx)))
       else th_call None (audit_record (in_now i 0) (in_save i 1) (js ''client.removed'')
                       (Some (ctx_id ctx)) None)
              (\<lambda>_. Answered (Inr HttpResponse_noContent))))"

definition thread_setGrants :: "libs \<Rightarrow> server \<Rightarrow> inputs \<Rightarrow> RequestContext \<Rightarrow> thread" where
  "thread_setGrants lb sv i ctx =
     th_lift (handler_requireAdmin sv ctx) (\<lambda>_.
     th_lift (ctx_parse (lb_grants lb) ctx) (\<lambda>grants.
     th_lift (handler_toAuthorization grants) (\<lambda>authorization.
     th_call None (on_clients (ClientService_setAuthorization (in_save i 0) (ctx_id ctx)
                            (Some authorization))) (\<lambda>updated.
       case updated of
         None \<Rightarrow> Answered (Inl (notFound (js ''no such client: '' @ ctx_id ctx)))
       | Some r \<Rightarrow>
           th_call None (audit_record (in_now i 0) (in_save i 1) (js ''client.grants_set'')
                      (Some (ctx_id ctx)) None)
             (\<lambda>_. Answered (HttpResponse_json (lb_write lb) 200 (view_json (ClientView_from r))))))))"

definition thread_rotateKeys :: "libs \<Rightarrow> server \<Rightarrow> inputs \<Rightarrow> RequestContext \<Rightarrow> thread" where
  "thread_rotateKeys lb sv i ctx =
     th_lift (handler_requireAdmin sv ctx) (\<lambda>_.
     th_call (Some (newKid (in_bytes i 0)))
       (on_keys (SigningKeyService_rotate (lb_ed lb) (retiredKeyRetention (sv_config sv))
                (in_now i 0) (in_seed i) (in_bytes i 0) (in_now i 1) (in_now i 2) (in_save i 0)))
       (\<lambda>newKid.
     th_call None (audit_record (in_now i 3) (in_save i 1) (js ''key.rotated'') None
                (Some (js ''activeKid='' @ (case newKid of None \<Rightarrow> js ''null'' | Some k \<Rightarrow> k)))) (\<lambda>_.
     th_lift (not_null newKid) (\<lambda>kid.
       Answered (HttpResponse_json (lb_write lb) 200 (JObject [(js ''activeKid'', JString kid)]))))))"

definition thread_revoke :: "libs \<Rightarrow> server \<Rightarrow> inputs \<Rightarrow> RequestContext \<Rightarrow> thread" where
  "thread_revoke lb sv i ctx =
     th_lift (handler_requireAdmin sv ctx) (\<lambda>_.
     th_lift (and_then (ctx_parse (lb_revocation lb) ctx) not_null) (\<lambda>request.
       if (case rx_jti request of None \<Rightarrow> True | Some j \<Rightarrow> is_blank j) then
         Answered (Inl (badRequest (js ''jti is required'')))
       else
         (let expiresAt = (case rx_expiresAt request of
                             Some e \<Rightarrow> e
                           | None \<Rightarrow> in_now i 0 + sc_tokenTtl (sv_config sv))
          in th_call None (on_revocations (RevocationService_revoke (in_now i 1) (in_now i 2) (in_save i 0)
                        (rx_jti request) expiresAt (rx_reason request))) (\<lambda>revocation.
             th_call None (audit_record (in_now i 3) (in_save i 1) (js ''token.revoked'') None
                        (Some (js ''jti='' @ rv_jti revocation)))
               (\<lambda>_. Answered (HttpResponse_json (lb_write lb) 201 (revocation_json revocation)))))))"

definition thread_listRevocations :: "libs \<Rightarrow> server \<Rightarrow> inputs \<Rightarrow> RequestContext \<Rightarrow> thread" where
  "thread_listRevocations lb sv i ctx =
     th_lift (handler_requireAdmin sv ctx) (\<lambda>_.
     th_call None (on_revocations (\<lambda>v. (let (es, v') = RevocationService_activeDenylist (in_now i 0) v
                                         in (Inr es, v')))) (\<lambda>es.
       Answered (HttpResponse_json (lb_write lb) 200 (JArray (map revocation_json es)))))"

definition thread_auditLog :: "libs \<Rightarrow> server \<Rightarrow> RequestContext \<Rightarrow> thread" where
  "thread_auditLog lb sv ctx =
     th_lift (handler_requireAdmin sv ctx) (\<lambda>_.
     th_read (\<lambda>s. Inr (AuditService_list (id_audit s))) (\<lambda>es.
       Answered (HttpResponse_json (lb_write lb) 200 (JArray (map audit_json es)))))"

definition thread_asset :: "server \<Rightarrow> jstring \<Rightarrow> jstring \<Rightarrow> thread" where
  "thread_asset sv file contentType =
     th_lift (StaticResource_bytes (sv_resources sv) (js ''/swagger-ui/'' @ file)) (\<lambda>b.
       Answered (Inr (HttpResponse_raw 200 contentType b)))"

fun thread_endpoint :: "libs \<Rightarrow> server \<Rightarrow> inputs \<Rightarrow> Endpoint \<Rightarrow> RequestContext \<Rightarrow> thread" where
  "thread_endpoint lb sv i EToken ctx = thread_token lb sv i ctx"
| "thread_endpoint lb sv i EJwks ctx = thread_jwks lb sv i ctx"
| "thread_endpoint lb sv i EDiscovery ctx =
     Answered (HttpResponse_json (lb_write lb) 200 (discovery_json (sv_config sv)))"
| "thread_endpoint lb sv i EHealth ctx =
     Answered (HttpResponse_json (lb_write lb) 200 (JObject [(js ''status'', JString (js ''ok''))]))"
| "thread_endpoint lb sv i EOpenApiYaml ctx =
     Answered (Inr (HttpResponse_raw 200 (js ''application/yaml'') (od_yaml (sv_openApi sv))))"
| "thread_endpoint lb sv i EOpenApiJson ctx =
     Answered (Inr (HttpResponse_raw 200 (js ''application/json'') (od_json (sv_openApi sv))))"
| "thread_endpoint lb sv i EDocs ctx =
     Answered (Inr (HttpResponse_text 200 (js ''text/html; charset=utf-8'') SwaggerUiPage_HTML))"
| "thread_endpoint lb sv i EAssetCss ctx = thread_asset sv (js ''swagger-ui.css'') (js ''text/css'')"
| "thread_endpoint lb sv i EAssetJs ctx =
     thread_asset sv (js ''swagger-ui-bundle.js'') (js ''application/javascript'')"
| "thread_endpoint lb sv i ERegisterClient ctx = thread_registerClient lb sv i ctx"
| "thread_endpoint lb sv i EListClients ctx = thread_listClients lb sv ctx"
| "thread_endpoint lb sv i EDeleteClient ctx = thread_deleteClient lb sv i ctx"
| "thread_endpoint lb sv i ESetGrants ctx = thread_setGrants lb sv i ctx"
| "thread_endpoint lb sv i ERotateKeys ctx = thread_rotateKeys lb sv i ctx"
| "thread_endpoint lb sv i ERevoke ctx = thread_revoke lb sv i ctx"
| "thread_endpoint lb sv i EListRevocations ctx = thread_listRevocations lb sv i ctx"
| "thread_endpoint lb sv i EAuditLog ctx = thread_auditLog lb sv ctx"

text \<open>The response that \<open>handle\<close> makes of what the handler returned or threw.\<close>

definition Router_respond :: "json_writer \<Rightarrow> exn + HttpResponse \<Rightarrow> exn + HttpResponse" where
  "Router_respond w r =
     (case r of
        Inr response \<Rightarrow> Inr response
      | Inl e \<Rightarrow>
          (case e of
             ApiException status err description \<Rightarrow> errorResponse w status err description
           | _ \<Rightarrow> errorResponse w 500 (js ''internal_error'') (js ''an unexpected error occurred'')))"

text \<open>The thread of a request.\<close>

definition Idp_thread :: "libs \<Rightarrow> server \<Rightarrow> inputs \<Rightarrow> Request \<Rightarrow> thread" where
  "Idp_thread lb sv i req =
     th_answer (Router_respond (lb_write lb))
       (case Router_dispatch ApiHandlers_router (rq_method req) (rq_path req) of
          Inl e \<Rightarrow> Answered (Inl e)
        | Inr (h, params) \<Rightarrow>
            thread_endpoint lb sv i h \<lparr>rc_request = req, rc_pathParams = params\<rparr>)"

section \<open>A thread that runs alone\<close>

text \<open>Without calls of other threads in between, a thread is the handler of \<open>Handlers\<close>.\<close>

primrec run_thread :: "thread \<Rightarrow> Idp \<Rightarrow> (exn + HttpResponse) \<times> Idp" where
  "run_thread (Answered r) = st_lift r"
| "run_thread (Calling kid f) = (\<lambda>s. let (run, s') = (map_prod run_thread id \<circ> f) s in run s')"

lemma run_call: "run_thread (th_call kid m c) = st_then m (\<lambda>x. run_thread (c x))"
  by (rule ext) (simp add: th_call_def st_then_def st_lift_def split: prod.split sum.split)

lemma run_lift: "run_thread (th_lift r c) = st_then (st_lift r) (\<lambda>x. run_thread (c x))"
  by (rule ext) (simp add: th_lift_def st_lift_def [of "Inl _"] split: sum.split)

lemma run_read: "run_thread (th_read f c) = (\<lambda>s. st_then (st_lift (f s)) (\<lambda>x. run_thread (c x)) s)"
  by (rule ext) (simp add: th_read_def run_call st_then_def st_lift_def)

lemma run_answer: "run_thread (th_answer g t) s = (let (r, s') = run_thread t s in (g r, s'))"
proof (induction t arbitrary: s)
  case (Calling kid f)
  obtain t s' where f: "f s = (t, s')" by (rule prod.exhaust)
  then have "(t, s') \<in> range f" by (metis rangeI)
  with Calling [of "f s" t s'] f show ?case by simp
qed (simp add: st_lift_def)

named_theorems thread_defs

lemmas thread_definitions [thread_defs] =
  thread_token_def thread_jwks_def thread_asset_def thread_registerClient_def thread_listClients_def
  thread_deleteClient_def thread_setGrants_def thread_rotateKeys_def thread_revoke_def
  thread_listRevocations_def thread_auditLog_def

lemma st_lift_and_then: "st_then (st_lift r) (\<lambda>x. st_lift (f x)) = st_lift (and_then r f)"
  by (rule ext) (cases r; simp add: st_lift_def)

lemma st_read_fun: "st_read g f = (\<lambda>s. f (g s) s)"
  by (rule ext) (simp add: st_read_def)

lemma run_endpoint_thread: "run_thread (thread_endpoint lb sv i e ctx) = run_endpoint lb sv i e ctx"
  by (cases e)
     (simp_all add: thread_defs handler_defs run_call run_lift run_read st_lift_and_then st_read_fun
        if_distrib [of run_thread] option.case_distrib [of run_thread] prod.case_distrib [of run_thread]
        Let_def cong: option.case_cong if_cong)

lemma run_Idp_thread: "run_thread (Idp_thread lb sv i req) s = Idp_handle lb sv i req s"
  by (simp add: Idp_thread_def Idp_handle_def Router_handle_def run_answer run_endpoint_thread
      Router_respond_def Let_def st_lift_def split: sum.split prod.split)


section \<open>The threads of a running server\<close>

text \<open>The 64 random bits of a new key id do not hit an id in use.\<close>

definition draws_fresh :: "jstring option \<Rightarrow> Idp \<Rightarrow> bool" where
  "draws_fresh kid s \<longleftrightarrow> (\<forall>k. kid = Some k \<longrightarrow> k \<notin> kr_kid ` set (sk_keys (id_keys s)))"

text \<open>
  The server, the threads of the requests since the beginning and the state. A restart, from
  the documents on disk and with the same configuration, keeps only the requests that have
  been answered.
\<close>

primrec has_answered :: "thread \<Rightarrow> bool" where
  "has_answered (Answered r) = True"
| "has_answered (Calling kid f) = False"

record pool =
  pl_server :: server
  pl_threads :: "thread list"
  pl_state :: Idp

inductive pool_step :: "libs \<Rightarrow> int \<Rightarrow> int \<Rightarrow> pool \<Rightarrow> pool \<Rightarrow> bool" for lb a b where
  p_arrive: "inputs_in a b i \<Longrightarrow>
    pool_step lb a b p (p\<lparr>pl_threads := pl_threads p @ [Idp_thread lb (pl_server p) i req]\<rparr>)"
| p_call: "n < length (pl_threads p) \<Longrightarrow> pl_threads p ! n = Calling kid f \<Longrightarrow>
    draws_fresh kid (pl_state p) \<Longrightarrow> f (pl_state p) = (t, s) \<Longrightarrow>
    pool_step lb a b p (p\<lparr>pl_threads := (pl_threads p)[n := t], pl_state := s\<rparr>)"
| p_restart: "fst (IdpServer_create lb su (sv_config (pl_server p)) adminToken (disk_of (pl_state p)))
      = Inr (sv, s) \<Longrightarrow> length (su_seed su) = 32 \<Longrightarrow>
    pool_step lb a b p \<lparr>pl_server = sv, pl_threads = filter has_answered (pl_threads p), pl_state = s\<rparr>"

abbreviation pool_run :: "libs \<Rightarrow> int \<Rightarrow> int \<Rightarrow> pool \<Rightarrow> pool \<Rightarrow> bool" where
  "pool_run lb a b \<equiv> (pool_step lb a b)\<^sup>*\<^sup>*"

section \<open>Every call of a thread is a service call\<close>

text \<open>
  \<open>thread_calls step bad t\<close>: whatever the states are that the calls of \<open>t\<close> meet, each of them
  changes nothing or is a \<open>step\<close>, or ends the thread with an answer that is \<open>bad\<close>.
\<close>

definition ends_bad :: "(exn + HttpResponse \<Rightarrow> bool) \<Rightarrow> thread \<Rightarrow> bool" where
  "ends_bad bad t \<longleftrightarrow> (\<exists>r. t = Answered r \<and> bad r)"

inductive thread_calls :: "(Idp \<Rightarrow> Idp \<Rightarrow> bool) \<Rightarrow> (exn + HttpResponse \<Rightarrow> bool) \<Rightarrow> thread \<Rightarrow> bool"
  for step bad
where
  tc_answered: "thread_calls step bad (Answered r)"
| tc_calling: "(\<And>s t s'. draws_fresh kid s \<Longrightarrow> f s = (t, s') \<Longrightarrow> thread_calls step bad t) \<Longrightarrow>
    (\<And>s t s'. draws_fresh kid s \<Longrightarrow> f s = (t, s') \<Longrightarrow> s' = s \<or> step s s' \<or> ends_bad bad t) \<Longrightarrow>
    thread_calls step bad (Calling kid f)"

inductive_cases tc_callingE: "thread_calls step bad (Calling kid f)"

lemma thread_calls_answer:
  assumes "thread_calls step bad t" and "\<And>r. bad r \<Longrightarrow> bad' (g r)"
  shows "thread_calls step bad' (th_answer g t)"
  using assms(1)
proof (induction rule: thread_calls.induct)
  case (tc_calling kid f)
  show ?case
    unfolding th_answer.simps
  proof (rule thread_calls.tc_calling)
    fix s t' s'
    assume fresh: "draws_fresh kid s" and "(map_prod (th_answer g) id \<circ> f) s = (t', s')"
    then obtain t where t: "f s = (t, s')" "t' = th_answer g t" by (cases "f s") auto
    show "thread_calls step bad' t'" using tc_calling.IH [OF fresh t(1)] t(2) by simp
    show "s' = s \<or> step s s' \<or> ends_bad bad' t'"
      using tc_calling.hyps(2) [OF fresh t(1)] t(2) assms(2) by (auto simp: ends_bad_def)
  qed
qed (simp add: thread_calls.tc_answered)

text \<open>A call throws what \<open>thr\<close> allows, or the handler ends with its exception.\<close>

abbreviation throws_beyond :: "(exn \<Rightarrow> bool) \<Rightarrow> exn + HttpResponse \<Rightarrow> bool" where
  "throws_beyond thr r \<equiv> (\<exists>e. r = Inl e \<and> \<not> thr e)"

lemma tc_call:
  assumes "\<And>s r s'. draws_fresh kid s \<Longrightarrow> m s = (r, s') \<Longrightarrow> may_throw thr r \<Longrightarrow> s' = s \<or> step s s'"
    and "\<And>x. thread_calls step (throws_beyond thr) (c x)"
  shows "thread_calls step (throws_beyond thr) (th_call kid m c)"
  unfolding th_call_def
proof (rule tc_calling)
  fix s t s'
  assume fresh: "draws_fresh kid s"
    and "(let (r, s') = m s in (case r of Inl e \<Rightarrow> Answered (Inl e) | Inr x \<Rightarrow> c x, s')) = (t, s')"
  then obtain r where r: "m s = (r, s')" "t = (case r of Inl e \<Rightarrow> Answered (Inl e) | Inr x \<Rightarrow> c x)"
    by (auto simp: Let_def split: prod.splits)
  from r(2) show "thread_calls step (throws_beyond thr) t"
    by (auto intro: tc_answered assms(2) split: sum.splits)
  show "s' = s \<or> step s s' \<or> ends_bad (throws_beyond thr) t"
    using assms(1) [OF fresh r(1)] r(2) by (cases r) (auto simp: may_throw_def ends_bad_def)
qed

lemma tc_read:
  "(\<And>x. thread_calls step (throws_beyond thr) (c x)) \<Longrightarrow> thread_calls step (throws_beyond thr) (th_read f c)"
  unfolding th_read_def by (rule tc_call) auto

lemma tc_lift:
  "(\<And>x. r = Inr x \<Longrightarrow> thread_calls step bad (c x)) \<Longrightarrow> thread_calls step bad (th_lift r c)"
  by (auto simp: th_lift_def intro: tc_answered split: sum.split)

lemma tc_branches:
  "(P \<Longrightarrow> thread_calls step bad t) \<Longrightarrow> (\<not> P \<Longrightarrow> thread_calls step bad t') \<Longrightarrow>
     thread_calls step bad (if P then t else t')"
  "(x = None \<Longrightarrow> thread_calls step bad t) \<Longrightarrow> (\<And>y. x = Some y \<Longrightarrow> thread_calls step bad (u y)) \<Longrightarrow>
     thread_calls step bad (case x of None \<Rightarrow> t | Some y \<Rightarrow> u y)"
  "(\<And>a b. p = (a, b) \<Longrightarrow> thread_calls step bad (v a b)) \<Longrightarrow>
     thread_calls step bad (case p of (a, b) \<Rightarrow> v a b)"
  by (simp, cases x, simp_all, cases p, simp)

lemmas tc_intros = tc_answered tc_lift tc_branches tc_read tc_call

lemma endpoint_thread_calls:
  fixes thr lb sv i a b
  assumes "inputs_in a b i"
  defines "step \<equiv> service_call thr (\<lambda>_. True) lb sv a b any_revocation"
  shows "thread_calls step (throws_beyond thr) (thread_endpoint lb sv i e ctx)"
proof -
  have now: "sint (in_now i n) \<in> {a..b}" "length (in_seed i) = 32" for n
    using assms(1) by (simp_all add: inputs_in_def)
  note calls = s_register s_setAuthorization s_audit s_remove s_jwkSet [OF _ now(1)] s_revoke [OF _ now(1)]
     s_denylist [unfolded Let_def, OF _ now(1)] s_rotate [OF _ now(1) now(1) now(2)]
  show ?thesis
    by (cases e)
       (auto simp: thread_defs Let_def step_def draws_fresh_def simp del: One_nat_def split: prod.split
          intro!: tc_intros disjI2 dest: handler_toAuthorization_wf intro: calls)
qed


text \<open>An answer that the client sees as a failure.\<close>

definition not_ok :: "exn + HttpResponse \<Rightarrow> bool" where
  "not_ok r \<longleftrightarrow> (\<forall>resp. r = Inr resp \<longrightarrow> hr_status resp = 500)"

lemma Idp_thread_calls:
  assumes "inputs_in a b i" and "\<And>st er de. thr (ApiException st er de)"
    and "\<And>e r. \<not> thr e \<Longrightarrow> not_ok r \<Longrightarrow> bad r"
  shows "thread_calls (service_call thr (\<lambda>_. True) lb sv a b any_revocation) bad (Idp_thread lb sv i req)"
  unfolding Idp_thread_def
proof (rule thread_calls_answer)
  show "thread_calls (service_call thr (\<lambda>_. True) lb sv a b any_revocation) (throws_beyond thr)
     (case Router_dispatch ApiHandlers_router (rq_method req) (rq_path req) of
          Inl e \<Rightarrow> Answered (Inl e)
        | Inr (h, params) \<Rightarrow>
            thread_endpoint lb sv i h \<lparr>rc_request = req, rc_pathParams = params\<rparr>)"
    by (auto intro: tc_answered endpoint_thread_calls [OF assms(1)] split: sum.split)
  fix r assume "throws_beyond thr r"
  then obtain e where e: "r = Inl e" "\<not> thr e" by blast
  then have "Router_respond (lb_write lb) r =
      errorResponse (lb_write lb) 500 (js ''internal_error'') (js ''an unexpected error occurred'')"
    using assms(2) by (cases e) (auto simp: Router_respond_def)
  then show "bad (Router_respond (lb_write lb) r)"
    using assms(3) [OF e(2)] by (auto simp: not_ok_def dest: errorResponse_status)
qed

lemma service_call_config:
  assumes "service_call thr ids lb sv a b ok s s'" and "sv_config sv = sv_config sv2"
  shows "service_call thr ids lb sv2 a b ok s s'"
  using assms(1)
  by (induction rule: service_call.induct)
     (unfold assms(2), (rule service_call.intros; (assumption | blast))+)

text \<open>If no thread ended badly, the state is the result of a run of steps.\<close>

definition pool_ok :: "(Idp \<Rightarrow> Idp \<Rightarrow> bool) \<Rightarrow> (exn + HttpResponse \<Rightarrow> bool) \<Rightarrow> Idp \<Rightarrow> pool \<Rightarrow> bool" where
  "pool_ok step bad s p \<longleftrightarrow> (\<forall>t \<in> set (pl_threads p). thread_calls step bad t)
     \<and> ((\<forall>t \<in> set (pl_threads p). \<not> ends_bad bad t) \<longrightarrow> step\<^sup>*\<^sup>* s (pl_state p))"

lemma pool_step_ok:
  fixes thr lb sv a b
  defines "step \<equiv> service_call thr (\<lambda>_. True) lb sv a b any_revocation"
  assumes "pool_step lb a b p q" and "pool_ok step bad s p" and "sv_config (pl_server p) = sv_config sv"
    and "\<And>st er de. thr (ApiException st er de)" and "\<And>e r. \<not> thr e \<Longrightarrow> not_ok r \<Longrightarrow> bad r"
  shows "pool_ok step bad s q \<and> sv_config (pl_server q) = sv_config sv"
  using assms(2)
proof (cases rule: pool_step.cases)
  case (p_arrive i req)
  have "service_call thr (\<lambda>_. True) lb (pl_server p) a b any_revocation = step"
    unfolding step_def
    using service_call_config [OF _ assms(4)] service_call_config [OF _ assms(4) [symmetric]]
    by (intro ext iffI)
  moreover have "thread_calls (service_call thr (\<lambda>_. True) lb (pl_server p) a b any_revocation) bad
      (Idp_thread lb (pl_server p) i req)"
    by (rule Idp_thread_calls [OF p_arrive(2)]; rule assms(5,6))
  ultimately have "thread_calls step bad (Idp_thread lb (pl_server p) i req)" by simp
  then show ?thesis using assms(3,4) p_arrive(1) by (simp add: pool_ok_def)
next
  case (p_call n kid f t u)
  from nth_mem [OF p_call(2)] p_call(3) have "Calling kid f \<in> set (pl_threads p)" by simp
  with assms(3) have "thread_calls step bad (Calling kid f)" by (simp add: pool_ok_def)
  then have t: "thread_calls step bad t"
      "u = pl_state p \<or> step (pl_state p) u \<or> ends_bad bad t"
    by (rule tc_callingE; use p_call(4,5) in blast)+
  have run: "step\<^sup>*\<^sup>* s u" if good: "\<forall>t \<in> set ((pl_threads p)[n := t]). \<not> ends_bad bad t"
  proof -
    have "\<not> ends_bad bad x" if "x \<in> set (pl_threads p)" for x
    proof -
      from that obtain m where m: "m < length (pl_threads p)" "x = pl_threads p ! m" by (auto simp: in_set_conv_nth)
      show ?thesis
      proof (cases "m = n")
        case False
        then have "x \<in> set ((pl_threads p)[n := t])" using m by (metis length_list_update nth_list_update_neq nth_mem)
        with good show ?thesis by blast
      qed (use m p_call(3) in \<open>simp add: ends_bad_def\<close>)
    qed
    then have "step\<^sup>*\<^sup>* s (pl_state p)" using assms(3) by (simp add: pool_ok_def)
    moreover have "\<not> ends_bad bad t" using good p_call(2) by (simp add: set_update_memI)
    ultimately show ?thesis using t(2) by (auto intro: rtranclp.rtrancl_into_rtrancl)
  qed
  have "thread_calls step bad x" if "x \<in> set ((pl_threads p)[n := t])" for x
    using that set_update_subset_insert [of "pl_threads p" n t] t(1) assms(3) by (auto simp: pool_ok_def)
  with run assms(4) p_call(1) show ?thesis by (simp add: pool_ok_def)
next
  case (p_restart su adminToken sv' u)
  have "step (pl_state p) u"
    unfolding step_def by (rule s_restart [where sv' = sv']) (use p_restart(2,3) assms(4) in simp_all)
  moreover have "ends_bad bad t \<Longrightarrow> has_answered t" for t by (auto simp: ends_bad_def)
  moreover have "sv_config sv' = sv_config (pl_server p)"
    by (rule create_Inr(5) [OF p_restart(2)])
  ultimately show ?thesis using assms(3,4) p_restart(1)
    by (auto simp: pool_ok_def intro: rtranclp.rtrancl_into_rtrancl)
qed


lemma pool_run_ok:
  fixes thr lb sv a b
  defines "step \<equiv> service_call thr (\<lambda>_. True) lb sv a b any_revocation"
  assumes "pool_run lb a b \<lparr>pl_server = sv, pl_threads = [], pl_state = s\<rparr> p"
    and "\<And>st er de. thr (ApiException st er de)" and "\<And>e r. \<not> thr e \<Longrightarrow> not_ok r \<Longrightarrow> bad r"
  shows "pool_ok step bad s p"
proof -
  have "pool_ok step bad s p \<and> sv_config (pl_server p) = sv_config sv"
    using assms(2)
  proof (induction rule: rtranclp_induct)
    case (step q r)
    show ?case
      unfolding step_def
      by (rule pool_step_ok [OF step(2)]) (use step(3) assms(3,4) in \<open>simp_all add: step_def\<close>)
  qed (simp add: pool_ok_def)
  then show ?thesis ..
qed

section \<open>Properties\<close>

text \<open>
  C12. Requests in parallel: however the threads of concurrent requests interleave, with
  requests arriving at any time and restarts in between, the state that is reached is the
  result of a sequence of service calls and restarts; as long as every request that has ended
  was answered, and not with 500, of a sequence in which no save failed. So what every such
  sequence keeps is kept by the running server. And the threads are the handlers: one that is
  left to run alone, in any state, does to it and answers what \<open>Idp_handle\<close> says. The clock
  readings lie between \<open>a\<close> and \<open>b\<close>, and a new key id is drawn that is not in use.
\<close>

theorem interleaving_is_service_run:
  assumes "pool_run lb a b \<lparr>pl_server = sv, pl_threads = [], pl_state = s\<rparr> p"
  shows "service_run lb sv a b any_revocation s (pl_state p)
     \<and> ((\<forall>r. Answered r \<in> set (pl_threads p) \<longrightarrow> (\<exists>resp. r = Inr resp \<and> hr_status resp \<noteq> 500)) \<longrightarrow>
          saving_run lb sv a b any_revocation s (pl_state p))
     \<and> run_thread (Idp_thread lb sv' i req) u = Idp_handle lb sv' i req u"
proof -
  have "pool_ok (service_call (\<lambda>_. True) (\<lambda>_. True) lb sv a b any_revocation) (\<lambda>_. False) s p"
    by (rule pool_run_ok [OF assms]) simp_all
  moreover have "pool_ok (service_call (\<lambda>e. e \<noteq> save_error) (\<lambda>_. True) lb sv a b any_revocation) not_ok s p"
    by (rule pool_run_ok [OF assms]) (simp_all add: save_error_def)
  ultimately show ?thesis
    by (auto simp: pool_ok_def ends_bad_def not_ok_def run_Idp_thread)
qed

text \<open>For the witness, a removal in two calls with a request for the key set in between.\<close>

lemma Idp_thread_found:
  "Router_dispatch ApiHandlers_router (rq_method req) (rq_path req) = Inr (h, params) \<Longrightarrow>
     Idp_thread lb sv i req = th_answer (Router_respond (lb_write lb))
       (thread_endpoint lb sv i h \<lparr>rc_request = req, rc_pathParams = params\<rparr>)"
  by (simp add: Idp_thread_def)

lemma demo_bearer: "handler_requireAdmin demo_server
    \<lparr>rc_request = demo_request m p (Some (js ''Bearer s3cret'')) body, rc_pathParams = ps\<rparr> = Inr ()"
  using demo_admin by (simp add: handler_requireAdmin_def requireAdmin_def ctx_header_def demo_request_def)

lemma removal_thread:
  "\<exists>f. Idp_thread demo_libs demo_server demo_inputs
     (demo_request ''DELETE'' ''/admin/clients/client_a'' (Some (js ''Bearer s3cret'')) []) = Calling None f
   \<and> (\<exists>g. fst (f demo_idp) = Calling None g \<and> (\<forall>s. has_answered (fst (g s))))"
proof -
  let ?del = "demo_request ''DELETE'' ''/admin/clients/client_a'' (Some (js ''Bearer s3cret'')) []"
  have seg: "Router_split (js ''/admin/clients/client_a'') = [js ''admin'', js ''clients'', js ''client_a'']"
    by code_simp
  have var: "is_variable (js ''{id}'')" "\<not> is_variable (js ''admin'')" "\<not> is_variable (js ''clients'')"
    "variable_name (js ''{id}'') = js ''id''"
    by code_simp+
  have "Router_dispatch ApiHandlers_router (rq_method ?del) (rq_path ?del) =
      Inr (EDeleteClient, [js ''id'' \<mapsto> js ''client_a''])"
    by (simp add: Router_dispatch_def ApiHandlers_router_def Router_route_def route_splits demo_request_def
        Router_match_def seg var)
  note th = Idp_thread_found [OF this]
  obtain s1 where rem: "on_clients (ClientService_remove Saved (js ''client_a'')) demo_idp = (Inr True, s1)"
    by (simp add: on_clients_def ClientService_remove_def ClientService_persist_def demo_idp_def
        demo_clients_def lhm_defs)
  have id: "ctx_id \<lparr>rc_request = ?del, rc_pathParams = [js ''id'' \<mapsto> js ''client_a'']\<rparr> = js ''client_a''"
    by (simp add: ctx_id_def)
  show ?thesis
    unfolding th
    by (simp add: thread_deleteClient_def th_lift_def th_call_def demo_bearer Let_def id rem)
       (auto split: prod.split sum.split)
qed

lemma key_set_thread:
  "\<exists>f. Idp_thread demo_libs demo_server demo_inputs (demo_request ''GET'' ''/.well-known/jwks.json'' None []) = Calling None f
   \<and> (\<forall>s. has_answered (fst (f s)))"
proof -
  let ?get = "demo_request ''GET'' ''/.well-known/jwks.json'' None []"
  have "Router_dispatch ApiHandlers_router (rq_method ?get) (rq_path ?get) = Inr (EJwks, \<lambda>_. None)"
    by (simp add: Router_dispatch_def ApiHandlers_router_def Router_route_def route_splits demo_request_def
        Router_match_def)
  note th = Idp_thread_found [OF this]
  show ?thesis
    unfolding th
    by (auto simp: thread_jwks_def th_call_def Let_def split: sum.split prod.split)
qed

theorem interleaving_is_service_run_witness:
  "\<exists>p. pool_run demo_libs 200 200 \<lparr>pl_server = demo_server, pl_threads = [], pl_state = demo_idp\<rparr> p
     \<and> length (pl_threads p) = 2 \<and> list_all has_answered (pl_threads p)
     \<and> service_run demo_libs demo_server 200 200 any_revocation demo_idp (pl_state p)"
proof -
  let ?del = "demo_request ''DELETE'' ''/admin/clients/client_a'' (Some (js ''Bearer s3cret'')) []"
  let ?get = "demo_request ''GET'' ''/.well-known/jwks.json'' None []"
  obtain f where f: "Idp_thread demo_libs demo_server demo_inputs ?del = Calling None f"
    "\<exists>g. fst (f demo_idp) = Calling None g \<and> (\<forall>s. has_answered (fst (g s)))"
    using removal_thread by blast
  obtain h where h: "Idp_thread demo_libs demo_server demo_inputs ?get = Calling None h"
    "\<forall>s. has_answered (fst (h s))"
    using key_set_thread by blast
  obtain g s1 where g: "f demo_idp = (Calling None g, s1)" "\<forall>s. has_answered (fst (g s))"
    using f(2) by (cases "f demo_idp") auto
  obtain t s2 where t: "h s1 = (t, s2)" by (rule prod.exhaust)
  obtain u s3 where u: "g s2 = (u, s3)" by (rule prod.exhaust)
  have inp: "inputs_in 200 200 demo_inputs" by (simp add: inputs_in_def) (simp add: demo_inputs_def)
  note arrive = p_arrive [OF inp, of demo_libs] and call = p_call [of _ _ None, simplified draws_fresh_def]
  let ?p = "\<lambda>ts s. \<lparr>pl_server = demo_server, pl_threads = ts, pl_state = s\<rparr>"
  have "pool_run demo_libs 200 200 (?p [] demo_idp) (?p [u, t] s3)"
  proof -
    have "pool_step demo_libs 200 200 (?p [] demo_idp) (?p [Calling None f] demo_idp)"
      using arrive [of "?p [] demo_idp" ?del] by (simp add: f(1))
    moreover have "pool_step demo_libs 200 200 (?p [Calling None f] demo_idp) (?p [Calling None f, Calling None h] demo_idp)"
      using arrive [of "?p [Calling None f] demo_idp" ?get] by (simp add: h(1))
    moreover have "pool_step demo_libs 200 200 (?p [Calling None f, Calling None h] demo_idp) (?p [Calling None g, Calling None h] s1)"
      using call [of 0 "?p [Calling None f, Calling None h] demo_idp" f] g(1) by simp
    moreover have "pool_step demo_libs 200 200 (?p [Calling None g, Calling None h] s1) (?p [Calling None g, t] s2)"
      using call [of 1 "?p [Calling None g, Calling None h] s1" h] t by simp
    moreover have "pool_step demo_libs 200 200 (?p [Calling None g, t] s2) (?p [u, t] s3)"
      using call [of 0 "?p [Calling None g, t] s2" g] u by simp
    ultimately show ?thesis by (meson converse_rtranclp_into_rtranclp rtranclp.rtrancl_refl)
  qed
  moreover have "has_answered u" "has_answered t" using g(2) h(2) t u by (metis fst_conv)+
  ultimately show ?thesis
    using interleaving_is_service_run [of demo_libs 200 200 demo_server demo_idp "?p [u, t] s3"]
    by (intro exI [of _ "?p [u, t] s3"]) simp
qed

end
