(* ===== verification/Durability.thy ===== *)
theory Durability
  imports Server ApiProps
begin

text \<open>
  What survives a restart. Every service rewrites its whole document after a change, but it
  also forgets expired revocations and keys retired for longer than the retention without
  writing, so memory and file are compared as of a time \<open>b\<close> that no clock reading has passed:
  \<open>saved_as_of\<close>. Each call of a service keeps that unless it throws because of a failed save.
  A client whose removal returned is in neither, and stays so.
\<close>

section \<open>Memory and files agree\<close>

fun file_list :: "'a list cell \<Rightarrow> 'a list option" where
  "file_list Absent = Some []"
| "file_list Unreadable = None"
| "file_list (Doc xs) = Some xs"

definition registry_saved :: "ClientService \<Rightarrow> bool" where
  "registry_saved s \<longleftrightarrow> file_list (cs_store s) = Some (lhm_values (cs_clients s))"

definition audit_saved :: "AuditService \<Rightarrow> bool" where
  "audit_saved s \<longleftrightarrow> file_list (au_store s) = Some (au_entries s)"

definition live_entries :: "long \<Rightarrow> Revocation list \<Rightarrow> Revocation list" where
  "live_entries b = filter (\<lambda>v. \<not> rv_expiresAt v <s b)"

definition denylist_saved :: "long \<Rightarrow> RevocationService \<Rightarrow> bool" where
  "denylist_saved b s \<longleftrightarrow>
     map_option (live_entries b) (file_list (rs_store s)) = Some (live_entries b (lhm_values (rs_byJti s)))"

definition live_keys :: "long \<Rightarrow> long \<Rightarrow> SigningKeyRecord list \<Rightarrow> SigningKeyRecord list" where
  "live_keys ret b = filter (\<lambda>k. \<not> expired_retired ret b k)"

definition keys_saved :: "long \<Rightarrow> long \<Rightarrow> SigningKeyService \<Rightarrow> bool" where
  "keys_saved ret b s \<longleftrightarrow> (\<exists>d. sk_store s = Doc d \<and> sd_activeKid d = sk_activeKid s
     \<and> live_keys ret b (sd_keys d) = live_keys ret b (sk_keys s))"

definition saved_as_of :: "long \<Rightarrow> long \<Rightarrow> Idp \<Rightarrow> bool" where
  "saved_as_of ret b s \<longleftrightarrow> registry_saved (id_clients s) \<and> keys_saved ret b (id_keys s)
     \<and> denylist_saved b (id_revocations s) \<and> audit_saved (id_audit s)"

section \<open>One call of a service\<close>

abbreviation save_failed :: "exn + 'a \<Rightarrow> bool" where
  "save_failed r \<equiv> r = Inl save_error"

lemma register_saved:
  assumes "ClientService_register argon2 st ib sb salt now out dn au s = (r, s')" and "registry_saved s"
  shows "registry_saved s' \<or> save_failed r"
  using assms(1) by (cases rule: register_cases) (auto simp: registry_saved_def assms(2) [unfolded registry_saved_def])

lemma remove_saved:
  assumes "ClientService_remove out k s = (r, s')" and "registry_saved s"
  shows "registry_saved s' \<or> save_failed r"
  using assms
  by (cases out) (auto simp: client_ops Let_def registry_saved_def lhm_remove_absent split: if_splits)

lemma setAuthorization_saved:
  assumes "ClientService_setAuthorization out k au s = (r, s')" and "registry_saved s"
  shows "registry_saved s' \<or> save_failed r"
  using assms(1) by (cases rule: setAuthorization_cases)
    (auto simp: registry_saved_def assms(2) [unfolded registry_saved_def])

lemma record_saved:
  assumes "AuditService_record now out ev cid det s = (r, s')"
  shows "audit_saved s' \<or> save_failed r"
  using record_entries [OF assms] by (cases out) (auto simp: audit_saved_def)

lemma live_entries_prune:
  assumes "sint t \<le> sint b"
  shows "live_entries b (lhm_values (rs_byJti (RevocationService_prune t s)))
       = live_entries b (lhm_values (rs_byJti s))"
  using assms
  by (auto simp: live_entries_def RevocationService_prune_def lhm_values_remove_if word_sless_alt
      intro!: filter_cong)

lemma prune_saved:
  "denylist_saved b s \<Longrightarrow> RevocationService_prune t s = s' \<Longrightarrow> sint t \<le> sint b \<Longrightarrow> denylist_saved b s'"
  using live_entries_prune [of t b s]
  by (auto simp: denylist_saved_def) (simp add: RevocationService_prune_def)

lemma revoke_saved:
  assumes "RevocationService_revoke now pruned out jti ex why s = (r, s')" and "denylist_saved b s"
  shows "denylist_saved b s' \<or> save_failed r"
  using assms(1)
proof (cases rule: revoke_cases)
  case (puts j v)
  then show ?thesis by (cases "out = Saved") (simp_all add: denylist_saved_def)
qed (use assms(2) in simp)

lemma live_keys_prune:
  assumes "instant_ok t" and "instant_ok b" and "0 \<le> sint ret" and "sint ret < 2 ^ 62" and "sint t \<le> sint b"
  shows "live_keys ret b (sk_keys (pruneExpiredRetired ret t s)) = live_keys ret b (sk_keys s)"
  using assms(5)
  by (auto simp: live_keys_def pruneExpiredRetired_def expired_retired_iff [OF assms(1,3,4)]
      expired_retired_iff [OF assms(2,3,4)] intro!: filter_cong)

lemma jwkSet_saved:
  assumes "SigningKeyService_jwkSet ret t s = (r, s')" and "keys_saved ret b s"
    and "instant_ok t" and "instant_ok b" and "0 \<le> sint ret" and "sint ret < 2 ^ 62" and "sint t \<le> sint b"
  shows "keys_saved ret b s'"
  using assms(2) jwkSet_effect(3,4) [OF assms(1)] live_keys_prune [OF assms(3-7), of s]
  by (simp add: keys_saved_def jwkSet_effect(1) [OF assms(1)])

lemma rotate_saved:
  assumes "SigningKeyService_rotate ed ret now seed kb created pruned out s = (r, s')"
  shows "keys_saved ret b s' \<or> save_failed r"
  using assms rotate_store [OF assms]
  by (cases out; auto simp: key_ops keys_saved_def keys_document_def Let_def split: prod.splits)

section \<open>A start\<close>

lemma start_registry_read:
  assumes "good_cell clients_inv (\<lambda>s. lhm_values (cs_clients s)) c" and "ClientService_new c = Inr s"
  shows "cs_store s = c" and "file_list c = Some (lhm_values (cs_clients s))"
  using start_clients [OF assms] assms(1) by (cases c; auto simp: good_cell_def lhm_values_def)+

lemma start_denylist_read:
  assumes "good_cell revocations_inv (\<lambda>s. lhm_values (rs_byJti s)) c" and "RevocationService_new c = Inr s"
  shows "file_list c = Some (lhm_values (rs_byJti s))"
proof (cases "c = Absent")
  case True
  with assms(2) show ?thesis by (auto simp: RevocationService_new_def lhm_values_def)
qed (use start_revocations(3) [OF assms] in simp)

lemma start_audit_saved: "AuditService_new c = Inr s \<Longrightarrow> audit_saved s"
  by (cases c) (auto simp: AuditService_new_def audit_saved_def)

lemma start_signer_saved:
  assumes "good_cell (keys_inv ed) keys_document c" and "length seed = 32"
    and new: "SigningKeyService_new ed seed kb now out c = (Inr s, c')"
  shows "sk_store s = Doc (keys_document s)"
proof (cases "c = Absent")
  case True
  with new show ?thesis
    by (cases out)
       (auto simp: SigningKeyService_new_def SigningKeyService_persist_def keys_document_def Let_def
         split: if_splits)
qed (use start_keys(2,3) [OF assms] in simp)

text \<open>A start from good documents leaves memory and files in agreement, at any time.\<close>

lemma create_saved:
  assumes "fst (IdpServer_create lb su config adminToken d) = Inr (sv, s)"
    and "good_disk (lb_ed lb) d" and "length (su_seed su) = 32"
  shows "saved_as_of ret b s"
proof -
  note new = create_Inr [OF assms(1)]
  from new(2) obtain c where keys: "SigningKeyService_new (lb_ed lb) (su_seed su) (su_kidBytes su)
      (su_now su) (su_save su) (dk_keys d) = (Inr (id_keys s), c)" by blast
  have "registry_saved (id_clients s)"
    using start_registry_read [OF _ new(1)] assms(2) by (simp add: good_disk_def registry_saved_def)
  moreover have "denylist_saved b (id_revocations s)"
    using start_revocations(2) [OF _ new(3)] start_denylist_read [OF _ new(3)] assms(2)
    by (simp add: good_disk_def denylist_saved_def)
  moreover have "audit_saved (id_audit s)"
    by (rule start_audit_saved [OF new(4)])
  moreover have "sk_store (id_keys s) = Doc (keys_document (id_keys s))"
    using start_signer_saved [OF _ assms(3) keys] assms(2) by (simp add: good_disk_def)
  ultimately show ?thesis by (simp add: saved_as_of_def keys_saved_def keys_document_def)
qed

text \<open>A restart of a saved state, service by service.\<close>

lemma keyed_values_eq: "lhm_keyed key m \<Longrightarrow> lhm_keyed key n \<Longrightarrow> lhm_values m = lhm_values n \<Longrightarrow> m = n"
  by (metis lhm_load_values)

lemma restart_registry:
  assumes "clients_good s" and "registry_saved s"
  shows "ClientService_new (cs_store s) = Inr s"
proof (cases "cs_store s")
  case (Doc xs)
  with assms restart_clients [of s] show ?thesis by (simp add: clients_good_def registry_saved_def)
qed (use assms(2) in \<open>simp_all add: ClientService_new_def registry_saved_def lhm_values_def\<close>)

lemma restart_audit: "audit_saved s \<Longrightarrow> AuditService_new (au_store s) = Inr s"
  by (cases "au_store s") (simp_all add: AuditService_new_def audit_saved_def)

lemma restart_denylist_returns: "denylist_saved b s \<Longrightarrow> \<exists>s'. RevocationService_new (rs_store s) = Inr s'"
  by (cases "rs_store s") (auto simp: RevocationService_new_def denylist_saved_def)

lemma restart_denylist:
  assumes "RevocationService_new (rs_store s) = Inr s'" and "revocations_good s" and "denylist_saved b s"
    and "sint b \<le> sint t"
  shows "rs_byJti (RevocationService_prune t s') = rs_byJti (RevocationService_prune t s)"
proof -
  have good: "revocations_good s'" "rs_store s' = rs_store s"
    using start_revocations(1,2) [OF _ assms(1)] assms(2) by (auto simp: revocations_good_def)
  have "live_entries b (lhm_values (rs_byJti s')) = live_entries b (lhm_values (rs_byJti s))"
    using start_denylist_read [OF _ assms(1)] assms(2,3) by (simp add: revocations_good_def denylist_saved_def)
  then have "live_entries t (live_entries b (lhm_values (rs_byJti s')))
      = live_entries t (live_entries b (lhm_values (rs_byJti s)))" by simp
  moreover have "live_entries t (live_entries b vs) = live_entries t vs" for vs
    using assms(4) by (auto simp: live_entries_def word_sless_alt intro!: filter_cong)
  ultimately have "lhm_values (rs_byJti (RevocationService_prune t s'))
      = lhm_values (rs_byJti (RevocationService_prune t s))"
    by (simp add: RevocationService_prune_def lhm_values_remove_if live_entries_def)
  then show ?thesis
    using revocations_inv_prune [of s t] revocations_inv_prune [of s' t] assms(2) good(1)
    by (intro keyed_values_eq [of rv_jti]) (simp_all add: revocations_good_def revocations_inv_def)
qed

lemma find_filter: "(\<And>x. P x \<Longrightarrow> Q x) \<Longrightarrow> find P (filter Q xs) = find P xs"
  by (induction xs) auto

lemma new_keys_store:
  "SigningKeyService_new ed seed kb now out c = (Inr s, c') \<Longrightarrow> c' = sk_store s"
  by (auto simp: SigningKeyService_new_def and_then_Inr_iff
      split: sum.splits prod.splits if_splits)

lemma restart_signer_returns:
  assumes "keys_good ed s" and "keys_saved ret b s"
  shows "\<exists>s'. SigningKeyService_new ed seed kb now out (sk_store s) = (Inr s', sk_store s)"
proof -
  from assms obtain t where t: "keys_inv ed t" "sk_store s = Doc (keys_document t)"
    by (auto simp: keys_good_def good_cell_def keys_saved_def)
  with restart_keys [OF t(1), of ed seed kb now out] obtain c where
    new: "SigningKeyService_new ed seed kb now out (sk_store s) = (Inr (t\<lparr>sk_store := sk_store s\<rparr>), c)"
    by (cases "SigningKeyService_new ed seed kb now out (sk_store s)") (simp add: keys_document_def)
  with new_keys_store [OF new] show ?thesis by auto
qed

lemma restart_signer:
  assumes "SigningKeyService_new ed seed kb now out (sk_store s) = (Inr s', c)" and "keys_good ed s"
    and "keys_saved ret b s" and "length seed = 32"
  shows "sk_activeKid s' = sk_activeKid s" and "live_keys ret b (sk_keys s') = live_keys ret b (sk_keys s)"
    and "findActive s' = findActive s"
proof -
  from assms(3) obtain d where d: "sk_store s = Doc d" by (auto simp: keys_saved_def)
  with start_keys(2) [OF _ assms(4,1)] assms(2) have "d = keys_document s'" by (simp add: keys_good_def)
  with assms(3) d show kid: "sk_activeKid s' = sk_activeKid s"
    and live: "live_keys ret b (sk_keys s') = live_keys ret b (sk_keys s)"
    by (auto simp: keys_saved_def keys_document_def)
  have "findActive t = find (\<lambda>k. kr_active k \<and> Some (kr_kid k) = sk_activeKid t) (live_keys ret b (sk_keys t))" for t
    unfolding findActive_def live_keys_def by (rule find_filter [symmetric]) (simp add: expired_retired_def)
  with kid live show "findActive s' = findActive s" by simp
qed

lemma live_keys_jwkSet:
  assumes "live_keys ret b ks = live_keys ret b (sk_keys s)" and "ks = sk_keys s'"
    and "instant_ok t" and "instant_ok b" and "0 \<le> sint ret" and "sint ret < 2 ^ 62" and "sint b \<le> sint t"
  shows "fst (SigningKeyService_jwkSet ret t s') = fst (SigningKeyService_jwkSet ret t s)"
proof -
  have "live_keys ret t (live_keys ret b xs) = live_keys ret t xs" for xs
    using assms(7)
    by (auto simp: live_keys_def expired_retired_iff [OF assms(3,5,6)] expired_retired_iff [OF assms(4,5,6)]
        intro!: filter_cong)
  with assms(1,2) have "live_keys ret t (sk_keys s') = live_keys ret t (sk_keys s)" by metis
  then show ?thesis
    by (simp add: SigningKeyService_jwkSet_def pruneExpiredRetired_def live_keys_def Let_def)
qed

text \<open>A start whose services all return.\<close>

lemma create_returns:
  assumes "ClientService_new (dk_clients d) = Inr clients"
    and "SigningKeyService_new (lb_ed lb) (su_seed su) (su_kidBytes su) (su_now su) (su_save su)
           (dk_keys d) = (Inr keys, dk_keys d)"
    and "RevocationService_new (dk_revocations d) = Inr revocations"
    and "AuditService_new (dk_audit d) = Inr audit"
  shows "IdpServer_create lb su config adminToken d =
    (and_then (mk_AdminAuthenticator adminToken) (\<lambda>admin.
     and_then (OpenApiDocument_load (lb_yaml lb) (lb_write lb) (su_resources su)) (\<lambda>openApi.
     and_then (su_bind su) (\<lambda>_.
       Inr (\<lparr>sv_config = config, sv_issuer = create_issuer config, sv_admin = admin,
             sv_openApi = openApi, sv_resources = su_resources su\<rparr>,
            \<lparr>id_clients = clients, id_keys = keys, id_revocations = revocations, id_audit = audit\<rparr>)))),
     d)"
  unfolding IdpServer_create_def assms and_then_simps sum.case prod.case by simp

section \<open>A run in which no save fails\<close>

lemma system_good_disk: "system_inv ed s \<Longrightarrow> good_disk ed (disk_of s)"
  by (simp add: system_inv_def good_disk_def disk_of_def clients_good_def keys_good_def revocations_good_def)

lemma create_system_inv:
  assumes "fst (IdpServer_create lb su config adminToken d) = Inr (sv, s)"
    and "good_disk (lb_ed lb) d" and "length (su_seed su) = 32"
  shows "system_inv (lb_ed lb) s" and "sv_config sv = config"
proof -
  note new = create_Inr [OF assms(1)]
  from new(2) obtain c where keys: "SigningKeyService_new (lb_ed lb) (su_seed su) (su_kidBytes su)
      (su_now su) (su_save su) (dk_keys d) = (Inr (id_keys s), c)" by blast
  show "system_inv (lb_ed lb) s"
    using assms(2) start_clients [OF _ new(1)] start_keys(1) [OF _ assms(3) keys]
      start_revocations(1) [OF _ new(3)] start_audit [OF new(4)]
    by (simp add: system_inv_def good_disk_def)
  show "sv_config sv = config" by (rule new(5))
qed

lemma call_registry_saved:
  assumes "service_call (\<lambda>e. e \<noteq> save_error) (\<lambda>_. True) lb sv a b ok s s'" and "registry_saved (id_clients s)"
    and "system_inv (lb_ed lb) s"
  shows "registry_saved (id_clients s')"
  using assms(1)
proof (cases rule: service_call.cases)
  case s_restart
  then show ?thesis
    using create_saved [OF s_restart(1) system_good_disk [OF assms(3)]] by (simp add: saved_as_of_def)
qed (use assms(2) in \<open>auto simp: may_throw_def dest!: on_clients_frame on_keys_frame on_revocations_frame
       audit_record_frame dest: register_saved remove_saved setAuthorization_saved\<close>)

lemma call_audit_saved:
  assumes "service_call (\<lambda>e. e \<noteq> save_error) (\<lambda>_. True) lb sv a b ok s s'" and "audit_saved (id_audit s)"
  shows "audit_saved (id_audit s')"
  using assms(1)
proof (cases rule: service_call.cases)
  case s_restart
  then show ?thesis using create_Inr(4) [OF s_restart(1)] by (auto intro: start_audit_saved)
qed (use assms(2) in \<open>auto simp: may_throw_def dest!: on_clients_frame on_keys_frame on_revocations_frame
       audit_record_frame dest: record_saved\<close>)

lemma call_denylist_saved:
  assumes "service_call (\<lambda>e. e \<noteq> save_error) (\<lambda>_. True) lb sv a (sint b) ok s s'"
    and "denylist_saved b (id_revocations s)" and "system_inv (lb_ed lb) s"
  shows "denylist_saved b (id_revocations s')"
  using assms(1)
proof (cases rule: service_call.cases)
  case s_restart
  then show ?thesis
    using create_saved [OF s_restart(1) system_good_disk [OF assms(3)]] by (simp add: saved_as_of_def)
qed (use assms(2) in \<open>auto simp: may_throw_def RevocationService_activeDenylist_def
       RevocationService_isRevoked_def Let_def dest!: on_clients_frame on_keys_frame on_revocations_frame
       audit_record_frame dest: revoke_saved intro: prune_saved\<close>)

lemma call_keys_saved:
  assumes "service_call (\<lambda>e. e \<noteq> save_error) (\<lambda>_. True) lb sv a (sint b) ok s s'"
    and "keys_saved (retiredKeyRetention (sv_config sv)) b (id_keys s)" and "system_inv (lb_ed lb) s"
    and "wf_config (sv_config sv)" and "instant_min \<le> a" and "instant_ok b"
  shows "keys_saved (retiredKeyRetention (sv_config sv)) b (id_keys s')"
proof -
  let ?ret = "retiredKeyRetention (sv_config sv)"
  have ret: "0 \<le> sint ?ret" "sint ?ret < 2 ^ 62"
    using assms(4) retention_sint [of "sv_config sv"] by (simp_all add: wf_config_def)
  show ?thesis
    using assms(1)
  proof (cases rule: service_call.cases)
    case (s_jwkSet now r1)
    from s_jwkSet(2) assms(5,6) have now: "instant_ok now" "sint now \<le> sint b"
      by (auto simp: instant_ok_def)
    from on_keys_frame [OF s_jwkSet(1)] show ?thesis
      by (auto intro: jwkSet_saved [OF _ assms(2) now(1) assms(6) ret now(2)])
  next
    case s_restart
    then show ?thesis
      using create_saved [OF s_restart(1) system_good_disk [OF assms(3)]] by (simp add: saved_as_of_def)
  qed (use assms(2) in \<open>auto simp: may_throw_def dest!: on_clients_frame on_keys_frame on_revocations_frame
         audit_record_frame dest: rotate_saved\<close>)
qed

lemma run_saved:
  assumes "saving_run lb sv a (sint b) ok s s'" and "wf_config (sv_config sv)"
    and "instant_min \<le> a" and "instant_ok b"
    and "system_inv (lb_ed lb) s" and "saved_as_of (retiredKeyRetention (sv_config sv)) b s"
  shows "system_inv (lb_ed lb) s' \<and> saved_as_of (retiredKeyRetention (sv_config sv)) b s'"
  using assms(1)
proof (induction rule: rtranclp_induct)
  case (step t t')
  have "wf_settings (sc_argonSettings (sv_config sv))" using assms(2) by (simp add: wf_config_def)
  from step_system_inv [OF call_is_step [OF step(2)] this] step(3)
    call_registry_saved [OF step(2)] call_audit_saved [OF step(2)] call_denylist_saved [OF step(2)]
    call_keys_saved [OF step(2) _ _ assms(2-4)]
  show ?case by (simp add: saved_as_of_def)
qed (use assms(5,6) in simp)

section \<open>A removed client\<close>

text \<open>Neither memory nor file knows the client.\<close>

definition client_gone :: "jstring \<Rightarrow> ClientService \<Rightarrow> bool" where
  "client_gone k s \<longleftrightarrow> lhm_get (cs_clients s) k = None
     \<and> (\<forall>d. cs_store s = Doc d \<longrightarrow> k \<notin> cr_clientId ` set d)"

lemma gone_values: "clients_inv s \<Longrightarrow> lhm_get (cs_clients s) k = None \<Longrightarrow>
    k \<notin> cr_clientId ` set (lhm_values (cs_clients s))"
  using lhm_keyed_dom [of cr_clientId "cs_clients s" k] by (simp add: clients_inv_def)

lemma client_gone_save:
  assumes "client_gone k s" and "clients_inv s'" and "lhm_get (cs_clients s') k = None"
    and "s' = s \<or> cs_store s' = snd (cell_save out (lhm_values (cs_clients s')) (cs_store s))"
  shows "client_gone k s'"
  using assms gone_values [OF assms(2,3)] by (cases out) (auto simp: client_gone_def)

lemma removed_gone:
  assumes "clients_inv s" and rem: "ClientService_remove out k s = (Inr True, s')"
  shows "client_gone k s'"
proof -
  have "lhm_get (cs_clients s') k = None"
    using remove_clients [OF rem] lhm.get_remove_same [OF clients_inv_ok [OF assms(1)]] by simp
  moreover from rem have "cs_store s' = Doc (lhm_values (cs_clients s'))"
    by (cases out) (auto simp: client_ops Let_def split: if_splits)
  ultimately show ?thesis
    using gone_values [OF remove_inv [OF assms(1) rem]] by (simp add: client_gone_def)
qed

lemma call_client_gone:
  assumes "service_call thr (\<lambda>i. i \<noteq> k) lb sv a b ok s s'" and "client_gone k (id_clients s)"
    and good: "clients_good (id_clients s)" and good': "clients_good (id_clients s')"
  shows "client_gone k (id_clients s')"
proof -
  from good good' have inv: "clients_inv (id_clients s)" "clients_inv (id_clients s')"
    by (simp_all add: clients_good_def)
  note ok = clients_inv_ok [OF inv(1)]
  have none: "lhm_get (cs_clients (id_clients s)) k = None" using assms(2) by (simp add: client_gone_def)
  note save = client_gone_save [OF assms(2) inv(2)]
  show ?thesis
    using assms(1)
  proof (cases rule: service_call.cases)
    case s_register
    note op = on_clients_frame [OF s_register(1), THEN conjunct2, THEN conjunct2, THEN conjunct2]
    have "lhm_get (cs_clients (id_clients s')) k = None"
      using op by (cases rule: register_cases) (use none ok s_register(3) in \<open>auto simp: lhm.get_put\<close>)
    then show ?thesis by (rule save [OF _ register_store [OF op]])
  next
    case s_remove
    note op = on_clients_frame [OF s_remove(1), THEN conjunct2, THEN conjunct2, THEN conjunct2]
    have "lhm_get (cs_clients (id_clients s')) k = None"
      using none by (simp add: remove_clients [OF op] lhm.get_remove [OF ok])
    then show ?thesis by (rule save [OF _ remove_store [OF op]])
  next
    case s_setAuthorization
    note op = on_clients_frame [OF s_setAuthorization(1), THEN conjunct2, THEN conjunct2, THEN conjunct2]
    have "lhm_get (cs_clients (id_clients s')) k = None"
      using op by (cases rule: setAuthorization_cases) (use none ok in \<open>auto simp: lhm.get_put\<close>)
    then show ?thesis by (rule save [OF _ setAuthorization_store [OF op]])
  next
    case s_restart
    note new = create_Inr(1) [OF s_restart(1)]
    have cell: "good_cell clients_inv (\<lambda>s. lhm_values (cs_clients s)) (cs_store (id_clients s))"
      using good by (simp add: clients_good_def)
    note read = start_registry_read [OF cell new [unfolded disk_of_def disk.simps]]
    from read(2) assms(2) have "k \<notin> cr_clientId ` set (lhm_values (cs_clients (id_clients s')))"
      by (cases "cs_store (id_clients s)") (auto simp: client_gone_def)
    then show ?thesis
      using read(1) assms(2) lhm_keyed_dom [of cr_clientId "cs_clients (id_clients s')" k] inv(2)
      by (simp add: client_gone_def clients_inv_def)
  qed (use assms(2) in \<open>auto dest!: on_keys_frame on_revocations_frame audit_record_frame\<close>)
qed

lemma run_client_gone:
  assumes "(service_call thr (\<lambda>i. i \<noteq> k) lb sv a b ok)\<^sup>*\<^sup>* s s'" and "client_gone k (id_clients s)"
    and "clients_good (id_clients s)" and "wf_settings (sc_argonSettings (sv_config sv))"
  shows "client_gone k (id_clients s') \<and> clients_good (id_clients s')"
  using assms(1)
proof (induction rule: rtranclp_induct)
  case (step t t')
  then have "clients_good (id_clients t')"
    using step_clients [OF call_is_step [OF step(2)] _ assms(4)] by blast
  with call_client_gone [OF step(2)] step(3) show ?case by blast
qed (use assms(2,3) in simp)

text \<open>Its token requests never succeed.\<close>

lemma gone_no_token:
  assumes "lhm_get (cs_clients (id_clients s)) k = None"
    and "formParams ctx = Inr form" and "fst (token_credentials form ctx) = Some k"
  shows "fst (run_endpoint lb sv i EToken ctx s) \<noteq> Inr resp" and "snd (run_endpoint lb sv i EToken ctx s) = s"
proof -
  obtain p where cr: "token_credentials form ctx = (Some k, p)" using assms(3) by (metis prod.collapse)
  have "ClientService_authenticate (lb_argon2 lb) (Some k) p (id_clients s) \<noteq> Inr (Some c)" for c
    using assms(1) by (simp add: authenticate_Some_iff)
  then show "fst (run_endpoint lb sv i EToken ctx s) \<noteq> Inr resp" "snd (run_endpoint lb sv i EToken ctx s) = s"
    using cr assms(2)
    by (cases "ClientService_authenticate (lb_argon2 lb) (Some k) p (id_clients s)";
        auto simp: handler_token_def st_read_def st_lift_def [of "Inl _"] split: option.splits)+
qed

section \<open>Properties\<close>

text \<open>
  C5. A removed client is locked out: once its removal has returned, its id is registered no
  more and no token request with it succeeds or changes anything, whatever its secret, through
  any interleaving of service calls, failing saves and restarts, as long as no registration
  draws the same random id.
\<close>

theorem removed_client_locked_out:
  assumes "clients_good (id_clients s)" and "wf_settings (sc_argonSettings (sv_config sv))"
    and "ClientService_remove out k (id_clients s) = (Inr True, c)"
    and "(service_call (\<lambda>_. True) (\<lambda>i. i \<noteq> k) lb sv a b ok)\<^sup>*\<^sup>* (s\<lparr>id_clients := c\<rparr>) s'"
    and "formParams ctx = Inr form" and "fst (token_credentials form ctx) = Some k"
  shows "ClientService_get k (id_clients s') = None
     \<and> fst (run_endpoint lb' sv' i EToken ctx s') \<noteq> Inr resp
     \<and> snd (run_endpoint lb' sv' i EToken ctx s') = s'"
proof -
  have inv: "clients_inv (id_clients s)" using assms(1) by (simp add: clients_good_def)
  have "client_gone k c" by (rule removed_gone [OF inv assms(3)])
  moreover have "clients_good c"
    by (rule clients_goodI [OF assms(1) remove_inv [OF inv assms(3)] remove_store [OF assms(3)]])
  ultimately have "lhm_get (cs_clients (id_clients s')) k = None"
    using run_client_gone [OF assms(4) _ _ assms(2)] by (simp add: client_gone_def)
  with gone_no_token [OF this assms(5,6)] show ?thesis by (simp add: ClientService_get_def)
qed

definition demo_login_a :: RequestContext where
  "demo_login_a = \<lparr>rc_request = demo_request ''POST'' ''/oauth/token'' None (utf8_encode (js
     ''grant_type=client_credentials&client_id=client_a&client_secret=s'')), rc_pathParams = (\<lambda>_. None)\<rparr>"

lemma demo_login_a: "\<exists>form. formParams demo_login_a = Inr form
    \<and> fst (token_credentials form demo_login_a) = Some (js ''client_a'')"
proof -
  let ?ps = "[(js ''grant_type'', js ''client_credentials''), (js ''client_id'', js ''client_a''),
    (js ''client_secret'', js ''s'')]"
  have t: "js ''grant_type=client_credentials&client_id=client_a&client_secret=s'' = form_text ?ps" by code_simp
  have "formParams demo_login_a = Inr (map_of (rev ?ps))"
    unfolding demo_login_a_def t
  proof (rule form_plain)
    show "utf16_ok (form_text ?ps)" unfolding t [symmetric] by (rule utf16_ok_js) simp
    show "\<not> is_blank (form_text ?ps)" by (simp add: form_text_def is_blank_def is_whitespace_def js_def)
    have "list_all (\<lambda>(k, v). plain_form k \<and> plain_form v) ?ps" by code_simp
    then show "plain_form k \<and> plain_form v" if "(k, v) \<in> set ?ps" for k v
      using that unfolding list_all_iff by blast
  qed (simp_all add: demo_request_def)
  then show ?thesis by (simp add: token_credentials_def)
qed

theorem removed_client_locked_out_witness:
  "\<exists>c s'. ClientService_remove Saved (js ''client_a'') demo_clients = (Inr True, c)
     \<and> on_clients (ClientService_register demo_argon2 (sc_argonSettings demo_config) [0, 9] [1, 9] [2, 9]
          200 NotSaved None (Some Authorization_none)) (demo_idp\<lparr>id_clients := c\<rparr>) = (Inl save_error, s')
     \<and> snd (run_endpoint demo_libs demo_server demo_inputs EToken demo_login_a s') = s'"
proof -
  let ?reg = "ClientService_register demo_argon2 (sc_argonSettings demo_config) [0, 9] [1, 9] [2, 9]
    200 NotSaved None (Some Authorization_none)"
  obtain c where c: "ClientService_remove Saved (js ''client_a'') demo_clients = (Inr True, c)"
    by (simp add: client_ops demo_clients_def lhm_get_def Let_def)
  have "hash_secret demo_argon2 (sc_argonSettings demo_config) [2, 9] (Some (newClientSecret [1, 9])) \<noteq> Inl e" for e
    by (simp add: hash_secret_def derive_def demo_argon2_def newClientSecret_nonempty Let_def)
  then obtain s' where s': "on_clients ?reg (demo_idp\<lparr>id_clients := c\<rparr>) = (Inl save_error, s')"
    by (cases "hash_secret demo_argon2 (sc_argonSettings demo_config) [2, 9] (Some (newClientSecret [1, 9]))")
       (auto simp: on_clients_def client_ops Let_def)
  have other: "newClientId [0, 9] \<noteq> js ''client_a''" by code_simp
  have "service_call (\<lambda>_. True) (\<lambda>i. i \<noteq> js ''client_a'') demo_libs demo_server 0 500 any_revocation
      (demo_idp\<lparr>id_clients := c\<rparr>) s'"
    by (rule s_register [OF _ wf_authorization_none, where idBytes = "[0, 9]"]) (use s' other in \<open>simp_all\<close>)
  note run = r_into_rtranclp [of "service_call (\<lambda>_. True) (\<lambda>i. i \<noteq> js ''client_a'') demo_libs demo_server
    0 500 any_revocation", OF this]
  have good: "clients_good (id_clients demo_idp)"
    using demo_clients_inv
    by (auto simp: clients_good_def good_cell_def demo_idp_def demo_clients_def lhm_values_def)
  have st: "wf_settings (sc_argonSettings (sv_config demo_server))" by (simp add: wf_settings_def demo_config_def)
  from demo_login_a obtain form where form: "formParams demo_login_a = Inr form"
    "fst (token_credentials form demo_login_a) = Some (js ''client_a'')" by blast
  from removed_client_locked_out [OF good st _ run form] c s' show ?thesis
    by (simp add: demo_idp_def)
qed

text \<open>
  C34. A removal that could not be written cannot be repeated: the request fails, but the client
  is gone from memory, so the same request made again finds no client, is answered 404 without
  touching the file, and a restart brings the client back with its secret and grants.
\<close>

theorem failed_removal_not_repeatable:
  assumes "clients_good (id_clients s)" and "registry_saved (id_clients s)"
    and "lhm_get (cs_clients (id_clients s)) (ctx_id ctx) = Some c"
    and "isValid (sv_admin sv) (ctx_header ctx ''Authorization'')" and "in_save i 0 = NotSaved"
    and "run_endpoint lb sv i EDeleteClient ctx s = (r, s1)"
    and "run_endpoint lb sv again EDeleteClient ctx s1 = (r', s2)"
  shows "r = Inl save_error \<and> ClientService_get (ctx_id ctx) (id_clients s1) = None
     \<and> r' = Inl (notFound (js ''no such client: '' @ ctx_id ctx)) \<and> s2 = s1
     \<and> ClientService_new (cs_store (id_clients s2)) = Inr (id_clients s)"
proof -
  have admin: "handler_requireAdmin sv ctx = Inr ()"
    using assms(4) by (simp add: handler_requireAdmin_def requireAdmin_def)
  have ok: "lhm_ok (cs_clients (id_clients s))"
    using assms(1) by (simp add: clients_good_def clients_inv_ok)
  from assms(3,5,6) admin have s1: "r = Inl save_error"
    "s1 = s\<lparr>id_clients := (id_clients s)\<lparr>cs_clients := lhm_remove (ctx_id ctx) (cs_clients (id_clients s))\<rparr>\<rparr>"
    by (auto simp: handler_deleteClient_def on_clients_def client_ops st_then_def st_lift_def Let_def)
  have gone: "lhm_get (cs_clients (id_clients s1)) (ctx_id ctx) = None"
    using lhm.get_remove_same [OF ok] by (simp add: s1(2))
  with assms(7) admin have "r' = Inl (notFound (js ''no such client: '' @ ctx_id ctx))" "s2 = s1"
    by (auto simp: handler_deleteClient_def on_clients_def client_ops lhm_remove_absent st_then_def
        st_lift_def Let_def)
  with s1 gone restart_registry [OF assms(1,2)] show ?thesis by (simp add: ClientService_get_def)
qed

definition demo_removal :: RequestContext where
  "demo_removal =
     \<lparr>rc_request = demo_request ''DELETE'' ''/admin/clients/client_a'' (Some (js ''Bearer s3cret'')) [],
      rc_pathParams = [js ''id'' \<mapsto> js ''client_a'']\<rparr>"

theorem failed_removal_not_repeatable_witness:
  "ClientService_new (cs_store (id_clients (snd (run_endpoint demo_libs demo_server demo_inputs EDeleteClient
     demo_removal (snd (run_endpoint demo_libs demo_server (demo_inputs\<lparr>in_save := \<lambda>_. NotSaved\<rparr>)
       EDeleteClient demo_removal demo_idp)))))) = Inr demo_clients"
proof -
  have k: "ctx_id demo_removal = js ''client_a''" by (simp add: ctx_id_def demo_removal_def)
  have saved: "clients_good (id_clients demo_idp)" "registry_saved (id_clients demo_idp)"
    using demo_clients_inv
    by (auto simp: clients_good_def good_cell_def registry_saved_def demo_idp_def demo_clients_def lhm_values_def)
  have client: "lhm_get (cs_clients (id_clients demo_idp)) (ctx_id demo_removal) = Some demo_client"
    by (simp add: k demo_idp_def demo_clients_def lhm_get_def)
  have admin: "isValid (sv_admin demo_server) (ctx_header demo_removal ''Authorization'')"
    using demo_admin by (simp add: ctx_header_def demo_removal_def demo_request_def)
  have out: "in_save (demo_inputs\<lparr>in_save := \<lambda>_. NotSaved\<rparr>) 0 = NotSaved" by simp
  have start: "demo_clients = id_clients demo_idp" by (simp add: demo_idp_def)
  show ?thesis
    unfolding start
    using failed_removal_not_repeatable [OF saved client admin out prod.collapse [symmetric] prod.collapse [symmetric]]
    by blast
qed

end
