(* ===== verification/Contract.thy ===== *)
theory Contract
  imports ApiProps
begin

text \<open>
  The published contract, \<open>server/src/main/resources/openapi.yaml\<close>, as the specification of the
  API: its operations with their security and responses, and its schemas with the meaning JSON
  Schema gives them. The lemmas check the routes and every response of the handlers against it.
\<close>

section \<open>Schemas\<close>

datatype schema =
    S_any
  | S_string
  | S_integer
  | S_boolean
  | S_enum "string list"
  | S_array schema
  | S_object (s_properties: "(string \<times> schema) list") (s_required: "string list")

text \<open>
  A value conforms when it has the type, its required members are there and every member the
  schema names conforms.
\<close>

fun conforms :: "schema \<Rightarrow> json \<Rightarrow> bool" where
  "conforms S_any v = True"
| "conforms S_string v = (case v of JString _ \<Rightarrow> True | _ \<Rightarrow> False)"
| "conforms S_integer v = (case v of JNumber _ \<Rightarrow> True | _ \<Rightarrow> False)"
| "conforms S_boolean v = (case v of JBool _ \<Rightarrow> True | _ \<Rightarrow> False)"
| "conforms (S_enum names) v = (case v of JString s \<Rightarrow> s \<in> js ` set names | _ \<Rightarrow> False)"
| "conforms (S_array t) v = (case v of JArray vs \<Rightarrow> list_all (conforms t) vs | _ \<Rightarrow> False)"
| "conforms (S_object ps req) v =
     (case v of
        JObject ms \<Rightarrow>
          list_all (\<lambda>k. map_of ms (js k) \<noteq> None) req
          \<and> list_all (\<lambda>(k, t). case map_of ms (js k) of None \<Rightarrow> True | Some x \<Rightarrow> conforms t x) ps
      | _ \<Rightarrow> False)"

text \<open>A document in which a member whose value is \<open>null\<close> counts as absent.\<close>

fun drop_nulls :: "json \<Rightarrow> json" where
  "drop_nulls (JArray vs) = JArray (map drop_nulls vs)"
| "drop_nulls (JObject ms) = JObject (non_null (map (\<lambda>(k, v). (k, drop_nulls v)) ms))"
| "drop_nulls v = v"

section \<open>components/schemas\<close>

definition Error_schema :: schema where
  "Error_schema = S_object [(''error'', S_string), (''error_description'', S_string)] [''error'']"

definition TokenResponse_schema :: schema where
  "TokenResponse_schema = S_object
     [(''access_token'', S_string), (''token_type'', S_enum [''Bearer'']),
      (''expires_in'', S_integer), (''scope'', S_string)]
     [''access_token'', ''token_type'', ''expires_in'']"

definition GroupGrant_schema :: schema where
  "GroupGrant_schema = S_object
     [(''keyGroup'', S_string),
      (''operations'', S_array (S_enum [''GENERATE_DATA_KEY'', ''ENCRYPT'', ''DECRYPT'', ''RE_ENCRYPT'']))]
     [''keyGroup'', ''operations'']"

definition GrantsClaim_schema :: schema where
  "GrantsClaim_schema = S_object
     [(''control'', S_boolean), (''groups'', S_array GroupGrant_schema)] [''control'', ''groups'']"

definition JwtClaims_schema :: schema where
  "JwtClaims_schema = S_object
     [(''iss'', S_string), (''sub'', S_string), (''aud'', S_string), (''iat'', S_integer),
      (''nbf'', S_integer), (''exp'', S_integer), (''jti'', S_string),
      (''grants'', GrantsClaim_schema), (''cnf'', S_object [] [])]
     [''iss'', ''sub'', ''aud'', ''iat'', ''nbf'', ''exp'', ''jti'', ''grants'']"

definition Jwk_schema :: schema where
  "Jwk_schema = S_object
     [(''kty'', S_enum [''OKP'']), (''crv'', S_enum [''Ed25519'']), (''x'', S_string),
      (''use'', S_enum [''sig'']), (''alg'', S_enum [''EdDSA'']), (''kid'', S_string)]
     [''kty'', ''crv'', ''x'', ''kid'']"

definition JwkSet_schema :: schema where
  "JwkSet_schema = S_object [(''keys'', S_array Jwk_schema)] [''keys'']"

definition DiscoveryDocument_schema :: schema where
  "DiscoveryDocument_schema = S_object
     [(''issuer'', S_string), (''token_endpoint'', S_string), (''jwks_uri'', S_string),
      (''grant_types_supported'', S_array S_string),
      (''token_endpoint_auth_methods_supported'', S_array S_string),
      (''token_endpoint_auth_signing_alg_values_supported'', S_array S_string),
      (''id_token_signing_alg_values_supported'', S_array S_string)]
     [''issuer'', ''token_endpoint'', ''jwks_uri'']"

definition RegisterClientResponse_schema :: schema where
  "RegisterClientResponse_schema = S_object
     [(''clientId'', S_string), (''secret'', S_string), (''displayName'', S_string),
      (''authorization'', GrantsClaim_schema), (''createdAt'', S_integer)]
     [''clientId'', ''secret'', ''createdAt'']"

definition ClientView_schema :: schema where
  "ClientView_schema = S_object
     [(''clientId'', S_string), (''displayName'', S_string), (''enabled'', S_boolean),
      (''createdAt'', S_integer), (''authorization'', GrantsClaim_schema)]
     [''clientId'', ''enabled'', ''createdAt'']"

definition Revocation_schema :: schema where
  "Revocation_schema = S_object
     [(''jti'', S_string), (''revokedAt'', S_integer), (''expiresAt'', S_integer), (''reason'', S_string)]
     [''jti'', ''revokedAt'', ''expiresAt'']"

definition AuditEntry_schema :: schema where
  "AuditEntry_schema = S_object
     [(''at'', S_integer), (''event'', S_string), (''clientId'', S_string), (''detail'', S_string)]
     [''at'', ''event'']"

section \<open>paths\<close>

text \<open>A response: its status, and its media type with the schema of the content, if it has any.\<close>

type_synonym response = "nat \<times> (string \<times> schema) option"

record operation =
  op_path :: string
  op_method :: string
  op_admin :: bool
  op_responses :: "response list"

definition json_response :: "nat \<Rightarrow> schema \<Rightarrow> response" where
  "json_response status t = (status, Some (''application/json'', t))"

definition public_get :: "string \<Rightarrow> string \<Rightarrow> schema \<Rightarrow> operation" where
  "public_get path media t =
     \<lparr>op_path = path, op_method = ''get'', op_admin = False, op_responses = [(200, Some (media, t))]\<rparr>"

definition admin_operation :: "string \<Rightarrow> string \<Rightarrow> response list \<Rightarrow> operation" where
  "admin_operation path meth responses =
     \<lparr>op_path = path, op_method = meth, op_admin = True, op_responses = responses\<rparr>"

definition openapi_paths :: "operation list" where
  "openapi_paths =
     [\<lparr>op_path = ''/oauth/token'', op_method = ''post'', op_admin = False,
       op_responses = [json_response 200 TokenResponse_schema, json_response 400 Error_schema,
                       json_response 401 Error_schema]\<rparr>,
      public_get ''/.well-known/jwks.json'' ''application/json'' JwkSet_schema,
      public_get ''/.well-known/idp-configuration'' ''application/json'' DiscoveryDocument_schema,
      public_get ''/health'' ''application/json'' (S_object [(''status'', S_enum [''ok''])] []),
      public_get ''/openapi.yaml'' ''application/yaml'' S_string,
      public_get ''/openapi.json'' ''application/json'' (S_object [] []),
      public_get ''/docs'' ''text/html'' S_string,
      admin_operation ''/admin/clients'' ''post''
        [json_response 201 RegisterClientResponse_schema, json_response 401 Error_schema],
      admin_operation ''/admin/clients'' ''get''
        [json_response 200 (S_array ClientView_schema), json_response 401 Error_schema],
      admin_operation ''/admin/clients/{id}'' ''delete''
        [(204, None), json_response 401 Error_schema, json_response 404 Error_schema],
      admin_operation ''/admin/clients/{id}/grants'' ''put''
        [json_response 200 ClientView_schema, json_response 401 Error_schema,
         json_response 404 Error_schema],
      admin_operation ''/admin/keys/rotate'' ''post''
        [json_response 200 (S_object [(''activeKid'', S_string)] []), json_response 401 Error_schema],
      admin_operation ''/admin/revocations'' ''post''
        [json_response 201 Revocation_schema, json_response 400 Error_schema,
         json_response 401 Error_schema],
      admin_operation ''/admin/revocations'' ''get''
        [json_response 200 (S_array Revocation_schema), json_response 401 Error_schema],
      admin_operation ''/admin/audit'' ''get''
        [json_response 200 (S_array AuditEntry_schema), json_response 401 Error_schema]]"

section \<open>The operation a route serves\<close>

text \<open>Method names are written in lower case in the document.\<close>

definition upper :: "string \<Rightarrow> string" where
  "upper s = map (\<lambda>c. if of_char c \<ge> (97 :: nat) \<and> of_char c \<le> (122 :: nat)
                      then char_of ((of_char c :: nat) - 32) else c) s"

definition documents :: "operation \<Rightarrow> 'h Route \<Rightarrow> bool" where
  "documents op r \<longleftrightarrow>
     js (upper (op_method op)) = ro_method r \<and> Router_split (js (op_path op)) = ro_segments r"

definition operation_of :: "'h Route \<Rightarrow> operation option" where
  "operation_of r = find (\<lambda>op. documents op r) openapi_paths"

lemma upper_methods:
  "upper ''get'' = ''GET''" "upper ''post'' = ''POST''" "upper ''put'' = ''PUT''"
  "upper ''delete'' = ''DELETE''"
  by code_simp+

lemmas contract_defs =
  openapi_paths_def public_get_def admin_operation_def ApiHandlers_router_def Router_route_def

lemma operations_routes:
  "map (\<lambda>op. (js (upper (op_method op)), Router_split (js (op_path op)), op_admin op)) openapi_paths
   = map (\<lambda>r. (ro_method r, ro_segments r, admin_endpoint (ro_handler r)))
       (filter (\<lambda>r. ro_handler r \<notin> {EAssetCss, EAssetJs}) ApiHandlers_router)"
  by (simp add: contract_defs upper_methods route_splits admin_endpoint_def)

section \<open>What a step returns\<close>

definition returns :: "('r \<Rightarrow> bool) \<Rightarrow> ('s \<Rightarrow> 'r \<times> 's) \<Rightarrow> bool" where
  "returns P m \<longleftrightarrow> (\<forall>s. P (fst (m s)))"

lemma returnsD: "returns P m \<Longrightarrow> m s = (r, s') \<Longrightarrow> P r"
  by (metis returns_def fst_conv)

named_theorems returns_intros

lemma returns_lift [returns_intros]: "P r \<Longrightarrow> returns P (st_lift r)"
  by (simp add: returns_def st_lift_def)

lemma returns_read [returns_intros]: "(\<And>x. returns P (f x)) \<Longrightarrow> returns P (st_read g f)"
  by (simp add: returns_def st_read_def)

lemma returns_if [returns_intros]: "(b \<Longrightarrow> returns P f) \<Longrightarrow> (\<not> b \<Longrightarrow> returns P g) \<Longrightarrow> returns P (if b then f else g)"
  by simp

lemma returns_option [returns_intros]:
  "returns P f \<Longrightarrow> (\<And>y. returns P (g y)) \<Longrightarrow> returns P (case x of None \<Rightarrow> f | Some y \<Rightarrow> g y)"
  by (simp split: option.split)

lemma returns_then:
  assumes "\<And>s e s1. m s = (Inl e, s1) \<Longrightarrow> P (Inl e)" and "\<And>x s s1. m s = (Inr x, s1) \<Longrightarrow> returns P (f x)"
  shows "returns P (st_then m f)"
  unfolding returns_def
proof
  fix s
  obtain r s' where m: "m s = (r, s')" by (rule prod.exhaust)
  then show "P (fst (st_then m f s))"
    using assms by (cases r) (auto simp: st_then_def returns_def)
qed

lemma returns_then_lift [returns_intros]:
  "(\<And>e. r = Inl e \<Longrightarrow> P (Inl e)) \<Longrightarrow> (\<And>x. r = Inr x \<Longrightarrow> returns P (f x)) \<Longrightarrow> returns P (st_then (st_lift r) f)"
  by (rule returns_then) (auto simp: st_lift_def)

text \<open>A call into the core: it may throw, but not an \<open>ApiException\<close>.\<close>

definition api_free :: "exn + 'a \<Rightarrow> bool" where
  "api_free r \<longleftrightarrow> (case r of Inl (ApiException _ _ _) \<Rightarrow> False | _ \<Rightarrow> True)"

lemma api_free_simps [simp]: "api_free (Inr x)" "api_free (Inl e) \<longleftrightarrow> (\<forall>st er de. e \<noteq> ApiException st er de)"
  by (cases e; simp add: api_free_def)+

lemma api_free_and_then: "api_free r \<Longrightarrow> (\<And>x. r = Inr x \<Longrightarrow> api_free (f x)) \<Longrightarrow> api_free (and_then r f)"
  by (cases r) simp_all

lemma api_free_option: "(\<And>st er de. e \<noteq> ApiException st er de) \<Longrightarrow> api_free (of_option e x)"
  by (cases x) simp_all

text \<open>
  The result of a handler: a response with the property \<open>ok\<close>, an \<open>ApiException\<close> with one of the
  statuses \<open>sts\<close>, or another exception.
\<close>

definition result_ok :: "(HttpResponse \<Rightarrow> bool) \<Rightarrow> nat set \<Rightarrow> exn + HttpResponse \<Rightarrow> bool" where
  "result_ok ok sts r \<longleftrightarrow>
     (case r of Inr resp \<Rightarrow> ok resp | Inl (ApiException st _ _) \<Rightarrow> st \<in> of_nat ` sts | Inl _ \<Rightarrow> True)"

lemma result_ok_Inr: "ok resp \<Longrightarrow> result_ok ok sts (Inr resp)"
  by (simp add: result_ok_def)

lemma result_ok_free: "api_free (Inl e :: exn + 'a) \<Longrightarrow> result_ok ok sts (Inl e)"
  by (cases e) (simp_all add: result_ok_def)

lemma result_ok_api: "st \<in> of_nat ` sts \<Longrightarrow> result_ok ok sts (Inl (ApiException st er de))"
  by (simp add: result_ok_def)

text \<open>A step into the core, in a handler.\<close>

lemma returns_core [returns_intros]:
  assumes "returns api_free m" and "\<And>x s s1. m s = (Inr x, s1) \<Longrightarrow> returns (result_ok ok sts) (f x)"
  shows "returns (result_ok ok sts) (st_then m f)"
proof (rule returns_then)
  fix s e s1 assume "m s = (Inl e, s1)"
  then show "result_ok ok sts (Inl e)" by (rule result_ok_free [OF returnsD [OF assms(1)]])
qed (rule assms(2))

section \<open>The core throws no API exception\<close>

named_theorems core_calls

lemma free_save: "api_free (fst (cell_save out d c))"
  by (cases out) (simp_all add: save_error_def)

lemma free_persist: "api_free (fst (ClientService_persist out s))"
  by (cases out) (simp_all add: ClientService_persist_def save_error_def)

lemma free_audit [core_calls]: "returns api_free (audit_record t out ev cid det)"
  by (cases out) (simp_all add: returns_def audit_record_def AuditService_record_def Let_def save_error_def)

text \<open>What is assumed of the Argon2 library: it does not throw this program's exception.\<close>

definition argon2_free :: "argon2 \<Rightarrow> bool" where
  "argon2_free argon2 \<longleftrightarrow> (\<forall>p salt st. api_free (argon2 p salt st))"

lemma free_derive: "argon2_free argon2 \<Longrightarrow> api_free (derive argon2 p salt st)"
  by (simp add: argon2_free_def derive_def)

lemma free_hash: "argon2_free argon2 \<Longrightarrow> api_free (hash_secret argon2 st salt s)"
  by (simp add: hash_secret_def api_free_and_then free_derive split: option.split)

lemma free_on_clients: "(\<And>c. api_free (fst (f c))) \<Longrightarrow> returns api_free (on_clients f)"
  by (simp add: returns_def on_clients_def Let_def split: prod.split) (metis fst_conv)

lemma free_on_keys: "(\<And>c. api_free (fst (f c))) \<Longrightarrow> returns api_free (on_keys f)"
  by (simp add: returns_def on_keys_def Let_def split: prod.split) (metis fst_conv)

lemma free_on_revocations: "(\<And>c. api_free (fst (f c))) \<Longrightarrow> returns api_free (on_revocations f)"
  by (simp add: returns_def on_revocations_def Let_def split: prod.split) (metis fst_conv)

lemma free_register [core_calls]:
  "argon2_free argon2 \<Longrightarrow> returns api_free (on_clients (ClientService_register argon2 st ib sb salt now out dn au))"
proof (rule free_on_clients)
  fix c
  assume "argon2_free argon2"
  then show "api_free (fst (ClientService_register argon2 st ib sb salt now out dn au c))"
    using free_hash [of argon2 st salt "Some (newClientSecret sb)"]
    by (cases out; auto simp: ClientService_register_def ClientService_persist_def Let_def save_error_def
        split: sum.split)
qed

lemma free_remove [core_calls]: "returns api_free (on_clients (ClientService_remove out k))"
  by (rule free_on_clients; cases out;
      simp add: ClientService_remove_def ClientService_persist_def Let_def save_error_def)

lemma free_setAuthorization [core_calls]:
  "returns api_free (on_clients (ClientService_setAuthorization out k au))"
  by (rule free_on_clients; cases out;
      simp add: ClientService_setAuthorization_def ClientService_persist_def Let_def save_error_def
        split: option.split)

lemma free_base64: "api_free (unbase64_std s)"
  by (simp add: unbase64_std_def b64_decode_def api_free_option)

lemma free_map_throw:
  assumes "\<And>x. api_free (f x)"
  shows "api_free (map_throw f xs)"
proof (cases "map_throw f xs")
  case (Inl e)
  then obtain x where "f x = Inl e" using map_throw_Inl_ex by blast
  with assms [of x] Inl show ?thesis by simp
qed simp

lemma free_forEd25519: "api_free (and_then (decodePublic k) (Jwk_forEd25519 kid))"
  by (intro api_free_and_then)
     (simp_all add: decodePublic_def Jwk_forEd25519_def rawPublicKey_def generate_public_def
        api_free_and_then free_base64 Let_def)

lemma free_jwkSet [core_calls]: "returns api_free (on_keys (SigningKeyService_jwkSet r now))"
proof (rule free_on_keys)
  fix c
  have "api_free (mk_JwkSet ks)" for ks
    by (simp add: mk_JwkSet_def split: option.split)
  then show "api_free (fst (SigningKeyService_jwkSet r now c))"
    by (simp add: SigningKeyService_jwkSet_def Let_def api_free_and_then free_map_throw free_forEd25519)
qed

lemma free_rotate [core_calls]:
  "returns api_free (on_keys (SigningKeyService_rotate ed r now seed kb created pruned out))"
  by (rule free_on_keys; cases out; simp add: key_ops Let_def save_error_def split: prod.split)

lemma free_revoke [core_calls]:
  "returns api_free (on_revocations (RevocationService_revoke now pruned out j ex why))"
  by (rule free_on_revocations; cases out;
      simp add: revocation_ops Let_def save_error_def split: option.split)

lemma free_denylist [core_calls]:
  "returns api_free (on_revocations (\<lambda>v. let (es, v') = RevocationService_activeDenylist now v in (Inr es, v')))"
  by (rule free_on_revocations) (simp add: Let_def split: prod.split)

lemma free_verify: "argon2_free argon2 \<Longrightarrow> api_free (verify_secret argon2 p h)"
  by (auto simp: verify_secret_def SecretHash_settings_def mk_Argon2Settings_def free_base64 free_derive
      intro!: api_free_and_then split: option.split)

lemma free_authenticate:
  "argon2_free argon2 \<Longrightarrow> api_free (ClientService_authenticate argon2 i p s)"
  by (auto simp: ClientService_authenticate_def free_verify intro!: api_free_and_then split: option.split)

lemma free_issue: "api_free (TokenIssuer_issue ed jx ti now jb k c)"
  by (auto simp: TokenIssuer_issue_def instant_plus_def currentSigner_def decodePrivate_def
      generate_private_def Jws_sign_def Jws_toJson_def Let_def free_base64 api_free_option
      intro!: api_free_and_then split: option.split)

lemma free_form: "api_free (formParams ctx)"
proof -
  have "api_free (url_decode s)" for s by (simp add: url_decode_def api_free_option)
  then have "api_free (form_pair p)" for p
    by (auto simp: form_pair_def intro!: api_free_and_then split: option.split)
  then show ?thesis
    by (auto simp: formParams_def RequestContext_body_def Let_def api_free_option
        intro!: api_free_and_then free_map_throw)
qed

lemma free_json: "api_free (HttpResponse_json w st v)"
  by (simp add: HttpResponse_json_def Json_toBytes_def api_free_and_then api_free_option)

lemma free_resource: "api_free (StaticResource_bytes res p)"
  by (simp add: StaticResource_bytes_def split: option.split)

section \<open>The documents conform\<close>

lemma drop_nulls_long [simp]: "drop_nulls (json_long x) = json_long x"
  by (simp add: json_long_def)

lemma case_json_long [simp]: "(case json_long x of JNumber n \<Rightarrow> f n | _ \<Rightarrow> g) = f (sint x)"
  by (simp add: json_long_def)

lemma non_null_simps [simp]:
  "non_null [] = []" "non_null ((k, v) # ms) = (if v = JNull then non_null ms else (k, v) # non_null ms)"
  by (simp_all add: non_null_def)

lemma drop_nulls_null [simp]: "drop_nulls v = JNull \<longleftrightarrow> v = JNull"
  by (cases v) simp_all

lemma json_long_null [simp]: "json_long x \<noteq> JNull"
  by (simp add: json_long_def)

lemma operations_conform:
  "conforms (S_array (S_enum [''GENERATE_DATA_KEY'', ''ENCRYPT'', ''DECRYPT'', ''RE_ENCRYPT'']))
     (JArray (map (\<lambda>k. JString (KeyOperation_name k)) ops))"
proof -
  have "KeyOperation_name k \<in> js ` {''GENERATE_DATA_KEY'', ''ENCRYPT'', ''DECRYPT'', ''RE_ENCRYPT''}" for k
    by (cases k) simp_all
  then show ?thesis by (simp add: list_all_iff)
qed

lemma grants_conform:
  "conforms GrantsClaim_schema (drop_nulls (grants_json (GrantsClaim_from a)))"
proof -
  have "conforms GroupGrant_schema (drop_nulls (group_json
      \<lparr>gp_keyGroup = Some g, gp_operations = Some (map (\<lambda>op. Some (KeyOperation_name op)) ops)\<rparr>))" for g ops
    using operations_conform [of ops]
    by (simp add: GroupGrant_schema_def group_json_def comp_def del: conforms.simps(6))
  then show ?thesis
    by (simp add: GrantsClaim_schema_def grants_json_def GrantsClaim_from_def list_all_iff)
qed

lemma grants_no_nulls: "drop_nulls (grants_json (GrantsClaim_from a)) = grants_json (GrantsClaim_from a)"
  by (simp add: grants_json_def GrantsClaim_from_def group_json_def)

lemma grants_json_null [simp]: "grants_json c \<noteq> JNull"
  by (simp add: grants_json_def)

lemma claims_conform:
  "conforms JwtClaims_schema (drop_nulls (claims_json (issue_claims ti now expiry jti client)))"
  using grants_conform [of "cr_authorization client"]
  by (simp add: JwtClaims_schema_def claims_json_def issue_claims_def grants_json_null)

lemma view_conform: "conforms ClientView_schema (drop_nulls (view_json (ClientView_from r)))"
  using grants_conform [of "cr_authorization r"]
  by (cases "cr_displayName r") (simp_all add: ClientView_schema_def view_json_def ClientView_from_def)

lemma register_conform:
  "re_authorization r = GrantsClaim_from a \<Longrightarrow> conforms RegisterClientResponse_schema (drop_nulls (register_json r))"
  using grants_conform [of a]
  by (cases "re_displayName r") (simp_all add: RegisterClientResponse_schema_def register_json_def)

lemma revocation_conform: "conforms Revocation_schema (drop_nulls (revocation_json v))"
  by (cases "rv_reason v") (simp_all add: Revocation_schema_def revocation_json_def)

lemma audit_conform: "conforms AuditEntry_schema (drop_nulls (audit_json e))"
  by (cases "ae_clientId e"; cases "ae_detail e") (simp_all add: AuditEntry_schema_def audit_json_def)

lemma jwk_conform:
  assumes "Jwk_forEd25519 kid k = Inr jwk"
  shows "conforms Jwk_schema (drop_nulls (jwk_json jwk))"
proof -
  from assms obtain raw where "jwk =
      \<lparr>jwk_keyType = Some (js ''OKP''), jwk_curve = Some (js ''Ed25519''),
       jwk_publicKey = Some (Base64Url_encode raw), jwk_use = Some (js ''sig''),
       jwk_algorithm = Some (js ''EdDSA''), jwk_keyId = Some kid\<rparr>"
    unfolding Jwk_forEd25519_def and_then_Inr_iff by blast
  then show ?thesis by (simp add: Jwk_schema_def jwk_json_def)
qed

lemma jwks_conform:
  assumes "SigningKeyService_jwkSet r now s = (Inr jwks, s')"
  shows "conforms JwkSet_schema (drop_nulls (jwks_json jwks))"
proof -
  from assms have "list_all2 (\<lambda>key jwk. and_then (decodePublic (kr_public key)) (Jwk_forEd25519 (kr_kid key)) = Inr jwk)
      (sk_keys (pruneExpiredRetired r now s)) (jwks_keys jwks)"
    by (auto simp: SigningKeyService_jwkSet_def Let_def and_then_Inr_iff mk_JwkSet_def map_throw_Inr_iff comp_def)
  then have "list_all (\<lambda>jwk. conforms Jwk_schema (drop_nulls (jwk_json jwk))) (jwks_keys jwks)"
    by (induction rule: list_all2_induct) (auto simp: and_then_Inr_iff intro: jwk_conform)
  then show ?thesis by (simp add: JwkSet_schema_def jwks_json_def list_all_iff)
qed

lemma token_conform:
  "TokenIssuer_issue ed jx ti now jb k c = Inr issued \<Longrightarrow> conforms TokenResponse_schema (drop_nulls (token_json issued))"
  by (auto simp: TokenIssuer_issue_def and_then_Inr_iff Let_def TokenResponse_schema_def token_json_def)

lemma discovery_conform: "conforms DiscoveryDocument_schema (drop_nulls (discovery_json c))"
  by (simp add: DiscoveryDocument_schema_def discovery_json_def)

section \<open>Responses the contract allows\<close>

text \<open>
  A response of an operation: a documented status, with the documented media type and, for
  JSON, a body written from a document that conforms.
\<close>

definition content_ok :: "json_writer \<Rightarrow> (string \<times> schema) option \<Rightarrow> HttpResponse \<Rightarrow> bool" where
  "content_ok w content resp \<longleftrightarrow>
     (case content of
        None \<Rightarrow> hr_body resp = []
      | Some (media, t) \<Rightarrow>
          takeWhile (\<lambda>c. c \<noteq> 59) (hr_contentType resp) = js media
          \<and> (media = ''application/json'' \<longrightarrow>
               (\<exists>v. w v = Some (hr_body resp) \<and> conforms t (drop_nulls v))))"

definition allowed :: "json_writer \<Rightarrow> operation \<Rightarrow> HttpResponse \<Rightarrow> bool" where
  "allowed w op resp \<longleftrightarrow>
     (\<exists>(status, content) \<in> set (op_responses op). hr_status resp = of_nat status \<and> content_ok w content resp)"

lemma js_media: "takeWhile (\<lambda>c. c \<noteq> 59) (js ''application/json'') = js ''application/json''"
  "takeWhile (\<lambda>c. c \<noteq> 59) (js ''application/yaml'') = js ''application/yaml''"
  "takeWhile (\<lambda>c. c \<noteq> 59) (js ''text/html; charset=utf-8'') = js ''text/html''"
  by (simp_all add: js_def)

lemma returns_json:
  assumes "json_response st t \<in> set (op_responses op)" and "conforms t (drop_nulls v)"
  shows "result_ok (allowed w op) sts (HttpResponse_json w (of_nat st) v)"
proof (cases "w v")
  case None
  then show ?thesis by (simp add: HttpResponse_json_def Json_toBytes_def result_ok_def)
next
  case (Some b)
  have "content_ok w (Some (''application/json'', t))
      \<lparr>hr_status = of_nat st, hr_contentType = js ''application/json'', hr_body = b\<rparr>"
    using Some assms(2) by (auto simp: content_ok_def js_media)
  with Some assms(1) show ?thesis
    by (auto simp: HttpResponse_json_def Json_toBytes_def result_ok_def allowed_def json_response_def
        intro!: bexI [of _ "(st, Some (''application/json'', t))"])
qed

section \<open>The responses of each handler\<close>

lemma returns_free:
  "api_free r \<Longrightarrow> (\<And>x. r = Inr x \<Longrightarrow> returns (result_ok ok sts) (f x))
   \<Longrightarrow> returns (result_ok ok sts) (st_then (st_lift r) f)"
  by (rule returns_then_lift) (auto intro: result_ok_free)

lemma returns_throw:
  "st \<in> sts \<Longrightarrow> returns (result_ok ok sts) (st_lift (Inl (ApiException (of_nat st) er de)))"
  by (simp add: returns_def st_lift_def result_ok_def)

lemma returns_documented:
  assumes "json_response st t \<in> set (op_responses op)" and "conforms t (drop_nulls v)"
  shows "returns (result_ok (allowed w op) sts) (st_lift (HttpResponse_json w (of_nat st) v))"
  by (intro returns_lift returns_json [OF assms])

lemma free_toAuthorization: "api_free (GrantsClaim_toAuthorization c)"
proof -
  have "api_free (mk_Grant k ops)" for k ops
    by (simp add: mk_Grant_def Let_def split: option.split)
  moreover have "api_free (KeyOperation_valueOf n)" for n
    by (simp add: KeyOperation_valueOf_def split: option.split)
  ultimately have "api_free (Group_grant g)" for g
    by (auto simp: Group_grant_def Group_ops_def intro!: api_free_and_then free_map_throw split: option.split)
  moreover have "api_free (mk_Authorization c' gs)" for c' gs
    by (simp add: mk_Authorization_def Let_def split: option.split)
  ultimately show ?thesis
    by (auto simp: GrantsClaim_toAuthorization_def intro!: api_free_and_then free_map_throw split: option.split)
qed

text \<open>The three ways a request is refused before its handler calls the core.\<close>

lemma returns_admin:
  assumes "401 \<in> sts" and "returns (result_ok ok sts) (f ())"
  shows "returns (result_ok ok sts) (st_then (st_lift (handler_requireAdmin sv ctx)) f)"
proof (rule returns_then_lift)
  fix e assume "handler_requireAdmin sv ctx = Inl e"
  then have "e = ApiException (of_nat 401) (js ''unauthorized'') (js ''admin authentication required'')"
    by (simp add: handler_requireAdmin_def requireAdmin_def unauthorized_def split: if_splits)
  then show "result_ok ok sts (Inl e)" using assms(1) by (simp only: result_ok_api imageI)
qed (use assms(2) in simp)

lemma result_parse:
  assumes "400 \<in> sts"
  shows "ctx_parse rd ctx = Inl e \<Longrightarrow> result_ok ok sts (Inl e)"
    "and_then (ctx_parse rd ctx) not_null = Inl e \<Longrightarrow> result_ok ok sts (Inl e)"
    "handler_toAuthorization g = Inl e \<Longrightarrow> result_ok ok sts (Inl e)"
proof -
  have bad: "result_ok ok sts (Inl (badRequest d))" for d
    using result_ok_api [OF imageI [OF assms, of of_nat]] by (simp add: badRequest_def)
  have other: "result_ok ok sts (Inl NullPointerException)" "result_ok ok sts (Inl (UncheckedIOException d))" for d
    by (simp_all add: result_ok_def)
  show "ctx_parse rd ctx = Inl e \<Longrightarrow> result_ok ok sts (Inl e)" for rd :: "byte list \<Rightarrow> 'b option option"
    using bad other
    by (auto simp: ctx_parse_def RequestContext_body_def Json_parse_def and_then_Inl_iff of_option_def
        split: option.splits if_splits)
  then show "and_then (ctx_parse rd ctx) not_null = Inl e \<Longrightarrow> result_ok ok sts (Inl e)"
    using other by (auto simp: and_then_Inl_iff not_null_def of_option_def split: option.splits)
  show "handler_toAuthorization g = Inl e \<Longrightarrow> result_ok ok sts (Inl e)"
    using bad free_toAuthorization [of "the g"]
    by (auto simp: handler_toAuthorization_def intro: result_ok_free split: option.splits sum.splits exn.splits)
qed

lemma token_returns:
  assumes "argon2_free (lb_argon2 lb)" and "json_response 200 TokenResponse_schema \<in> set (op_responses op)"
    and "{400, 401} \<subseteq> sts"
  shows "returns (result_ok (allowed (lb_write lb) op) sts) (handler_token lb sv i ctx)"
proof -
  have no: "returns (result_ok (allowed (lb_write lb) op) sts) (st_lift (Inl invalidClient) :: Idp \<Rightarrow> _)"
    using returns_throw [of 401 sts] assms(3) by (simp add: invalidClient_def)
  have bad: "returns (result_ok (allowed (lb_write lb) op) sts) (st_lift (Inl (ApiException 400 er de)) :: Idp \<Rightarrow> _)" for er de
    using returns_throw [of 400 sts] assms(3) by simp
  have ok: "returns (result_ok (allowed (lb_write lb) op) sts)
      (st_lift (HttpResponse_json (lb_write lb) 200 (token_json issued)) :: Idp \<Rightarrow> _)"
    if "TokenIssuer_issue (lb_ed lb) (lb_jackson lb) (sv_issuer sv) (in_now i 0) (in_bytes i 0) k c = Inr issued"
    for issued k c
    using returns_documented [OF assms(2) token_conform [OF that]] by simp
  show ?thesis
    unfolding handler_token_def Let_def
    by (rule returns_free [OF free_form])
       (auto intro!: returns_if returns_read returns_option no bad ok
          returns_free [OF free_authenticate [OF assms(1)]] returns_free [OF free_issue]
          returns_core [OF free_audit] split: prod.split)
qed

lemma jwks_returns:
  assumes "json_response 200 JwkSet_schema \<in> set (op_responses op)"
  shows "returns (result_ok (allowed (lb_write lb) op) sts) (handler_jwks lb sv i ctx)"
  unfolding handler_jwks_def
proof (rule returns_core [OF free_jwkSet])
  fix jwks s s1
  assume "on_keys (SigningKeyService_jwkSet (retiredKeyRetention (sv_config sv)) (in_now i 0)) s = (Inr jwks, s1)"
  from jwks_conform [OF on_keys_frame [OF this, THEN conjunct2, THEN conjunct2, THEN conjunct2]]
  show "returns (result_ok (allowed (lb_write lb) op) sts) (st_lift (HttpResponse_json (lb_write lb) 200 (jwks_json jwks)))"
    using returns_documented [OF assms] by simp
qed

lemma register_returns:
  assumes "argon2_free (lb_argon2 lb)"
    and "json_response 201 RegisterClientResponse_schema \<in> set (op_responses op)" and "{400, 401} \<subseteq> sts"
  shows "returns (result_ok (allowed (lb_write lb) op) sts) (handler_registerClient lb sv i ctx)"
proof -
  have ok: "returns (result_ok (allowed (lb_write lb) op) sts)
      (st_lift (HttpResponse_json (lb_write lb) 201 (register_json
        \<lparr>re_clientId = c, re_secret = p, re_displayName = d, re_authorization = GrantsClaim_from a, re_createdAt = t\<rparr>))
        :: Idp \<Rightarrow> _)" for c p d a t
    using returns_documented [OF assms(2) register_conform [of "\<lparr>re_clientId = c, re_secret = p,
        re_displayName = d, re_authorization = GrantsClaim_from a, re_createdAt = t\<rparr>" a]] by simp
  show ?thesis
    unfolding handler_registerClient_def Let_def using assms(3)
    by (intro returns_admin returns_then_lift returns_core [OF free_register [OF assms(1)]]
        returns_core [OF free_audit] ok) (auto intro: result_parse)
qed

lemma list_returns:
  assumes "json_response 200 (S_array ClientView_schema) \<in> set (op_responses op)" and "401 \<in> sts"
  shows "returns (result_ok (allowed (lb_write lb) op) sts) (handler_listClients lb sv i ctx)"
proof -
  have "conforms (S_array ClientView_schema) (drop_nulls (JArray (map (\<lambda>r. view_json (ClientView_from r)) rs)))" for rs
    by (simp add: list_all_iff view_conform)
  from returns_documented [OF assms(1) this] show ?thesis
    unfolding handler_listClients_def by (intro returns_admin [OF assms(2)] returns_read) simp
qed

lemma delete_returns:
  assumes "(204, None) \<in> set (op_responses op)" and "{401, 404} \<subseteq> sts"
  shows "returns (result_ok (allowed (lb_write lb) op) sts) (handler_deleteClient lb sv i ctx)"
proof -
  have "allowed (lb_write lb) op HttpResponse_noContent"
    using assms(1) by (auto simp: allowed_def content_ok_def HttpResponse_noContent_def intro!: bexI [of _ "(204, None)"])
  then have ok: "returns (result_ok (allowed (lb_write lb) op) sts) (st_lift (Inr HttpResponse_noContent) :: Idp \<Rightarrow> _)"
    by (intro returns_lift result_ok_Inr)
  have no: "returns (result_ok (allowed (lb_write lb) op) sts) (st_lift (Inl (notFound d)) :: Idp \<Rightarrow> _)" for d
    using returns_throw [of 404 sts] assms(2) by (simp add: notFound_def)
  show ?thesis
    unfolding handler_deleteClient_def using assms(2)
    by (intro returns_admin returns_core [OF free_remove] returns_if returns_core [OF free_audit] ok no) auto
qed

lemma grants_returns:
  assumes "json_response 200 ClientView_schema \<in> set (op_responses op)" and "{400, 401, 404} \<subseteq> sts"
  shows "returns (result_ok (allowed (lb_write lb) op) sts) (handler_setGrants lb sv i ctx)"
proof -
  have no: "returns (result_ok (allowed (lb_write lb) op) sts) (st_lift (Inl (notFound d)) :: Idp \<Rightarrow> _)" for d
    using returns_throw [of 404 sts] assms(2) by (simp add: notFound_def)
  have ok: "returns (result_ok (allowed (lb_write lb) op) sts)
      (st_lift (HttpResponse_json (lb_write lb) 200 (view_json (ClientView_from r))) :: Idp \<Rightarrow> _)" for r
    using returns_documented [OF assms(1) view_conform] by simp
  show ?thesis
    unfolding handler_setGrants_def using assms(2)
    by (intro returns_admin returns_then_lift returns_core [OF free_setAuthorization] returns_option
        returns_core [OF free_audit] ok no) (auto intro: result_parse)
qed

lemma rotate_returns:
  assumes "json_response 200 (S_object [(''activeKid'', S_string)] []) \<in> set (op_responses op)" and "401 \<in> sts"
  shows "returns (result_ok (allowed (lb_write lb) op) sts) (handler_rotateKeys lb sv i ctx)"
proof -
  have "conforms (S_object [(''activeKid'', S_string)] []) (drop_nulls (JObject [(js ''activeKid'', JString k)]))" for k
    by simp
  note ok = returns_documented [OF assms(1) this]
  have free: "api_free (not_null k)" for k :: "'b option"
    by (simp add: not_null_def api_free_option)
  show ?thesis
    unfolding handler_rotateKeys_def
    by (intro returns_admin [OF assms(2)] returns_core [OF free_rotate] returns_core [OF free_audit]
        returns_free [OF free]) (use ok in simp)
qed

lemma revoke_returns:
  assumes "json_response 201 Revocation_schema \<in> set (op_responses op)" and "{400, 401} \<subseteq> sts"
  shows "returns (result_ok (allowed (lb_write lb) op) sts) (handler_revoke lb sv i ctx)"
proof -
  have bad: "returns (result_ok (allowed (lb_write lb) op) sts) (st_lift (Inl (badRequest d)) :: Idp \<Rightarrow> _)" for d
    using returns_throw [of 400 sts] assms(2) by (simp add: badRequest_def)
  have ok: "returns (result_ok (allowed (lb_write lb) op) sts)
      (st_lift (HttpResponse_json (lb_write lb) 201 (revocation_json v)) :: Idp \<Rightarrow> _)" for v
    using returns_documented [OF assms(1) revocation_conform] by simp
  show ?thesis
    unfolding handler_revoke_def Let_def using assms(2)
    by (intro returns_admin returns_then_lift returns_if returns_core [OF free_revoke]
        returns_core [OF free_audit] ok bad) (auto intro: result_parse)
qed

lemma denylist_returns:
  assumes "json_response 200 (S_array Revocation_schema) \<in> set (op_responses op)" and "401 \<in> sts"
  shows "returns (result_ok (allowed (lb_write lb) op) sts) (handler_listRevocations lb sv i ctx)"
proof -
  have "conforms (S_array Revocation_schema) (drop_nulls (JArray (map revocation_json es)))" for es
    by (simp add: list_all_iff revocation_conform)
  from returns_documented [OF assms(1) this] show ?thesis
    unfolding handler_listRevocations_def
    by (intro returns_admin [OF assms(2)] returns_core [OF free_denylist]) simp
qed

lemma log_returns:
  assumes "json_response 200 (S_array AuditEntry_schema) \<in> set (op_responses op)" and "401 \<in> sts"
  shows "returns (result_ok (allowed (lb_write lb) op) sts) (handler_auditLog lb sv i ctx)"
proof -
  have "conforms (S_array AuditEntry_schema) (drop_nulls (JArray (map audit_json es)))" for es
    by (simp add: list_all_iff audit_conform)
  from returns_documented [OF assms(1) this] show ?thesis
    unfolding handler_auditLog_def by (intro returns_admin [OF assms(2)] returns_read) simp
qed

section \<open>The table of operations\<close>

definition error_statuses :: "operation \<Rightarrow> nat set" where
  "error_statuses op = set (map fst (filter (\<lambda>(st, content). st \<ge> 400) (op_responses op)))"

text \<open>The status the handlers use without a word in the document.\<close>

definition undocumented :: "Endpoint \<Rightarrow> nat set" where
  "undocumented e = (if e \<in> {ERegisterClient, ESetGrants} then {400} else {})"

text \<open>The operations in the order of the routes; the two Swagger UI files are not documented.\<close>

lemma operations_of_routes:
  "map operation_of ApiHandlers_router
   = map Some (take 7 openapi_paths) @ [None, None] @ map Some (drop 7 openapi_paths)"
  by (simp add: operation_of_def documents_def contract_defs upper_methods route_splits)

lemma undocumented_routes:
  "r \<in> set ApiHandlers_router \<Longrightarrow> operation_of r = None \<Longrightarrow> ro_handler r \<in> {EAssetCss, EAssetJs}"
  using operations_of_routes
  by (auto simp: ApiHandlers_router_def openapi_paths_def) (simp_all add: Router_route_def)

lemma route_operation:
  assumes "r \<in> set ApiHandlers_router" and "operation_of r = Some op"
  shows "(ro_handler r, op) \<in> set (zip
    [EToken, EJwks, EDiscovery, EHealth, EOpenApiYaml, EOpenApiJson, EDocs, ERegisterClient, EListClients,
     EDeleteClient, ESetGrants, ERotateKeys, ERevoke, EListRevocations, EAuditLog] openapi_paths)"
proof -
  have "(ro_handler r, Some op) \<in> set (zip (map ro_handler ApiHandlers_router) (map operation_of ApiHandlers_router))"
    using assms by (force simp: zip_map_map zip_same_conv_map)
  then show ?thesis
    unfolding operations_of_routes by (simp add: ApiHandlers_router_def Router_route_def openapi_paths_def)
qed

text \<open>What is assumed of the OpenAPI resource: that it is a mapping, as JSON was written from it.\<close>

definition spec_ok :: "json_writer \<Rightarrow> server \<Rightarrow> bool" where
  "spec_ok w sv \<longleftrightarrow> (\<exists>ms. w (JObject ms) = Some (od_json (sv_openApi sv)))"

lemma static_returns:
  assumes "json_response 200 (S_object [] []) \<in> set (op_responses op)" and "spec_ok (lb_write lb) sv"
  shows "returns (result_ok (allowed (lb_write lb) op) sts) (handler_openApiJson sv)"
proof -
  obtain ms where "lb_write lb (JObject ms) = Some (od_json (sv_openApi sv))"
    using assms(2) by (auto simp: spec_ok_def)
  then have "content_ok (lb_write lb) (Some (''application/json'', S_object [] []))
      (HttpResponse_raw 200 (js ''application/json'') (od_json (sv_openApi sv)))"
    by (auto simp: content_ok_def HttpResponse_raw_def js_media intro!: exI [of _ "JObject ms"])
  then show ?thesis
    using assms(1) unfolding handler_openApiJson_def
    by (intro returns_lift result_ok_Inr)
       (auto simp: allowed_def json_response_def HttpResponse_raw_def
         intro!: bexI [of _ "(200, Some (''application/json'', S_object [] []))"])
qed

lemma text_returns:
  "(200, Some (''application/yaml'', S_string)) \<in> set (op_responses op) \<Longrightarrow>
     returns (result_ok (allowed (lb_write lb) op) sts) (handler_openApiYaml sv)"
  "(200, Some (''text/html'', S_string)) \<in> set (op_responses op) \<Longrightarrow>
     returns (result_ok (allowed (lb_write lb) op) sts) handler_docs"
  unfolding handler_openApiYaml_def handler_docs_def
  by (rule returns_lift, rule result_ok_Inr,
      force simp: allowed_def content_ok_def HttpResponse_raw_def HttpResponse_text_def js_media)+

lemma meta_returns:
  "json_response 200 DiscoveryDocument_schema \<in> set (op_responses op) \<Longrightarrow>
     returns (result_ok (allowed (lb_write lb) op) sts) (handler_discovery lb sv i ctx)"
  "json_response 200 (S_object [(''status'', S_enum [''ok''])] []) \<in> set (op_responses op) \<Longrightarrow>
     returns (result_ok (allowed (lb_write lb) op) sts) (handler_health lb sv i ctx)"
  using returns_documented [of 200 DiscoveryDocument_schema op "discovery_json (sv_config sv)" "lb_write lb" sts,
      OF _ discovery_conform]
    returns_documented [of 200 "S_object [(''status'', S_enum [''ok''])] []" op
      "JObject [(js ''status'', JString (js ''ok''))]" "lb_write lb" sts]
  by (simp_all add: handler_discovery_def handler_health_def)

lemma endpoint_returns:
  assumes "r \<in> set ApiHandlers_router" and "operation_of r = Some op"
    and "argon2_free (lb_argon2 lb)" and "spec_ok (lb_write lb) sv"
  shows "returns (result_ok (allowed (lb_write lb) op) (error_statuses op \<union> undocumented (ro_handler r)))
           (run_endpoint lb sv i (ro_handler r) ctx)"
proof -
  have in1: "x \<in> set (x # xs)" and in2: "x \<in> set xs \<Longrightarrow> x \<in> set (y # xs)" for x y :: response and xs
    by simp_all
  note rules = token_returns [OF assms(3)] jwks_returns register_returns [OF assms(3)] list_returns delete_returns
      grants_returns rotate_returns revoke_returns denylist_returns log_returns meta_returns text_returns
      static_returns [OF _ assms(4)]
  show ?thesis
    using route_operation [OF assms(1,2)]
    by (simp only: openapi_paths_def zip_Cons_Cons zip_Nil set_simps insert_iff empty_iff prod.inject simp_thms)
       (elim disjE conjE; clarsimp; intro rules;
        simp add: json_response_def public_get_def admin_operation_def error_statuses_def undocumented_def)
qed

section \<open>The responses of a request\<close>

text \<open>The error body of the router.\<close>

definition error_json :: "jstring \<Rightarrow> jstring \<Rightarrow> json" where
  "error_json er de = JObject [(js ''error'', JString er), (js ''error_description'', JString de)]"

definition error_response :: "json_writer \<Rightarrow> nat set \<Rightarrow> HttpResponse \<Rightarrow> bool" where
  "error_response w sts resp \<longleftrightarrow> hr_status resp \<in> of_nat ` sts \<and> hr_contentType resp = js ''application/json''
     \<and> (\<exists>er de. w (error_json er de) = Some (hr_body resp))"

lemma error_conforms: "conforms Error_schema (error_json er de)"
  by (simp add: Error_schema_def error_json_def)

lemma errorResponse_Inr:
  assumes "errorResponse w st er de = Inr resp" and "st \<in> of_nat ` sts"
  shows "error_response w sts resp"
proof -
  from assms(1) have "w (error_json er de) = Some (hr_body resp)" "hr_status resp = st"
    "hr_contentType resp = js ''application/json''"
    by (auto simp: errorResponse_def HttpResponse_json_def Json_toBytes_def and_then_Inr_iff error_json_def)
  with assms(2) show ?thesis unfolding error_response_def by blast
qed

lemma errorResponse_total:
  "w (error_json er de) = Some b \<Longrightarrow> \<exists>resp. errorResponse w st er de = Inr resp"
  by (simp add: errorResponse_def HttpResponse_json_def Json_toBytes_def error_json_def)

lemma documented_error:
  assumes "op \<in> set openapi_paths" and "error_response w (error_statuses op) resp"
  shows "allowed w op resp"
proof -
  from assms(2) obtain st er de where st: "st \<in> error_statuses op" "hr_status resp = of_nat st"
    "hr_contentType resp = js ''application/json''" "w (error_json er de) = Some (hr_body resp)"
    by (auto simp: error_response_def)
  have "list_all (\<lambda>op. list_all (\<lambda>(st, c). st < 400 \<or> c = Some (''application/json'', Error_schema))
      (op_responses op)) openapi_paths"
    by (simp add: openapi_paths_def public_get_def admin_operation_def json_response_def)
  with assms(1) st(1) have "(st, Some (''application/json'', Error_schema)) \<in> set (op_responses op)"
    by (fastforce simp: list_all_iff error_statuses_def)
  moreover have "drop_nulls (error_json er de) = error_json er de" by (simp add: error_json_def)
  ultimately show ?thesis
    using st(2-4) error_conforms [of er de]
    by (auto simp: allowed_def content_ok_def js_media intro!: bexI [of _ "(st, Some (''application/json'', Error_schema))"]
        exI [of _ "error_json er de"])
qed

lemma handle_response:
  assumes "argon2_free (lb_argon2 lb)" and "spec_ok (lb_write lb) sv"
    and "Idp_handle lb sv i req s = (Inr resp, s')"
  shows "error_response (lb_write lb) {404, 405} resp
     \<and> \<not> list_ex (\<lambda>r. route_matches r (Router_split (rq_path req)) \<and> ro_method r = rq_method req) ApiHandlers_router
   \<or> (\<exists>r \<in> set ApiHandlers_router. route_matches r (Router_split (rq_path req)) \<and> ro_method r = rq_method req
        \<and> (case operation_of r of
             None \<Rightarrow> hr_status resp = 200 \<or> error_response (lb_write lb) {500} resp
           | Some op \<Rightarrow> allowed (lb_write lb) op resp
               \<or> error_response (lb_write lb) (undocumented (ro_handler r) \<union> {500}) resp))"
  using assms(3)
proof (cases rule: Idp_handle_cases)
  case (nothing st er de)
  note n = this
  have "of_nat ` {404, 405 :: nat} = {404, 405 :: jint}" by simp
  with n(2,3) have "error_response (lb_write lb) {404, 405} resp" by (auto intro: errorResponse_Inr)
  with n(4) show ?thesis by (auto simp: find_None_iff list_ex_iff)
next
  case (endpoint r params res)
  note n = this
  have api: "error_response (lb_write lb) sts resp" if "res = Inl (ApiException st er de)" "st \<in> of_nat ` sts" for st er de sts
    using n(6) that by (auto intro: errorResponse_Inr)
  have other: "error_response (lb_write lb) {500} resp" if "res = Inl e" "api_free res" for e
    using n(6) that errorResponse_Inr [of "lb_write lb" 500 _ _ resp "{500}"] by (cases e) auto
  have run: "run_endpoint lb sv i (ro_handler r) \<lparr>rc_request = req, rc_pathParams = params\<rparr> s = (res, s')"
    by (rule n(4))
  have "case operation_of r of
          None \<Rightarrow> hr_status resp = 200 \<or> error_response (lb_write lb) {500} resp
        | Some op \<Rightarrow> allowed (lb_write lb) op resp
            \<or> error_response (lb_write lb) (undocumented (ro_handler r) \<union> {500}) resp"
  proof (cases "operation_of r")
    case None
    then have "ro_handler r \<in> {EAssetCss, EAssetJs}" by (rule undocumented_routes [OF n(1)])
    then have "returns (\<lambda>res. api_free res \<and> (\<forall>resp. res = Inr resp \<longrightarrow> hr_status resp = 200))
        (run_endpoint lb sv i (ro_handler r) \<lparr>rc_request = req, rc_pathParams = params\<rparr>)"
      by (auto simp: handler_asset_def HttpResponse_raw_def and_then_Inr_iff free_resource
          intro!: returns_lift api_free_and_then)
    from returnsD [OF this run] n(6) other None show ?thesis by (cases res) auto
  next
    case (Some op)
    have op: "op \<in> set openapi_paths" using Some by (auto simp: operation_of_def find_Some_iff)
    note ok = returnsD [OF endpoint_returns [OF n(1) Some assms(1,2)] run]
    show ?thesis
    proof (cases res)
      case (Inr x)
      with n(6) ok Some show ?thesis by (simp add: result_ok_def)
    next
      case (Inl e)
      show ?thesis
      proof (cases "api_free res")
        case True
        from other [OF Inl True] Some show ?thesis by (auto simp: error_response_def)
      next
        case False
        with Inl obtain st er de where e: "res = Inl (ApiException st er de)" by (cases e) auto
        with ok have "st \<in> of_nat ` error_statuses op \<or> st \<in> of_nat ` undocumented (ro_handler r)"
          by (auto simp: result_ok_def)
        then show ?thesis
        proof
          assume "st \<in> of_nat ` error_statuses op"
          with documented_error [OF op api [OF e]] Some show ?thesis by simp
        next
          assume "st \<in> of_nat ` undocumented (ro_handler r)"
          then have "st \<in> of_nat ` (undocumented (ro_handler r) \<union> {500})" by blast
          from api [OF e this] Some show ?thesis by simp
        qed
      qed
    qed
  qed
  with n(1-3) show ?thesis by blast
qed

text \<open>The router always ends with a response, if only the one for an unexpected error.\<close>

lemma answered:
  assumes "\<And>er de. lb_write lb (error_json er de) \<noteq> None"
  shows "\<exists>resp s'. Idp_handle lb sv i req s = (Inr resp, s')"
proof -
  have err: "\<exists>resp. errorResponse (lb_write lb) st er de = Inr resp" for st er de
    using assms errorResponse_total by blast
  obtain r s' where r: "Idp_handle lb sv i req s = (r, s')" by (rule prod.exhaust)
  then have "\<exists>resp. r = Inr resp"
  proof (cases rule: Idp_handle_cases)
    case (nothing st er de)
    with err show ?thesis by simp
  next
    case (endpoint route params res)
    with err show ?thesis by (auto split: sum.split exn.split)
  qed
  with r show ?thesis by blast
qed

lemma allowed_status:
  assumes "operation_of r = Some op" and "allowed w op resp"
  shows "hr_status resp \<in> {200, 201, 204, 400, 401, 404}"
proof -
  have "list_all (\<lambda>op. list_all (\<lambda>(st, c). st \<in> {200, 201, 204, 400, 401, 404}) (op_responses op)) openapi_paths"
    by (simp add: openapi_paths_def public_get_def admin_operation_def json_response_def)
  moreover have "op \<in> set openapi_paths" using assms(1) by (auto simp: operation_of_def find_Some_iff)
  moreover obtain st c where "(st, c) \<in> set (op_responses op)" "hr_status resp = of_nat st"
    using assms(2) by (auto simp: allowed_def)
  ultimately show ?thesis by (fastforce simp: list_all_iff)
qed

lemma empty_body:
  "rq_body (rc_request ctx) = Some [] \<Longrightarrow>
     ctx_parse rd ctx = Inl (ApiException 400 (js ''invalid_request'') (js ''request body is required''))"
  by (simp add: ctx_parse_def RequestContext_body_def Json_parse_def badRequest_def)

section \<open>The documented operations\<close>

text \<open>A method and a path ask for an operation when the path is an instance of its template.\<close>

definition asks_for :: "operation \<Rightarrow> jstring \<Rightarrow> jstring \<Rightarrow> bool" where
  "asks_for op meth path \<longleftrightarrow> meth = js (upper (op_method op))
     \<and> list_all2 (\<lambda>p a. is_variable p \<or> p = a) (Router_split (js (op_path op))) (Router_split path)"

text \<open>
  What the security scheme of an operation asks of its handler: an admin operation answers
  every request without a valid admin token with \<open>unauthorized\<close> and changes nothing; what a
  public one does is the same whatever the admin token of the server is.
\<close>

definition token_required :: "Endpoint \<Rightarrow> bool" where
  "token_required e \<longleftrightarrow> (\<forall>lb sv i ctx s. \<not> isValid (sv_admin sv) (ctx_header ctx ''Authorization'') \<longrightarrow>
     run_endpoint lb sv i e ctx s = (Inl unauthorized, s))"

definition token_unused :: "Endpoint \<Rightarrow> bool" where
  "token_unused e \<longleftrightarrow> (\<forall>lb sv i ctx s admin.
     run_endpoint lb (sv\<lparr>sv_admin := admin\<rparr>) i e ctx s = run_endpoint lb sv i e ctx s)"

lemma admin_endpoint_required: "admin_endpoint e \<Longrightarrow> token_required e"
  by (simp add: token_required_def admin_endpoint_guard)

lemma public_endpoint_unused: "\<not> admin_endpoint e \<Longrightarrow> token_unused e"
  by (cases e) (simp_all add: token_unused_def admin_endpoint_def handler_defs
      cong del: if_weak_cong prod.case_cong_weak option.case_cong_weak)

text \<open>Two routes that no method and path can both match.\<close>

definition routes_apart :: "'h Route \<Rightarrow> 'h Route \<Rightarrow> bool" where
  "routes_apart r q \<longleftrightarrow> ro_method r \<noteq> ro_method q \<or> length (ro_segments r) \<noteq> length (ro_segments q)
     \<or> list_ex (\<lambda>(a, b). \<not> is_variable a \<and> \<not> is_variable b \<and> a \<noteq> b) (zip (ro_segments r) (ro_segments q))"

lemma routes_apart_disjoint:
  assumes "routes_apart r q" and "route_matches r segs" and "route_matches q segs"
  shows "ro_method r \<noteq> ro_method q"
proof
  assume "ro_method r = ro_method q"
  moreover have "length (ro_segments r) = length (ro_segments q)"
    using assms(2,3) by (simp add: route_matches_def list_all2_conv_all_nth)
  ultimately obtain n where n: "n < length (ro_segments r)" "\<not> is_variable (ro_segments r ! n)"
    "\<not> is_variable (ro_segments q ! n)" "ro_segments r ! n \<noteq> ro_segments q ! n"
    using assms(1) by (auto simp: routes_apart_def list_ex_iff set_zip)
  from n(1-3) assms(2,3) have "ro_segments r ! n = segs ! n" "ro_segments q ! n = segs ! n"
    by (auto simp: route_matches_def list_all2_conv_all_nth)
  with n(4) show False by simp
qed

lemma routes_disjoint:
  assumes "r \<in> set ApiHandlers_router" and "q \<in> set ApiHandlers_router"
    and "route_matches r segs" and "route_matches q segs" and "ro_method r = ro_method q"
  shows "r = q"
proof -
  have "list_all (\<lambda>r. list_all (\<lambda>q. ro_handler r = ro_handler q \<or> routes_apart r q)
      ApiHandlers_router) ApiHandlers_router"
    by code_simp
  with assms have "ro_handler r = ro_handler q"
    unfolding list_all_iff using routes_apart_disjoint by blast
  moreover have "distinct (map ro_handler ApiHandlers_router)"
    by (simp add: ApiHandlers_router_def Router_route_def)
  ultimately show ?thesis
    using assms(1,2) by (auto simp: distinct_map dest: inj_onD)
qed

text \<open>The two tables list the same methods and patterns.\<close>

lemma operation_route:
  "(\<exists>op \<in> set openapi_paths. js (upper (op_method op)) = m \<and> Router_split (js (op_path op)) = ps \<and> op_admin op = a)
   \<longleftrightarrow> (\<exists>r \<in> set ApiHandlers_router. ro_handler r \<notin> {EAssetCss, EAssetJs} \<and> ro_method r = m
        \<and> ro_segments r = ps \<and> admin_endpoint (ro_handler r) = a)"
proof -
  have "(m, ps, a) \<in> set (map (\<lambda>op. (js (upper (op_method op)), Router_split (js (op_path op)), op_admin op)) openapi_paths)
      \<longleftrightarrow> (m, ps, a) \<in> set (map (\<lambda>r. (ro_method r, ro_segments r, admin_endpoint (ro_handler r)))
       (filter (\<lambda>r. ro_handler r \<notin> {EAssetCss, EAssetJs}) ApiHandlers_router))"
    by (simp only: operations_routes)
  then show ?thesis by auto
qed

section \<open>Properties\<close>

text \<open>
  C16. The router serves the documented operations, and only those. A request whose method and
  path ask for an operation of the OpenAPI document reaches a handler, with the path
  parameters of the documented template; for an operation with the admin security scheme that
  handler answers everything that comes without a valid admin token with \<open>unauthorized\<close>, the
  state unchanged, and for a public operation what it does does not depend on the admin token
  at all. A request that reaches any handler asks for a documented operation, or for one of the
  two Swagger UI files.
\<close>

theorem documented_routes_exact:
  "(\<forall>op \<in> set openapi_paths. asks_for op meth path \<longrightarrow>
      (\<exists>h params. Router_dispatch ApiHandlers_router meth path = Inr (h, params)
         \<and> Router_match (Router_split (js (op_path op))) (Router_split path) = Some params
         \<and> (if op_admin op then token_required h else token_unused h)))
   \<and> (\<forall>h params. Router_dispatch ApiHandlers_router meth path = Inr (h, params) \<longrightarrow>
      h \<in> {EAssetCss, EAssetJs} \<or> (\<exists>op \<in> set openapi_paths. asks_for op meth path))"
proof (intro conjI ballI allI impI)
  fix op assume op: "op \<in> set openapi_paths" "asks_for op meth path"
  from op(1) operation_route [of "js (upper (op_method op))" "Router_split (js (op_path op))" "op_admin op"]
  obtain r where r: "r \<in> set ApiHandlers_router" "ro_method r = js (upper (op_method op))"
    "ro_segments r = Router_split (js (op_path op))" "admin_endpoint (ro_handler r) = op_admin op"
    by blast
  with op(2) have m: "route_matches r (Router_split path)" "ro_method r = meth"
    by (simp_all add: asks_for_def route_matches_def)
  obtain q where q: "find (\<lambda>r. route_matches r (Router_split path) \<and> ro_method r = meth) ApiHandlers_router = Some q"
    using r(1) m by (cases "find (\<lambda>r. route_matches r (Router_split path) \<and> ro_method r = meth) ApiHandlers_router")
      (auto simp: find_None_iff)
  then have "q \<in> set ApiHandlers_router" "route_matches q (Router_split path)" "ro_method q = meth"
    by (auto simp: find_Some_iff)
  with routes_disjoint [OF r(1) _ m(1)] m(2) have "q = r" by simp
  moreover obtain params where "Router_match (ro_segments r) (Router_split path) = Some params"
    using m(1) Router_match_iff by blast
  ultimately have "Router_dispatch ApiHandlers_router meth path = Inr (ro_handler r, params)"
    and "Router_match (Router_split (js (op_path op))) (Router_split path) = Some params"
    using q r(3) by (simp_all add: dispatch_first_match)
  then show "\<exists>h params. Router_dispatch ApiHandlers_router meth path = Inr (h, params)
      \<and> Router_match (Router_split (js (op_path op))) (Router_split path) = Some params
      \<and> (if op_admin op then token_required h else token_unused h)"
    using r(4) admin_endpoint_required public_endpoint_unused by (auto split: if_splits)
next
  fix h params assume "Router_dispatch ApiHandlers_router meth path = Inr (h, params)"
  then obtain r where r: "r \<in> set ApiHandlers_router" "route_matches r (Router_split path)"
    "ro_method r = meth" "h = ro_handler r"
    by (auto simp: dispatch_first_match find_Some_iff intro: nth_mem split: option.splits if_splits)
  show "h \<in> {EAssetCss, EAssetJs} \<or> (\<exists>op \<in> set openapi_paths. asks_for op meth path)"
  proof (rule disjCI)
    assume no: "\<not> (\<exists>op \<in> set openapi_paths. asks_for op meth path)"
    from r(2,3) have "\<not> (\<exists>op \<in> set openapi_paths. js (upper (op_method op)) = ro_method r
        \<and> Router_split (js (op_path op)) = ro_segments r \<and> op_admin op = admin_endpoint (ro_handler r))"
      using no by (auto simp: asks_for_def route_matches_def)
    with r(1) show "h \<in> {EAssetCss, EAssetJs}" unfolding operation_route r(4) by blast
  qed
qed


theorem documented_routes_exact_witness:
  "\<exists>h params. Router_dispatch ApiHandlers_router (js ''DELETE'') (js ''/admin/clients/client_a'') = Inr (h, params)
     \<and> params (js ''id'') = Some (js ''client_a'') \<and> token_required h"
proof -
  let ?op = "admin_operation ''/admin/clients/{id}'' ''delete''
    [(204, None), json_response 401 Error_schema, json_response 404 Error_schema]"
  have split: "Router_split (js ''/admin/clients/client_a'') = [js ''admin'', js ''clients'', js ''client_a'']"
    by code_simp
  have var: "is_variable (js ''{id}'')" "\<not> is_variable (js ''admin'')" "\<not> is_variable (js ''clients'')"
    "variable_name (js ''{id}'') = js ''id''"
    by code_simp+
  have "?op \<in> set openapi_paths" by (simp add: openapi_paths_def)
  moreover have "asks_for ?op (js ''DELETE'') (js ''/admin/clients/client_a'')"
    by (simp add: asks_for_def admin_operation_def upper_methods route_splits split var)
  ultimately obtain h params where
    "Router_dispatch ApiHandlers_router (js ''DELETE'') (js ''/admin/clients/client_a'') = Inr (h, params)"
    "Router_match (Router_split (js (op_path ?op))) (Router_split (js ''/admin/clients/client_a'')) = Some params"
    "if op_admin ?op then token_required h else token_unused h"
    using documented_routes_exact [of "js ''DELETE''" "js ''/admin/clients/client_a''"] by blast
  then show ?thesis
    by (auto simp: admin_operation_def route_splits split Router_match_def var)
qed

text \<open>
  The page at \<open>/docs\<close> works without any other server: every path it names, and it names
  three, is served by a public route of this one.
\<close>

lemma docs_page_served:
  "map (\<lambda>p. Router_dispatch ApiHandlers_router (js ''GET'') (js p)) page_paths
   = [Inr (EAssetCss, \<lambda>_. None), Inr (EAssetJs, \<lambda>_. None), Inr (EOpenApiYaml, \<lambda>_. None)]"
  by (simp add: page_paths_eq Router_dispatch_def ApiHandlers_router_def Router_route_def route_splits
      Router_match_def)

text \<open>
  C13. Every response is one the contract describes: the status, media type and body of the
  answer to any request are those of a documented response of the operation that serves it, a
  JSON body conforming to its schema once null members are read as absent. The exceptions are
  listed: an error body with 404 or 405 where no route matches, with 500 anywhere, with 400 from
  the two operations that do not document it, and the Swagger UI files, which have no operation.
\<close>

theorem response_documented:
  assumes "argon2_free (lb_argon2 lb)" and "spec_ok (lb_write lb) sv"
    and "Idp_handle lb sv i req s = (Inr resp, s')"
  shows "error_response (lb_write lb) {404, 405} resp
     \<and> \<not> list_ex (\<lambda>r. route_matches r (Router_split (rq_path req)) \<and> ro_method r = rq_method req) ApiHandlers_router
   \<or> (\<exists>r \<in> set ApiHandlers_router. route_matches r (Router_split (rq_path req)) \<and> ro_method r = rq_method req
        \<and> (case operation_of r of
             None \<Rightarrow> hr_status resp = 200 \<or> error_response (lb_write lb) {500} resp
           | Some op \<Rightarrow> allowed (lb_write lb) op resp
               \<or> error_response (lb_write lb) (undocumented (ro_handler r) \<union> {500}) resp))"
  by (rule handle_response [OF assms])

lemma demo_argon2_free: "argon2_free (lb_argon2 demo_libs)"
  by (simp add: argon2_free_def demo_libs_def demo_argon2_def)

lemma demo_spec_ok: "spec_ok (lb_write demo_libs) demo_server"
  by (auto simp: spec_ok_def demo_libs_def demo_server_def)

lemma demo_writer: "lb_write demo_libs v \<noteq> None"
  by (simp add: demo_libs_def)

theorem response_documented_witness:
  "\<exists>resp s'. Idp_handle demo_libs demo_server demo_inputs (demo_request ''GET'' ''/health'' None []) demo_idp = (Inr resp, s')
     \<and> (error_response (lb_write demo_libs) {404, 405} resp
     \<and> \<not> list_ex (\<lambda>r. route_matches r (Router_split (js ''/health'')) \<and> ro_method r = js ''GET'') ApiHandlers_router
   \<or> (\<exists>r \<in> set ApiHandlers_router. route_matches r (Router_split (js ''/health'')) \<and> ro_method r = js ''GET''
        \<and> (case operation_of r of
             None \<Rightarrow> hr_status resp = 200 \<or> error_response (lb_write demo_libs) {500} resp
           | Some op \<Rightarrow> allowed (lb_write demo_libs) op resp
               \<or> error_response (lb_write demo_libs) (undocumented (ro_handler r) \<union> {500}) resp)))"
proof -
  obtain resp s' where r: "Idp_handle demo_libs demo_server demo_inputs (demo_request ''GET'' ''/health'' None []) demo_idp
      = (Inr resp, s')"
    using answered [of demo_libs, OF demo_writer] by blast
  from response_documented [OF demo_argon2_free demo_spec_ok r] r show ?thesis by (auto simp: demo_request_def)
qed

text \<open>
  C14. Every request is answered: whatever is asked and whatever a handler throws, the router
  ends with a response, with one of eight statuses, as long as the JSON writer can write an
  error body.
\<close>

theorem every_request_answered:
  assumes "argon2_free (lb_argon2 lb)" and "spec_ok (lb_write lb) sv"
    and "\<And>er de. lb_write lb (error_json er de) \<noteq> None"
  shows "\<exists>resp. fst (Idp_handle lb sv i req s) = Inr resp
     \<and> hr_status resp \<in> {200, 201, 204, 400, 401, 404, 405, 500}"
proof -
  obtain resp s' where r: "Idp_handle lb sv i req s = (Inr resp, s')"
    using answered [OF assms(3)] by blast
  from handle_response [OF assms(1,2) r] have "hr_status resp \<in> {200, 201, 204, 400, 401, 404, 405, 500}"
    by (auto simp: error_response_def undocumented_def split: option.splits if_splits dest: allowed_status)
  with r show ?thesis by simp
qed

theorem every_request_answered_witness:
  "\<exists>resp. fst (Idp_handle demo_libs demo_server demo_inputs (demo_request ''PATCH'' ''/nowhere'' None []) demo_idp) = Inr resp
     \<and> hr_status resp \<in> {200, 201, 204, 400, 401, 404, 405, 500}"
  by (rule every_request_answered [OF demo_argon2_free demo_spec_ok demo_writer])

text \<open>
  Where the documents depart from the contract as it is written: the schemas give the
  optional members a type that \<open>null\<close> does not have, and only \<open>ClientView\<close> leaves them out. A
  revocation conforms exactly if it has a reason, an audit entry exactly if it has a client and
  a detail, a registration exactly if the client has a display name.
\<close>

lemma null_members_conform_iff:
  "(conforms Revocation_schema (revocation_json v) \<longleftrightarrow> rv_reason v \<noteq> None)
   \<and> (conforms AuditEntry_schema (audit_json e) \<longleftrightarrow> ae_clientId e \<noteq> None \<and> ae_detail e \<noteq> None)
   \<and> (conforms RegisterClientResponse_schema (register_json
        \<lparr>re_clientId = c, re_secret = p, re_displayName = d, re_authorization = GrantsClaim_from a,
         re_createdAt = t\<rparr>) \<longleftrightarrow> d \<noteq> None)"
  using grants_conform [of a]
  by (cases "rv_reason v"; cases "ae_clientId e"; cases "ae_detail e"; cases d)
     (simp_all add: Revocation_schema_def revocation_json_def AuditEntry_schema_def audit_json_def
        RegisterClientResponse_schema_def register_json_def grants_no_nulls)

text \<open>
  The error the contract leaves out: an administrator who registers a client or sets grants
  with an empty body is answered 400 and nothing changes, but neither operation documents 400.
\<close>

lemma empty_body_undocumented:
  assumes "r \<in> set ApiHandlers_router" and "ro_handler r \<in> {ERegisterClient, ESetGrants}"
    and "operation_of r = Some op"
    and "isValid (sv_admin sv) (ctx_header ctx ''Authorization'')" and "rq_body (rc_request ctx) = Some []"
  shows "run_endpoint lb sv i (ro_handler r) ctx s
       = (Inl (ApiException 400 (js ''invalid_request'') (js ''request body is required'')), s)
     \<and> 400 \<notin> fst ` set (op_responses op)"
proof
  show "run_endpoint lb sv i (ro_handler r) ctx s
      = (Inl (ApiException 400 (js ''invalid_request'') (js ''request body is required'')), s)"
    using assms(2,4)
    by (auto simp: empty_body [OF assms(5)] handler_registerClient_def handler_setGrants_def handler_requireAdmin_def requireAdmin_def)
  show "400 \<notin> fst ` set (op_responses op)"
    using route_operation [OF assms(1,3)] assms(2)
    by (auto simp: openapi_paths_def admin_operation_def json_response_def)
qed

lemma empty_body_undocumented_example:
  "run_endpoint demo_libs demo_server demo_inputs ERegisterClient
     \<lparr>rc_request = demo_request ''POST'' ''/admin/clients'' (Some (js ''Bearer s3cret'')) [],
      rc_pathParams = (\<lambda>_. None)\<rparr> demo_idp
   = (Inl (ApiException 400 (js ''invalid_request'') (js ''request body is required'')), demo_idp)"
proof -
  let ?ctx = "\<lparr>rc_request = demo_request ''POST'' ''/admin/clients'' (Some (js ''Bearer s3cret'')) [],
      rc_pathParams = (\<lambda>_. None)\<rparr>"
  let ?r = "Router_route ''POST'' ''/admin/clients'' ERegisterClient"
  have r: "?r \<in> set ApiHandlers_router" by (simp add: ApiHandlers_router_def)
  moreover have "ro_handler ?r = ERegisterClient" by (simp add: Router_route_def)
  moreover obtain op where "operation_of ?r = Some op"
    using undocumented_routes [OF r] by (cases "operation_of ?r") (auto simp: Router_route_def)
  moreover have "isValid (sv_admin demo_server) (ctx_header ?ctx ''Authorization'')"
    using demo_admin by (simp add: ctx_header_def demo_request_def)
  moreover have "rq_body (rc_request ?ctx) = Some []" by (simp add: demo_request_def)
  ultimately show ?thesis
    using empty_body_undocumented [of ?r op demo_server ?ctx demo_libs demo_inputs demo_idp] by simp
qed

end
