(* ===== verification/Exchange.thy ===== *)
theory Exchange
  imports Contract
begin

text \<open>
  The end of \<open>http/Router.java\<close>: \<open>write\<close> sends a response over the exchange of the JDK's server,
  and \<open>handle\<close> is the whole of what happens to a connection. Every call on the exchange may
  fail; the lemmas compare what a client can read with the response the handler made. What the
  JDK's server does differently for a \<open>HEAD\<close> request (it sends no body) is left out; no route
  has that method, so the answer to one is an error.
\<close>

section \<open>HttpExchange\<close>

text \<open>
  The response side of an exchange: the content type set, the status and the length given to
  \<open>sendResponseHeaders\<close> (-1: no body; 0: a body of any length), the bytes written, and whether
  it was closed.
\<close>

record Exchange =
  ex_contentType :: "jstring option"
  ex_sent :: "(jint \<times> int) option"
  ex_out :: "byte list"
  ex_closed :: bool

definition fresh_exchange :: Exchange where
  "fresh_exchange = \<lparr>ex_contentType = None, ex_sent = None, ex_out = [], ex_closed = False\<rparr>"

text \<open>How the connection fares: whether the headers can be sent, and how many bytes before it breaks.\<close>

record wire =
  wi_headers :: bool
  wi_breaks :: "nat option"

definition set_contentType :: "jstring \<Rightarrow> Exchange \<Rightarrow> (exn + unit) \<times> Exchange" where
  "set_contentType contentType ex = (Inr (), ex\<lparr>ex_contentType := Some contentType\<rparr>)"

definition sendResponseHeaders :: "wire \<Rightarrow> jint \<Rightarrow> int \<Rightarrow> Exchange \<Rightarrow> (exn + unit) \<times> Exchange" where
  "sendResponseHeaders wi status len ex =
     (if ex_sent ex \<noteq> None then (Inl (IOException (js ''headers already sent'')), ex)
      else if \<not> wi_headers wi then (Inl (IOException (js ''connection'')), ex)
      else (Inr (), ex\<lparr>ex_sent := Some (status, len)\<rparr>))"

definition out_write :: "wire \<Rightarrow> byte list \<Rightarrow> Exchange \<Rightarrow> (exn + unit) \<times> Exchange" where
  "out_write wi body ex =
     (case wi_breaks wi of
        None \<Rightarrow> (Inr (), ex\<lparr>ex_out := ex_out ex @ body\<rparr>)
      | Some k \<Rightarrow>
          if length body \<le> k then (Inr (), ex\<lparr>ex_out := ex_out ex @ body\<rparr>)
          else (Inl (IOException (js ''connection'')), ex\<lparr>ex_out := ex_out ex @ take k body\<rparr>))"

definition exchange_close :: "Exchange \<Rightarrow> (exn + unit) \<times> Exchange" where
  "exchange_close ex = (Inr (), ex\<lparr>ex_closed := True\<rparr>)"

section \<open>http/Router.java: write and handle\<close>

definition Router_write :: "wire \<Rightarrow> HttpResponse \<Rightarrow> Exchange \<Rightarrow> (exn + unit) \<times> Exchange" where
  "Router_write wi response =
     (let body = hr_body response in
      st_then (set_contentType (hr_contentType response)) (\<lambda>_.
      st_then
        (if hr_status response = 204 \<or> body = [] then
           sendResponseHeaders wi (hr_status response) (- 1)
         else
           st_then (sendResponseHeaders wi (hr_status response) (int (length body)))
             (\<lambda>_. out_write wi body))
        (\<lambda>_. exchange_close)))"

text \<open>One connection: the exception \<open>handle\<close> ends with, if any, the exchange and the state after it.\<close>

definition Router_exchange ::
  "json_writer \<Rightarrow> 'h Route list \<Rightarrow> ('h \<Rightarrow> RequestContext \<Rightarrow> 's \<Rightarrow> (exn + HttpResponse) \<times> 's)
   \<Rightarrow> wire \<Rightarrow> Request \<Rightarrow> 's \<Rightarrow> ((exn + unit) \<times> Exchange) \<times> 's" where
  "Router_exchange w routes run wi req s =
     (let (r, s') = Router_handle w routes run req s
      in (case r of
            Inl e \<Rightarrow> (Inl e, fresh_exchange)
          | Inr response \<Rightarrow> Router_write wi response fresh_exchange, s'))"

definition Idp_exchange ::
  "libs \<Rightarrow> server \<Rightarrow> inputs \<Rightarrow> wire \<Rightarrow> Request \<Rightarrow> Idp \<Rightarrow> ((exn + unit) \<times> Exchange) \<times> Idp" where
  "Idp_exchange lb sv i = Router_exchange (lb_write lb) ApiHandlers_router (run_endpoint lb sv i)"

section \<open>What the client reads\<close>

text \<open>
  A client takes a response for complete when it has the headers and as many bytes as they
  declare.
\<close>

definition client_reads :: "Exchange \<Rightarrow> HttpResponse option" where
  "client_reads ex =
     (case (ex_sent ex, ex_contentType ex) of
        (Some (status, n), Some contentType) \<Rightarrow>
          if n = - 1 then
            Some \<lparr>hr_status = status, hr_contentType = contentType, hr_body = []\<rparr>
          else if n = 0 then
            (if ex_closed ex then
               Some \<lparr>hr_status = status, hr_contentType = contentType, hr_body = ex_out ex\<rparr>
             else None)
          else if n \<le> int (length (ex_out ex)) then
            Some \<lparr>hr_status = status, hr_contentType = contentType, hr_body = take (nat n) (ex_out ex)\<rparr>
          else None
      | _ \<Rightarrow> None)"

text \<open>The response as it goes over the wire: 204 has no body.\<close>

definition on_wire :: "HttpResponse \<Rightarrow> HttpResponse" where
  "on_wire response = (if hr_status response = 204 then response\<lparr>hr_body := []\<rparr> else response)"

lemmas exchange_defs =
  set_contentType_def sendResponseHeaders_def out_write_def exchange_close_def fresh_exchange_def

lemma write_outcome:
  assumes "Router_write wi response fresh_exchange = (r, ex)"
  shows "client_reads ex = (if r = Inr () then Some (on_wire response) else None)"
    and "r = Inr () \<longleftrightarrow> ex_closed ex"
    and "r = Inr () \<longleftrightarrow> wi_headers wi \<and> (hr_status response = 204 \<or>
           (case wi_breaks wi of None \<Rightarrow> True | Some k \<Rightarrow> length (hr_body response) \<le> k))"
  using assms
  by (cases response; cases "wi_breaks wi"; force simp: Router_write_def Let_def st_then_def exchange_defs
      client_reads_def on_wire_def split: if_splits)+

text \<open>The only responses with status 204 have no body to lose.\<close>

lemma no_content_empty:
  assumes "argon2_free (lb_argon2 lb)" and "spec_ok (lb_write lb) sv"
    and "Idp_handle lb sv i req s = (Inr resp, s')"
  shows "on_wire resp = resp"
proof (cases "hr_status resp = 204")
  case True
  have docs: "list_all (\<lambda>op. list_all (\<lambda>(st, c). (of_nat st :: jint) \<noteq> 204 \<or> c = None) (op_responses op)) openapi_paths"
    by (simp add: openapi_paths_def public_get_def admin_operation_def json_response_def)
  from True handle_response [OF assms] obtain r :: "Endpoint Route" and op
    where r: "operation_of r = Some op" "allowed (lb_write lb) op resp"
    by (auto simp: error_response_def undocumented_def split: option.splits if_splits)
  then obtain st c where "(st, c) \<in> set (op_responses op)" "hr_status resp = of_nat st"
    "content_ok (lb_write lb) c resp" by (auto simp: allowed_def)
  moreover have "op \<in> set openapi_paths" using r(1) by (auto simp: operation_of_def find_Some_iff)
  ultimately have "content_ok (lb_write lb) None resp" using docs True by (fastforce simp: list_all_iff)
  then show ?thesis by (simp add: on_wire_def content_ok_def)
qed (simp add: on_wire_def)

section \<open>Properties\<close>

text \<open>
  C15. A client never reads a wrong answer: over a connection that breaks at any point it either
  gets exactly the response the handler made, and the exchange is closed, or nothing complete;
  it gets the response whenever the connection holds. What the request did to the state does
  not depend on the connection.
\<close>

theorem exchange_delivers:
  assumes "argon2_free (lb_argon2 lb)" and "spec_ok (lb_write lb) sv"
    and "\<And>er de. lb_write lb (error_json er de) \<noteq> None"
    and "Idp_exchange lb sv i wi req s = ((r, ex), s')"
  shows "\<exists>resp. Idp_handle lb sv i req s = (Inr resp, s')
     \<and> client_reads ex = (if r = Inr () then Some resp else None)
     \<and> (r = Inr () \<longleftrightarrow> ex_closed ex)
     \<and> (wi_headers wi \<and> wi_breaks wi = None \<longrightarrow> r = Inr ())"
proof -
  obtain resp t where h: "Idp_handle lb sv i req s = (Inr resp, t)"
    using answered [OF assms(3)] by blast
  with assms(4) have "t = s'" and w: "Router_write wi resp fresh_exchange = (r, ex)"
    by (simp_all add: Idp_exchange_def Router_exchange_def Idp_handle_def)
  from h no_content_empty [OF assms(1,2) h] write_outcome [OF w] show ?thesis
    unfolding \<open>t = s'\<close> by auto
qed

theorem exchange_delivers_witness:
  "\<exists>resp. fst (Idp_handle demo_libs demo_server demo_inputs (demo_request ''GET'' ''/health'' None []) demo_idp) = Inr resp
     \<and> client_reads (snd (fst (Idp_exchange demo_libs demo_server demo_inputs
          \<lparr>wi_headers = True, wi_breaks = None\<rparr> (demo_request ''GET'' ''/health'' None []) demo_idp))) = Some resp"
proof -
  obtain r ex s' where e: "Idp_exchange demo_libs demo_server demo_inputs
      \<lparr>wi_headers = True, wi_breaks = None\<rparr> (demo_request ''GET'' ''/health'' None []) demo_idp = ((r, ex), s')"
    by (metis prod.exhaust)
  from exchange_delivers [OF demo_argon2_free demo_spec_ok demo_writer e] e show ?thesis by auto
qed

end
