(* ===== verification/JavaScript.thy ===== *)
theory JavaScript
  imports JavaText
begin

unbundle bit_operations_syntax

text \<open>
  What the functions of the Swagger UI bundle use of JavaScript: numbers under the bitwise
  operators, array reads, typed arrays, character codes. A number is an \<open>int\<close>; the bitwise
  operators convert their operands to signed 32-bit integers first, \<open>undefined\<close> and \<open>NaN\<close>
  (both \<open>None\<close>) to 0. All other arithmetic of the modelled functions stays far below the
  range where doubles are inexact.
\<close>

datatype js_error = Error jstring | RangeError | TypeError

definition to_int32 :: "int \<Rightarrow> int" where
  "to_int32 x = signed_take_bit 31 x"

definition js_num :: "int option \<Rightarrow> int" where
  "js_num v = (case v of None \<Rightarrow> 0 | Some x \<Rightarrow> x)"

definition js_shl :: "int \<Rightarrow> nat \<Rightarrow> int" where
  "js_shl x n = to_int32 (push_bit n (to_int32 x))"

definition js_sar :: "int \<Rightarrow> nat \<Rightarrow> int" where
  "js_sar x n = drop_bit n (to_int32 x)"

definition js_and :: "int \<Rightarrow> int \<Rightarrow> int" where
  "js_and x y = to_int32 x AND to_int32 y"

definition js_or :: "int \<Rightarrow> int \<Rightarrow> int" where
  "js_or x y = to_int32 x OR to_int32 y"

text \<open>\<open>xs[k]\<close>, \<open>None\<close> for \<open>undefined\<close>; a write to a typed array out of range is ignored.\<close>

definition js_at :: "'a list \<Rightarrow> nat \<Rightarrow> 'a option" where
  "js_at xs k = (if k < length xs then Some (xs ! k) else None)"

definition js_byte :: "byte list \<Rightarrow> nat \<Rightarrow> int" where
  "js_byte o' k = js_num (map_option (\<lambda>b. int (unat b)) (js_at o' k))"

definition charCodeAt :: "jstring \<Rightarrow> nat \<Rightarrow> int option" where
  "charCodeAt s k = map_option (\<lambda>c. int (unat c)) (js_at s k)"

definition js_indexOf :: "jchar \<Rightarrow> jstring \<Rightarrow> int" where
  "js_indexOf c s = (if c \<in> set s then int (length (takeWhile (\<lambda>d. d \<noteq> c) s)) else - 1)"

text \<open>A character of a string as an operand of string concatenation.\<close>

definition js_char :: "jchar option \<Rightarrow> jstring" where
  "js_char c = (case c of None \<Rightarrow> js ''undefined'' | Some d \<Rightarrow> [d])"

definition new_Uint8Array :: "int \<Rightarrow> js_error + byte list" where
  "new_Uint8Array n = (if n < 0 then Inl RangeError else Inr (replicate (nat n) 0))"

definition js_put :: "byte list \<Rightarrow> nat \<Rightarrow> int \<Rightarrow> byte list" where
  "js_put j k v = j[k := word_of_int v]"

section \<open>Bitwise operators as arithmetic\<close>

named_theorems js_arith

lemma to_int32_id [js_arith]: "0 \<le> x \<Longrightarrow> x < 2 ^ 31 \<Longrightarrow> to_int32 x = x"
  unfolding to_int32_def by (rule signed_take_bit_int_eq_self) simp_all

lemma js_shl_mult [js_arith]:
  assumes "0 \<le> x" and "x * 2 ^ n < 2 ^ 31"
  shows "js_shl x n = x * 2 ^ n"
proof -
  have "x * 1 \<le> x * 2 ^ n" by (rule mult_left_mono) (use assms in simp_all)
  with assms have "x < 2 ^ 31" by simp
  with assms show ?thesis
    by (simp add: js_shl_def to_int32_id push_bit_eq_mult)
qed

lemma js_shl_nat:
  fixes x :: nat
  assumes "x * 2 ^ n < 2 ^ 31"
  shows "js_shl (int x) n = int (x * 2 ^ n)"
proof -
  from assms have "int (x * 2 ^ n) < 2 ^ 31" by (simp del: of_nat_mult of_nat_power)
  then show ?thesis using js_shl_mult [of "int x" n] by simp
qed

lemma js_sar_div [js_arith]: "0 \<le> x \<Longrightarrow> x < 2 ^ 31 \<Longrightarrow> js_sar x n = x div 2 ^ n"
  by (simp add: js_sar_def to_int32_id drop_bit_eq_div)

lemma js_and_mod:
  assumes "0 \<le> x" and "x < 2 ^ 31" and "k \<le> 30"
  shows "js_and x (mask k) = x mod 2 ^ k" "js_and (mask k) x = x mod 2 ^ k"
proof -
  have "mask k < (2 :: int) ^ 31"
    using power_increasing [of k 30 "2 :: int"] assms(3) by (simp add: mask_eq_exp_minus_1)
  then have "to_int32 (mask k) = mask k" by (intro to_int32_id) simp_all
  then show "js_and x (mask k) = x mod 2 ^ k" "js_and (mask k) x = x mod 2 ^ k"
    using assms(1,2)
    by (simp_all add: js_and_def to_int32_id take_bit_eq_mask [symmetric] take_bit_eq_mod
        and.commute [of "mask k"])
qed

lemma js_and_63 [js_arith]: "0 \<le> x \<Longrightarrow> x < 2 ^ 31 \<Longrightarrow> js_and x 63 = x mod 64"
  "0 \<le> x \<Longrightarrow> x < 2 ^ 31 \<Longrightarrow> js_and 63 x = x mod 64"
  using js_and_mod [of x 6] by (simp_all add: mask_eq_exp_minus_1)

lemma js_and_255 [js_arith]: "0 \<le> x \<Longrightarrow> x < 2 ^ 31 \<Longrightarrow> js_and x 255 = x mod 256"
  "0 \<le> x \<Longrightarrow> x < 2 ^ 31 \<Longrightarrow> js_and 255 x = x mod 256"
  using js_and_mod [of x 8] by (simp_all add: mask_eq_exp_minus_1)

text \<open>A mask above the low bits keeps a number that fits under it.\<close>

lemma js_and_shifted:
  assumes "0 \<le> x" and "x < 2 ^ k" and "n + k \<le> 30"
  shows "js_and (x * 2 ^ n) (mask k * 2 ^ n) = x * 2 ^ n"
proof -
  have "x * 2 ^ n < 2 ^ k * 2 ^ n" using assms(2) by simp
  also have "2 ^ k * 2 ^ n \<le> (2 :: int) ^ 30"
    unfolding power_add [symmetric] by (rule power_increasing) (use assms(3) in simp_all)
  finally have lt: "x * 2 ^ n < 2 ^ 31" by simp
  have "mask k * 2 ^ n < 2 ^ k * (2 :: int) ^ n" by (simp add: mask_eq_exp_minus_1)
  also have "2 ^ k * 2 ^ n \<le> (2 :: int) ^ 30"
    unfolding power_add [symmetric] by (rule power_increasing) (use assms(3) in simp_all)
  finally have "mask k * 2 ^ n < (2 :: int) ^ 31" by simp
  then have "js_and (x * 2 ^ n) (mask k * 2 ^ n) = push_bit n x AND push_bit n (mask k)"
    using assms(1) lt by (simp add: js_and_def to_int32_id push_bit_eq_mult)
  also have "\<dots> = push_bit n (take_bit k x)"
    by (simp only: push_bit_and [symmetric] take_bit_eq_mask)
  also have "take_bit k x = x" using assms(1,2) by (simp add: take_bit_int_eq_self)
  finally show ?thesis by (simp add: push_bit_eq_mult)
qed

text \<open>Disjoint bits add up.\<close>

lemma js_or_add:
  assumes "0 \<le> y" and "y < 2 ^ n" and "0 \<le> x" and "x * 2 ^ n + y < 2 ^ 31"
  shows "js_or (x * 2 ^ n) y = x * 2 ^ n + y"
proof -
  have "x * 2 ^ n < 2 ^ 31" and "0 \<le> x * 2 ^ n" using assms by simp_all
  moreover have "y < 2 ^ 31" using assms(1,3,4) \<open>0 \<le> x * 2 ^ n\<close> by linarith
  ultimately have "js_or (x * 2 ^ n) y = push_bit n x OR take_bit n y"
    using assms(1,2) by (simp add: js_or_def to_int32_id push_bit_eq_mult take_bit_int_eq_self)
  also have "\<dots> = concat_bit n y x" by (simp add: concat_bit_def or.commute)
  also have "\<dots> = take_bit n y + push_bit n x" by (rule concat_bit_eq)
  finally show ?thesis using assms(1,2) by (simp add: push_bit_eq_mult take_bit_int_eq_self)
qed

lemma js_at_append [simp]: "js_at (xs @ ys) (length xs + k) = js_at ys k"
  by (simp add: js_at_def nth_append)

lemma js_at_drop: "drop i xs = y # ys \<Longrightarrow> js_at xs i = Some y"
  by (metis drop_eq_Nil2 hd_drop_conv_nth js_at_def linorder_not_le list.discI list.sel(1))

lemma js_at_drop_add: "js_at xs (i + k) = js_at (drop i xs) k"
  by (auto simp: js_at_def)

lemma js_byte_bounds: "0 \<le> js_byte o' k" "js_byte o' k < 256"
  by (auto simp: js_byte_def js_num_def less_le_trans [OF unsigned_less] split: option.splits)

end
