(* ===== verification/SwaggerBase64.thy ===== *)
theory SwaggerBase64
  imports JavaScript Encodings
begin

text \<open>
  The Base64 module of the bundled Swagger UI (webpack module 67526, base64-js, on the second
  line of \<open>server/src/main/resources/swagger-ui/swagger-ui-bundle.js\<close>), function by function
  under the names the minified text keeps. The browser side of the API uses it for the same
  texts the server's \<open>java.util.Base64\<close> reads and writes, so the properties compare the two.
\<close>

section \<open>Module 67526\<close>

definition code :: jstring where
  "code = js ''ABCDEFGHIJKLMNOPQRSTUVWXYZabcdefghijklmnopqrstuvwxyz0123456789+/''"

definition lookup :: "int \<Rightarrow> jstring" where
  "lookup k = js_char (if k < 0 then None else js_at code (nat k))"

text \<open>The table \<open>u\<close>: the loop over the 64 characters, then the URL-safe pair.\<close>

definition revLookup :: "int \<Rightarrow> int option" where
  "revLookup =
     (foldl (\<lambda>u x. u(js_num (charCodeAt code x) \<mapsto> int x)) (\<lambda>_. None) [0..<64])(45 \<mapsto> 62, 95 \<mapsto> 63)"

definition rev_at :: "jstring \<Rightarrow> nat \<Rightarrow> int" where
  "rev_at o' k = js_num (case charCodeAt o' k of None \<Rightarrow> None | Some c \<Rightarrow> revLookup c)"

definition getLens :: "jstring \<Rightarrow> js_error + int \<times> int" where
  "getLens o' =
     (let s = int (length o')
      in if s mod 4 > 0 then Inl (Error (js ''Invalid string. Length must be a multiple of 4''))
         else (let at = js_indexOf 61 o'; i = (if at = - 1 then s else at)
               in Inr (i, if i = s then 0 else 4 - i mod 4)))"

text \<open>The division is exact: \<open>i + u\<close> is a multiple of 4 for the lengths of \<open>getLens\<close>.\<close>

definition byte_length_of :: "int \<Rightarrow> int \<Rightarrow> int" where
  "byte_length_of i u = 3 * (i + u) div 4 - u"

definition byteLength :: "jstring \<Rightarrow> js_error + int" where
  "byteLength o' = (case getLens o' of Inl e \<Rightarrow> Inl e | Inr (i, u) \<Rightarrow> Inr (byte_length_of i u))"

function decode_loop :: "jstring \<Rightarrow> int \<Rightarrow> nat \<Rightarrow> nat \<Rightarrow> byte list \<Rightarrow> nat \<times> nat \<times> byte list" where
  "decode_loop o' B i L j =
     (if int i < B then
        (let s = js_or (js_or (js_or (js_shl (rev_at o' i) 18) (js_shl (rev_at o' (i + 1)) 12))
                   (js_shl (rev_at o' (i + 2)) 6)) (rev_at o' (i + 3))
         in decode_loop o' B (i + 4) (L + 3)
              (js_put (js_put (js_put j L (js_and (js_sar s 16) 255))
                 (L + 1) (js_and (js_sar s 8) 255)) (L + 2) (js_and 255 s)))
      else (i, L, j))"
  by pat_completeness auto
termination by (relation "measure (\<lambda>(_, B, i, _). nat (B - int i))") auto

declare decode_loop.simps [simp del]

definition decode_tail :: "jstring \<Rightarrow> int \<Rightarrow> nat \<times> nat \<times> byte list \<Rightarrow> byte list" where
  "decode_tail o' C r =
     (case r of (i, L, j) \<Rightarrow>
        if C = 2 then
          (let s = js_or (js_shl (rev_at o' i) 2) (js_sar (rev_at o' (i + 1)) 4)
           in js_put j L (js_and 255 s))
        else if C = 1 then
          (let s = js_or (js_or (js_shl (rev_at o' i) 10) (js_shl (rev_at o' (i + 1)) 4))
                     (js_sar (rev_at o' (i + 2)) 2)
           in js_put (js_put j L (js_and (js_sar s 8) 255)) (L + 1) (js_and 255 s))
        else j)"

definition toByteArray :: "jstring \<Rightarrow> js_error + byte list" where
  "toByteArray o' =
     (case getLens o' of
        Inl e \<Rightarrow> Inl e
      | Inr (x, C) \<Rightarrow>
          (case new_Uint8Array (byte_length_of x C) of
             Inl e \<Rightarrow> Inl e
           | Inr j \<Rightarrow>
               (let B = (if C > 0 then x - 4 else x)
                in Inr (decode_tail o' C (decode_loop o' B 0 0 j)))))"

definition triplet_chars :: "int \<Rightarrow> jstring" where
  "triplet_chars w =
     lookup (js_and (js_sar w 18) 63) @ lookup (js_and (js_sar w 12) 63)
       @ lookup (js_and (js_sar w 6) 63) @ lookup (js_and 63 w)"

function encodeChunk :: "byte list \<Rightarrow> nat \<Rightarrow> nat \<Rightarrow> jstring" where
  "encodeChunk o' C u =
     (if C < u then
        triplet_chars (js_and (js_shl (js_byte o' C) 16) 16711680
          + js_and (js_shl (js_byte o' (C + 1)) 8) 65280 + js_and 255 (js_byte o' (C + 2)))
        @ encodeChunk o' (C + 3) u
      else [])"
  by pat_completeness auto
termination by (relation "measure (\<lambda>(_, C, u). u - C)") auto

declare encodeChunk.simps [simp del]

definition maxChunkLength :: nat where "maxChunkLength = 16383"

function chunk_loop :: "byte list \<Rightarrow> nat \<Rightarrow> nat \<Rightarrow> jstring" where
  "chunk_loop o' C j =
     (if C < j then
        encodeChunk o' C (if C + maxChunkLength > j then j else C + maxChunkLength)
          @ chunk_loop o' (C + maxChunkLength) j
      else [])"
  by pat_completeness auto
termination by (relation "measure (\<lambda>(_, C, j). j - C)") (auto simp: maxChunkLength_def)

declare chunk_loop.simps [simp del]

definition fromByteArray :: "byte list \<Rightarrow> jstring" where
  "fromByteArray o' =
     (let u = length o'; r = u mod 3; w = chunk_loop o' 0 (u - r)
      in if r = 1 then
           (let s = js_byte o' (u - 1)
            in w @ lookup (js_sar s 2) @ lookup (js_and (js_shl s 4) 63) @ js ''=='')
         else if r = 2 then
           (let s = js_shl (js_byte o' (u - 2)) 8 + js_byte o' (u - 1)
            in w @ lookup (js_sar s 10) @ lookup (js_and (js_sar s 4) 63)
                 @ lookup (js_and (js_shl s 2) 63) @ js ''='')
         else w)"

section \<open>The tables\<close>

lemma code_units: "map unat code = [65..<91] @ [97..<123] @ [48..<58] @ [43, 47]"
  by (simp add: code_def js_def upt_rec)

lemma length_code [simp]: "length code = 64"
  using arg_cong [OF code_units, of length] by simp

lemma code_nth: "i < 64 \<Longrightarrow> code ! i = sextet_char False i"
proof -
  assume i: "i < 64"
  then have "unat (code ! i) = map unat code ! i" by simp
  also have "\<dots> = unat (sextet_char False i)"
    unfolding code_units using i
    by (auto simp: nth_append unat_sextet_char numeral_2_eq_2 nth_Cons split: nat.split)
  finally show ?thesis by (rule unsigned_word_eqI)
qed

lemma lookup_sextet: "i < 64 \<Longrightarrow> lookup (int i) = [sextet_char False i]"
  by (simp add: lookup_def js_at_def js_char_def code_nth)

lemma foldl_map_upd:
  assumes "x \<in> set xs" and "inj_on f (set xs)"
  shows "foldl (\<lambda>u x. u(f x \<mapsto> g x)) m xs (f x) = Some (g x)"
  using assms
proof (induction xs rule: rev_induct)
  case (snoc y xs)
  show ?case
  proof (cases "x = y")
    case False
    with snoc.prems have "x \<in> set xs" "f x \<noteq> f y" "inj_on f (set xs)" by (auto simp: inj_on_def)
    with snoc.IH show ?thesis by simp
  qed simp
qed simp

lemma revLookup_sextet:
  assumes "i < 64"
  shows "revLookup (int (unat (sextet_char url i))) = Some (int i)"
proof -
  let ?f = "\<lambda>x. js_num (charCodeAt code x)"
  have f: "?f x = int (unat (sextet_char False x))" if "x < 64" for x
    using that by (simp add: charCodeAt_def js_at_def js_num_def code_nth)
  have "inj_on ?f (set [0..<64])"
    by (rule inj_onI) (simp add: f unat_sextet_char split: if_splits)
  then have "foldl (\<lambda>u x. u(?f x \<mapsto> int x)) (\<lambda>_. None) [0..<64] (?f x) = Some (int x)" if "x < 64" for x
    using that by (intro foldl_map_upd) simp_all
  moreover have "?f x \<noteq> 45" "?f x \<noteq> 95" if "x < 64" for x
    using f [OF that] unat_sextet_char [OF that, of False] that by (auto split: if_splits)
  ultimately have table: "revLookup (?f x) = Some (int x)" if "x < 64" for x
    using that by (simp add: revLookup_def)
  have "url \<and> 62 \<le> i \<or> sextet_char url i = sextet_char False i"
    by (auto simp: sextet_char_def)
  then show ?thesis
  proof
    assume "url \<and> 62 \<le> i"
    with assms have "i = 62 \<or> i = 63" "url" by auto
    then show ?thesis by (auto simp: sextet_char_def revLookup_def)
  qed (use table [OF assms] f [OF assms] in simp)
qed

text \<open>Every sextet the decoder of the JDK reads, in either alphabet, is the one of the table.\<close>

lemma sextet_of_Some:
  assumes "sextet_of url c = Some k"
  shows "k < 64 \<and> c = sextet_char url k"
proof -
  have k: "k < 64" using assms by (auto simp: sextet_of_def Let_def split: if_splits)
  then have "unat c = unat (sextet_char url k)"
    using assms by (auto simp: sextet_of_def Let_def unat_sextet_char split: if_splits)
  then have "c = sextet_char url k" by (rule unsigned_word_eqI)
  with k show ?thesis by simp
qed

lemma rev_at_sextet:
  "js_at o' k = Some c \<Longrightarrow> sextet_of url c = Some n \<Longrightarrow> rev_at o' k = int n"
  using sextet_of_Some [of url c n] revLookup_sextet [of n url]
  by (simp add: rev_at_def charCodeAt_def js_num_def)

section \<open>Encoding is the encoding of the JDK\<close>

lemma js_byte_nth: "k < length o' \<Longrightarrow> js_byte o' k = int (unat (o' ! k))"
  by (simp add: js_byte_def js_at_def js_num_def)

text \<open>A number given by its bytes, and its sextets.\<close>

lemma div_mod_quot:
  fixes q n r :: nat
  assumes "r < n"
  shows "(q * n + r) div n = q" "(q * n + r) mod n = r"
  using assms by simp_all

lemma sextets_of_bytes:
  fixes a b c :: nat
  assumes "a < 256" and "b < 256" and "c < 256"
  defines "w \<equiv> a * 65536 + b * 256 + c"
  shows "w div 0x40000 = a div 4" "w div 0x1000 mod 64 = a mod 4 * 16 + b div 16"
    "w div 64 mod 64 = b mod 16 * 4 + c div 64" "w mod 64 = c mod 64"
proof -
  obtain p q where a: "a = p * 4 + q" "q < 4" "p = a div 4" "q = a mod 4" by simp
  obtain r s where b: "b = r * 16 + s" "s < 16" "r < 16" "r = b div 16" "s = b mod 16"
    using assms(2) by simp
  obtain t v where c: "c = t * 64 + v" "v < 64" "t < 4" "t = c div 64" "v = c mod 64"
    using assms(3) by simp
  have w: "w = p * 0x40000 + (q * 65536 + b * 256 + c)"
    "w = (p * 64 + (q * 16 + r)) * 0x1000 + (s * 256 + c)"
    "w = ((p * 256 + q * 64 + r * 4) * 16 + (s * 4 + t)) * 64 + v"
    unfolding w_def a(1) b(1) c(1) by simp_all
  have lt: "q * 65536 + b * 256 + c < 0x40000" "q * 16 + r < 64" "s * 256 + c < 0x1000" "s * 4 + t < 64"
    using a(2) b(2,3) c(3) assms(2,3) by linarith+
  show "w div 0x40000 = a div 4"
    unfolding a(3) [symmetric] w(1) by (rule div_mod_quot [OF lt(1)])
  show "w div 0x1000 mod 64 = a mod 4 * 16 + b div 16"
    unfolding a(4) [symmetric] b(4) [symmetric] w(2) div_mod_quot [OF lt(3)]
    by (rule div_mod_quot [OF lt(2)])
  have "w div 64 = (p * 64 + q * 16 + r) * 64 + (s * 4 + t)"
    unfolding w(3) div_mod_quot [OF c(2)] by simp
  then show "w div 64 mod 64 = b mod 16 * 4 + c div 64"
    unfolding b(5) [symmetric] c(4) [symmetric] by (simp only: div_mod_quot [OF lt(4)])
  show "w mod 64 = c mod 64"
    unfolding c(5) [symmetric] w(3) by (rule div_mod_quot [OF c(2)])
qed

lemma js_sextet:
  fixes w :: nat
  assumes "w < 2 ^ 24"
  shows "js_and (js_sar (int w) k) 63 = int (w div 2 ^ k mod 64)" "js_and 63 (int w) = int (w mod 64)"
    "js_and (js_sar (int w) k) 255 = int (w div 2 ^ k mod 256)" "js_and 255 (int w) = int (w mod 256)"
    "js_sar (int w) k = int (w div 2 ^ k)"
proof -
  have w: "int w < 2 ^ 24" using assms by simp
  then show sar: "js_sar (int w) k = int (w div 2 ^ k)"
    by (simp add: js_sar_div zdiv_int)
  define v where "v = w div 2 ^ k"
  have "v < 2 ^ 24" unfolding v_def by (rule le_less_trans [OF div_le_dividend assms])
  then have "int v < 2 ^ 31" by simp
  with w show "js_and (js_sar (int w) k) 63 = int (w div 2 ^ k mod 64)"
    "js_and 63 (int w) = int (w mod 64)"
    "js_and (js_sar (int w) k) 255 = int (w div 2 ^ k mod 256)"
    "js_and 255 (int w) = int (w mod 256)"
    unfolding sar v_def [symmetric] by (simp_all add: js_and_63 js_and_255 zmod_int)
qed

lemma triplet_chars_bytes:
  fixes a b c :: nat
  assumes "a < 256" and "b < 256" and "c < 256"
  shows "triplet_chars (int (a * 65536 + b * 256 + c)) @ b64_chars False True r
       = b64_chars False True (a # b # c # r)"
proof -
  define w where "w = a * 65536 + b * 256 + c"
  then have w: "w < 2 ^ 24" using assms by simp
  then have "w div 0x40000 mod 64 = w div 0x40000" by simp
  note s = trans [OF this sextets_of_bytes(1) [OF assms, folded w_def]]
    sextets_of_bytes(2-4) [OF assms, folded w_def]
  have "v mod 64 < 64" for v :: nat by simp
  note lt = this [of "w div 0x40000", unfolded s] this [of "w div 0x1000", unfolded s]
    this [of "w div 64", unfolded s] this [of w, unfolded s]
  show ?thesis
    unfolding w_def [symmetric] triplet_chars_def js_sextet(1,2) [OF w]
    by (simp add: s lookup_sextet lt del: of_nat_add of_nat_mult of_nat_div of_nat_mod)
qed

lemma js_byte_shl:
  "js_and (js_shl (js_byte o' k) 16) 16711680 = js_byte o' k * 65536"
  "js_and (js_shl (js_byte o' k) 8) 65280 = js_byte o' k * 256"
  "js_and 255 (js_byte o' k) = js_byte o' k"
  using js_byte_bounds [of o' k] js_and_shifted [of "js_byte o' k" 8 16]
    js_and_shifted [of "js_byte o' k" 8 8]
  by (simp_all add: js_shl_mult js_and_255 mask_eq_exp_minus_1)

lemma drop_three:
  "C + 3 \<le> length o' \<Longrightarrow> drop C o' = o' ! C # o' ! (C + 1) # o' ! (C + 2) # drop (C + 3) o'"
  by (simp add: Cons_nth_drop_Suc numeral_3_eq_3)

lemma encodeChunk_chars:
  "C + 3 * n \<le> length o' \<Longrightarrow>
     encodeChunk o' C (C + 3 * n) = b64_chars False True (map unat (take (3 * n) (drop C o')))"
proof (induction n arbitrary: C)
  case 0
  then show ?case by (simp add: encodeChunk.simps)
next
  case (Suc n)
  let ?a = "unat (o' ! C)" and ?b = "unat (o' ! (C + 1))" and ?c = "unat (o' ! (C + 2))"
  have b: "js_byte o' C = int ?a" "js_byte o' (C + 1) = int ?b" "js_byte o' (C + 2) = int ?c"
    using Suc.prems by (simp_all add: js_byte_nth)
  have w: "js_and (js_shl (js_byte o' C) 16) 16711680 + js_and (js_shl (js_byte o' (C + 1)) 8) 65280
      + js_and 255 (js_byte o' (C + 2)) = int (?a * 65536 + ?b * 256 + ?c)"
    unfolding js_byte_shl unfolding b by simp
  have "encodeChunk o' C (C + 3 * Suc n) =
      triplet_chars (int (?a * 65536 + ?b * 256 + ?c)) @ encodeChunk o' (C + 3) (C + 3 + 3 * n)"
    unfolding w [symmetric] by (subst encodeChunk.simps) (simp add: add.assoc)
  also have "encodeChunk o' (C + 3) (C + 3 + 3 * n) =
      b64_chars False True (map unat (take (3 * n) (drop (C + 3) o')))"
    by (rule Suc.IH) (use Suc.prems in simp)
  also have "triplet_chars (int (?a * 65536 + ?b * 256 + ?c)) @ \<dots> =
      b64_chars False True (?a # ?b # ?c # map unat (take (3 * n) (drop (C + 3) o')))"
    by (rule triplet_chars_bytes) (simp_all add: unat_byte_less)
  also have "?a # ?b # ?c # map unat (take (3 * n) (drop (C + 3) o')) =
      map unat (take (3 * Suc n) (drop C o'))"
    using Suc.prems by (simp add: drop_three take_Cons')
  finally show ?case .
qed

lemma b64_chars_append:
  "3 dvd length xs \<Longrightarrow> b64_chars url pad (xs @ ys) = b64_chars url pad xs @ b64_chars url pad ys"
proof (induction url pad xs rule: b64_chars.induct)
  case (4 url pad a b c r)
  then have "3 dvd length r" by (simp add: dvd_def) presburger
  with 4 show ?case by simp
qed (auto dest: dvd_imp_le)

lemma chunk_loop_chars:
  "C + 3 * n \<le> length o' \<Longrightarrow>
     chunk_loop o' C (C + 3 * n) = b64_chars False True (map unat (take (3 * n) (drop C o')))"
proof (induction n arbitrary: C rule: less_induct)
  case (less n)
  let ?step = "maxChunkLength"
  show ?case
  proof (cases "?step < 3 * n")
    case False
    then have "chunk_loop o' C (C + 3 * n) = (if n = 0 then [] else encodeChunk o' C (C + 3 * n))"
      by (subst chunk_loop.simps) (auto simp: chunk_loop.simps [of _ "C + ?step"])
    then show ?thesis using encodeChunk_chars [OF less.prems] by simp
  next
    case True
    define m where "m = n - 5461"
    with True have n: "3 * n = ?step + 3 * m" "n = 5461 + m" "m < n" by (simp_all add: maxChunkLength_def)
    have "encodeChunk o' C (C + 3 * 5461) = b64_chars False True (map unat (take (3 * 5461) (drop C o')))"
      by (rule encodeChunk_chars) (use less.prems n in simp)
    then have first: "encodeChunk o' C (C + ?step) = b64_chars False True (map unat (take ?step (drop C o')))"
      by (simp add: maxChunkLength_def)
    have "chunk_loop o' C (C + 3 * n) =
        encodeChunk o' C (C + ?step) @ chunk_loop o' (C + ?step) (C + ?step + 3 * m)"
      using n True by (subst chunk_loop.simps) (simp add: add.assoc)
    also have "chunk_loop o' (C + ?step) (C + ?step + 3 * m) =
        b64_chars False True (map unat (take (3 * m) (drop (C + ?step) o')))"
      by (rule less.IH [OF n(3)]) (use less.prems n in simp)
    finally have "chunk_loop o' C (C + 3 * n) =
        b64_chars False True (map unat (take ?step (drop C o')))
          @ b64_chars False True (map unat (take (3 * m) (drop ?step (drop C o'))))"
      unfolding first by (simp add: add.commute)
    also have "\<dots> = b64_chars False True (map unat (take (?step + 3 * m) (drop C o')))"
      unfolding take_add map_append
    proof (rule b64_chars_append [symmetric])
      have "length (map unat (take ?step (drop C o'))) = 3 * 5461"
        using less.prems n(1) by (simp add: maxChunkLength_def)
      then show "3 dvd length (map unat (take ?step (drop C o')))" by (simp only: dvd_triv_left)
    qed
    finally show ?thesis unfolding n(1) .
  qed
qed

lemma sextets_of_tail:
  fixes a b :: nat
  assumes "a < 256" and "b < 256"
  shows "a * 16 mod 64 = a mod 4 * 16"
    "(a * 256 + b) div 1024 = a div 4" "(a * 256 + b) div 16 mod 64 = a mod 4 * 16 + b div 16"
    "(a * 256 + b) * 4 mod 64 = b mod 16 * 4"
proof -
  obtain p q where a: "a = p * 4 + q" "q < 4" "p = a div 4" "q = a mod 4" by simp
  obtain r s where b: "b = r * 16 + s" "s < 16" "r < 16" "r = b div 16" "s = b mod 16"
    using assms(2) by simp
  have w: "a * 16 = p * 64 + q * 16" "a * 256 + b = p * 1024 + (q * 256 + b)"
    "a * 256 + b = (p * 64 + (q * 16 + r)) * 16 + s"
    "(a * 256 + b) * 4 = (a * 16 + r) * 64 + s * 4"
    unfolding a(1) b(1) by simp_all
  have lt: "q * 16 < 64" "q * 256 + b < 1024" "q * 16 + r < 64" "s * 4 < 64"
    using a(2) b(2,3) assms(2) by linarith+
  show "a * 16 mod 64 = a mod 4 * 16"
    unfolding a(4) [symmetric] w(1) by (rule div_mod_quot [OF lt(1)])
  show "(a * 256 + b) div 1024 = a div 4"
    unfolding a(3) [symmetric] w(2) by (rule div_mod_quot [OF lt(2)])
  show "(a * 256 + b) div 16 mod 64 = a mod 4 * 16 + b div 16"
    unfolding a(4) [symmetric] b(4) [symmetric] w(3) div_mod_quot [OF b(2)]
    by (rule div_mod_quot [OF lt(3)])
  show "(a * 256 + b) * 4 mod 64 = b mod 16 * 4"
    unfolding b(5) [symmetric] w(4) by (rule div_mod_quot [OF lt(4)])
qed

lemma js_shl_mod64:
  fixes w :: nat
  assumes "w < 2 ^ 16" and "k \<le> 4"
  shows "js_and (js_shl (int w) k) 63 = int (w * 2 ^ k mod 64)"
proof -
  have "w * 2 ^ k \<le> w * 2 ^ 4" using assms(2) by (intro mult_le_mono power_increasing) simp_all
  also have "\<dots> < 2 ^ 20" using assms(1) by simp
  finally have "w * 2 ^ k < 2 ^ 20" .
  then have "js_shl (int w) k = int (w * 2 ^ k)" "int (w * 2 ^ k) < 2 ^ 31"
    by (simp_all add: js_shl_nat del: of_nat_mult of_nat_power)
  then show ?thesis
    using js_and_63(1) [of "int (w * 2 ^ k)"] by (simp only: of_nat_mod) simp
qed

lemma fromByteArray_std: "fromByteArray bs = base64_std bs"
proof -
  define n r where "n = length bs div 3" and "r = length bs mod 3"
  have len: "length bs = 3 * n + r" and r: "r < 3" by (simp_all add: n_def r_def)
  define tl where "tl = drop (3 * n) bs"
  have bs: "bs = take (3 * n) bs @ tl" and tl: "length tl = r"
    using len by (simp_all add: tl_def)
  have "map unat bs = map unat (take (3 * n) bs) @ map unat tl"
    by (subst bs) (simp only: map_append)
  then have std: "base64_std bs =
      b64_chars False True (map unat (take (3 * n) bs)) @ b64_chars False True (map unat tl)"
    unfolding base64_std_def b64_encode_def using len by (simp add: b64_chars_append)
  have w: "chunk_loop bs 0 (length bs - r) = b64_chars False True (map unat (take (3 * n) bs))"
    using chunk_loop_chars [of 0 n bs] len by simp
  have byte: "js_byte bs (3 * n + k) = int (unat (tl ! k))" if "k < r" for k
    using that len by (simp add: js_byte_nth tl_def)
  consider "tl = []" "r = 0" | a where "tl = [a]" "r = 1" | a b where "tl = [a, b]" "r = 2"
    using tl r by (cases tl rule: remdups_adj.cases) auto
  then show ?thesis
  proof cases
    case 1
    then show ?thesis using w std by (simp add: fromByteArray_def r_def [symmetric])
  next
    case (2 a)
    have a: "unat a < 256" by (rule unat_byte_less)
    have s: "js_byte bs (length bs - 1) = int (unat a)" using 2 len byte [of 0] by simp
    have "js_sar (int (unat a)) 2 = int (unat a div 4)"
      using a js_sextet(5) [of "unat a" 2] by simp
    moreover have "js_and (js_shl (int (unat a)) 4) 63 = int (unat a mod 4 * 16)"
      using a js_shl_mod64 [of "unat a" 4] sextets_of_tail(1) [OF a a] by simp
    moreover have "unat a div 4 < 64" "unat a mod 4 * 16 < 64" using a by auto
    ultimately show ?thesis
      using 2 w std s unfolding fromByteArray_def Let_def r_def [symmetric]
      by (simp add: lookup_sextet js_def del: of_nat_div of_nat_mod of_nat_mult)
  next
    case (3 a b)
    let ?w = "unat a * 256 + unat b"
    have a: "unat a < 256" and b: "unat b < 256" by (rule unat_byte_less)+
    have wlt: "?w < 2 ^ 16" using a b by simp
    have "js_shl (int (unat a)) 8 = int (unat a * 256)"
      using js_shl_nat [of "unat a" 8] a by simp
    then have s: "js_shl (js_byte bs (length bs - 2)) 8 + js_byte bs (length bs - 1) = int ?w"
      using 3 len byte [of 0] byte [of 1] by simp
    have "js_sar (int ?w) 10 = int (unat a div 4)"
      using js_sextet(5) [of ?w 10] wlt sextets_of_tail(2) [OF a b] by simp
    moreover have "js_and (js_sar (int ?w) 4) 63 = int (unat a mod 4 * 16 + unat b div 16)"
      using js_sextet(1) [of ?w 4] wlt sextets_of_tail(3) [OF a b] by simp
    moreover have "js_and (js_shl (int ?w) 2) 63 = int (unat b mod 16 * 4)"
      using js_shl_mod64 [OF wlt, of 2] sextets_of_tail(4) [OF a b] by simp
    moreover have "unat a div 4 < 64" "unat a mod 4 * 16 + unat b div 16 < 64" "unat b mod 16 * 4 < 64"
      using a b by auto
    ultimately show ?thesis
      using 3 w std unfolding fromByteArray_def Let_def r_def [symmetric] s
      by (simp add: lookup_sextet js_def del: of_nat_div of_nat_mod of_nat_mult of_nat_add)
  qed
qed

section \<open>Decoding is the decoding of the JDK\<close>

lemma quad_number:
  fixes a b c d :: nat
  assumes "a < 64" and "b < 64" and "c < 64" and "d < 64"
  shows "js_or (js_or (js_or (js_shl (int a) 18) (js_shl (int b) 12)) (js_shl (int c) 6)) (int d)
       = int (a * 0x40000 + b * 0x1000 + c * 64 + d)"
proof -
  have "js_or (js_shl (int a) 18) (js_shl (int b) 12) = int (a * 64 + b) * 2 ^ 12"
    using js_or_add [of "int b * 2 ^ 12" 18 "int a"] assms by (simp add: js_shl_mult)
  moreover have "js_or (int (a * 64 + b) * 2 ^ 12) (js_shl (int c) 6) = int ((a * 64 + b) * 64 + c) * 2 ^ 6"
    using js_or_add [of "int c * 2 ^ 6" 12 "int (a * 64 + b)"] assms by (simp add: js_shl_mult)
  moreover have "js_or (int ((a * 64 + b) * 64 + c) * 2 ^ 6) (int d) = int (((a * 64 + b) * 64 + c) * 64 + d)"
    using js_or_add [of "int d" 6 "int ((a * 64 + b) * 64 + c)"] assms by simp
  ultimately show ?thesis by simp
qed

lemma tail_numbers:
  fixes a b c :: nat
  assumes "a < 64" and "b < 64" and "c < 64"
  shows "js_or (js_shl (int a) 2) (js_sar (int b) 4) = int (a * 4 + b div 16)"
    "js_or (js_or (js_shl (int a) 10) (js_shl (int b) 4)) (js_sar (int c) 2)
       = int (a * 1024 + b * 16 + c div 4)"
proof -
  have sar: "js_sar (int b) 4 = int (b div 16)" "js_sar (int c) 2 = int (c div 4)"
    using js_sextet(5) [of b 4] js_sextet(5) [of c 2] assms by simp_all
  have lt: "b div 16 < 4" "c div 4 < 16" using assms by auto
  show "js_or (js_shl (int a) 2) (js_sar (int b) 4) = int (a * 4 + b div 16)"
    using js_or_add [of "int (b div 16)" 2 "int a"] assms(1) lt(1)
    by (simp add: js_shl_mult sar del: of_nat_div)
  have "js_or (js_shl (int a) 10) (js_shl (int b) 4) = int (a * 64 + b) * 2 ^ 4"
    using js_or_add [of "int b * 2 ^ 4" 10 "int a"] assms by (simp add: js_shl_mult)
  moreover have "js_or (int (a * 64 + b) * 2 ^ 4) (int (c div 4)) = int ((a * 64 + b) * 16 + c div 4)"
    using js_or_add [of "int (c div 4)" 4 "int (a * 64 + b)"] assms(1,2) lt(2)
    by (simp del: of_nat_div)
  ultimately show "js_or (js_or (js_shl (int a) 10) (js_shl (int b) 4)) (js_sar (int c) 2)
       = int (a * 1024 + b * 16 + c div 4)"
    by (simp add: sar(2) del: of_nat_div)
qed

lemma bytes_of_sextets:
  fixes a b c d :: nat
  assumes "a < 64" and "b < 64" and "c < 64" and "d < 64"
  defines "w \<equiv> a * 0x40000 + b * 0x1000 + c * 64 + d"
  shows "w div 65536 mod 256 = a * 4 + b div 16" "w div 256 mod 256 = b mod 16 * 16 + c div 4"
    "w mod 256 = c mod 4 * 64 + d" "w < 2 ^ 24"
proof -
  obtain p q where b: "b = p * 16 + q" "q < 16" "p < 4" "p = b div 16" "q = b mod 16"
    using assms(2) by simp
  obtain r s where c: "c = r * 4 + s" "s < 4" "r < 16" "r = c div 4" "s = c mod 4"
    using assms(3) by simp
  have w: "w = (a * 4 + p) * 65536 + (q * 0x1000 + c * 64 + d)"
    "w = ((a * 4 + p) * 256 + (q * 16 + r)) * 256 + (s * 64 + d)"
    unfolding w_def b(1) c(1) by simp_all
  have lt: "q * 0x1000 + c * 64 + d < 65536" "s * 64 + d < 256" "q * 16 + r < 256" "a * 4 + p < 256"
    using assms(1,3,4) b(2,3) c(2,3) by linarith+
  show "w div 65536 mod 256 = a * 4 + b div 16"
    unfolding b(4) [symmetric] w(1) div_mod_quot [OF lt(1)] using lt(4) by simp
  show "w div 256 mod 256 = b mod 16 * 16 + c div 4"
    unfolding b(5) [symmetric] c(4) [symmetric] w(2) div_mod_quot [OF lt(2)]
    by (rule div_mod_quot [OF lt(3)])
  show "w mod 256 = c mod 4 * 64 + d"
    unfolding c(5) [symmetric] w(2) by (rule div_mod_quot [OF lt(2)])
  show "w < 2 ^ 24" using assms by simp
qed

lemma tail_bytes:
  fixes a b c :: nat
  assumes "a < 64" and "b < 64" and "c < 64"
  shows "js_and 255 (int (a * 4 + b div 16)) = int (a * 4 + b div 16)"
    "js_and (js_sar (int (a * 1024 + b * 16 + c div 4)) 8) 255 = int (a * 4 + b div 16)"
    "js_and 255 (int (a * 1024 + b * 16 + c div 4)) = int (b mod 16 * 16 + c div 4)"
proof -
  obtain p q where b: "b = p * 16 + q" "q < 16" "p < 4" "p = b div 16" "q = b mod 16"
    using assms(2) by simp
  have c: "c div 4 < 16" using assms(3) by auto
  have w: "a * 1024 + b * 16 + c div 4 = (a * 4 + p) * 256 + (q * 16 + c div 4)"
    unfolding b(1) by simp
  have lt: "q * 16 + c div 4 < 256" "a * 4 + p < 256" using assms(1) b(2,3) c by linarith+
  then show "js_and 255 (int (a * 4 + b div 16)) = int (a * 4 + b div 16)"
    unfolding b(4) [symmetric] by (subst js_sextet(4)) simp_all
  have "a * 1024 + b * 16 + c div 4 < 2 ^ 24" unfolding w using lt by simp
  note s = js_sextet(3,4) [OF this]
  show "js_and (js_sar (int (a * 1024 + b * 16 + c div 4)) 8) 255 = int (a * 4 + b div 16)"
  proof -
    have "(a * 1024 + b * 16 + c div 4) div 2 ^ 8 mod 256 = (a * 4 + p) mod 256"
      using div_mod_quot(1) [OF lt(1), of "a * 4 + p"] unfolding w by simp
    also have "\<dots> = a * 4 + b div 16" using lt(2) b(4) by simp
    finally show ?thesis using s(1) [of 8] by (simp only:)
  qed
  show "js_and 255 (int (a * 1024 + b * 16 + c div 4)) = int (b mod 16 * 16 + c div 4)"
    unfolding s(2) unfolding b(5) [symmetric] w div_mod_quot(2) [OF lt(1)] ..
qed

lemma js_put_next:
  "js_put (pre @ replicate (Suc n) 0) (length pre) (int v) = pre @ of_nat v # replicate n 0"
  by (simp add: js_put_def list_update_append)

lemma js_put_word: "js_put j k (int v) = j[k := of_nat v]"
  by (simp add: js_put_def)

lemma sextet_of_not_pad: "sextet_of url c = Some n \<Longrightarrow> c \<noteq> 61"
  using sextet_of_pad by auto

lemma b64_quad_cases:
  assumes "b64_bytes url r = Some ns" and "length r mod 4 = 0" and "r \<noteq> []"
  obtains (one) w v a b where "r = [w, v, 61, 61]" "sextet_of url w = Some a" "sextet_of url v = Some b"
      "ns = [a * 4 + b div 16]"
  | (two) w v y a b c where "r = [w, v, y, 61]" "sextet_of url w = Some a" "sextet_of url v = Some b"
      "sextet_of url y = Some c" "ns = [a * 4 + b div 16, b mod 16 * 16 + c div 4]"
  | (quad) w v y z r' a b c d t where "r = w # v # y # z # r'" "sextet_of url w = Some a"
      "sextet_of url v = Some b" "sextet_of url y = Some c" "sextet_of url z = Some d"
      "b64_bytes url r' = Some t"
      "ns = (a * 4 + b div 16) # (b mod 16 * 16 + c div 4) # (c mod 4 * 64 + d) # t"
proof -
  from assms(2,3) obtain w v y z r' where r: "r = w # v # y # z # r'"
    by (cases "(url, r)" rule: b64_bytes.cases) auto
  from assms(1) show ?thesis
    unfolding r by (auto split: option.splits if_splits intro: that simp: r)
qed

lemma b64_bytes_hd:
  assumes "b64_bytes url r = Some t" and "r \<noteq> []"
  obtains n where "sextet_of url (hd r) = Some n"
  using assms by (cases "(url, r)" rule: b64_bytes.cases) (auto split: option.splits)

lemma drop_quad: "drop 4 (w # v # y # z # r) = r"
  by simp

lemma rev_at_drop:
  assumes "drop i o' = w # r" and "k < length (w # r)" and "sextet_of url ((w # r) ! k) = Some n"
  shows "rev_at o' (i + k) = int n"
proof (rule rev_at_sextet [OF _ assms(3)])
  show "js_at o' (i + k) = Some ((w # r) ! k)"
    unfolding js_at_drop_add assms(1) using assms(2) by (simp add: js_at_def)
qed

lemma takeWhile_quad:
  assumes "sextet_of url w = Some a" and "sextet_of url v = Some b"
  shows "takeWhile (\<lambda>c. c \<noteq> 61) (w # v # r) = w # v # takeWhile (\<lambda>c. c \<noteq> 61) r"
  using assms by (auto dest: sextet_of_not_pad)

lemma decode_loop_quad:
  assumes "int i < B" and "rev_at o' i = int a" and "rev_at o' (i + 1) = int b"
    and "rev_at o' (i + 2) = int c" and "rev_at o' (i + 3) = int d"
    and "a < 64" and "b < 64" and "c < 64" and "d < 64"
  shows "decode_loop o' B i L j = decode_loop o' B (i + 4) (L + 3)
     (j[L := of_nat (a * 4 + b div 16), L + 1 := of_nat (b mod 16 * 16 + c div 4),
        L + 2 := of_nat (c mod 4 * 64 + d)])"
proof -
  note bytes = bytes_of_sextets [OF assms(6-9)]
  have "js_and (js_sar (int (a * 0x40000 + b * 0x1000 + c * 64 + d)) 16) 255 = int (a * 4 + b div 16)"
    using js_sextet(3) [OF bytes(4), of 16] bytes(1) by (simp del: of_nat_add of_nat_mult of_nat_div of_nat_mod)
  moreover have "js_and (js_sar (int (a * 0x40000 + b * 0x1000 + c * 64 + d)) 8) 255
      = int (b mod 16 * 16 + c div 4)"
    using js_sextet(3) [OF bytes(4), of 8] bytes(2) by (simp del: of_nat_add of_nat_mult of_nat_div of_nat_mod)
  moreover have "js_and 255 (int (a * 0x40000 + b * 0x1000 + c * 64 + d)) = int (c mod 4 * 64 + d)"
    using js_sextet(4) [OF bytes(4)] bytes(3) by (simp del: of_nat_add of_nat_mult of_nat_mod)
  ultimately show ?thesis
    using assms(1)
    by (subst decode_loop.simps) (simp only: if_True Let_def assms(2-5) quad_number [OF assms(6-9)] js_put_word)
qed

text \<open>
  The loop and the tail from position \<open>i\<close>, where the text \<open>r\<close> is left, the bytes \<open>pre\<close> are
  written and the rest of the array is still zero.
\<close>

lemma decode_from:
  assumes "b64_bytes url r = Some ns" and "length r mod 4 = 0" and "drop i o' = r"
    and "length o' = i + length r" and "i mod 4 = 0"
    and "x = i + length (takeWhile (\<lambda>c. c \<noteq> 61) r)" and "C = (if x = length o' then 0 else 4 - x mod 4)"
  shows "decode_tail o' (int C)
       (decode_loop o' (if 0 < C then int x - 4 else int x) i (length pre) (pre @ replicate (length ns) 0))
     = pre @ map of_nat ns"
  using assms
proof (induction "length r" arbitrary: r i ns pre rule: less_induct)
  case less
  show ?case
  proof (cases "r = []")
    case True
    with less.prems show ?thesis by (simp add: decode_loop.simps decode_tail_def)
  next
    case False
    from less.prems(1,2) False show ?thesis
    proof (cases rule: b64_quad_cases)
      case (one w v a b)
      note rev = rev_at_drop [OF less.prems(3) [unfolded one(1)]]
      have "rev_at o' i = int a" "rev_at o' (i + 1) = int b"
        using rev [of 0 url a] rev [of 1 url b] one by simp_all
      moreover have "x = i + 2" using less.prems(6) one by (auto dest: sextet_of_not_pad)
      moreover from this have "C = 2" using less.prems(4,5,7) one(1) by simp presburger
      ultimately show ?thesis
        using tail_numbers(1) [of a b a] tail_bytes(1) [of a b a] one
        by (simp add: decode_loop.simps decode_tail_def js_put_word sextet_of_Some
            list_update_append del: of_nat_add of_nat_mult of_nat_div)
    next
      case (two w v y a b c)
      note rev = rev_at_drop [OF less.prems(3) [unfolded two(1)]]
      have "rev_at o' i = int a" "rev_at o' (i + 1) = int b" "rev_at o' (i + 2) = int c"
        using rev [of 0 url a] rev [of 1 url b] rev [of 2 url c] two by simp_all
      moreover have "x = i + 3" using less.prems(6) two by (auto dest: sextet_of_not_pad)
      moreover from this have "C = 1" using less.prems(4,5,7) two(1) by simp presburger
      ultimately show ?thesis
        using tail_numbers(2) [of a b c] tail_bytes(2,3) [of a b c] two
        by (simp add: decode_loop.simps decode_tail_def js_put_word sextet_of_Some
            list_update_append del: of_nat_add of_nat_mult of_nat_div)
    next
      case (quad w v y z r' a b c d t)
      note rev = rev_at_drop [OF less.prems(3) [unfolded quad(1)]]
      have rv: "rev_at o' i = int a" "rev_at o' (i + 1) = int b" "rev_at o' (i + 2) = int c"
        "rev_at o' (i + 3) = int d"
        using rev [of 0 url a] rev [of 1 url b] rev [of 2 url c] rev [of 3 url d] quad by simp_all
      have lt: "a < 64" "b < 64" "c < 64" "d < 64" using quad by (auto dest: sextet_of_Some)
      let ?B = "if 0 < C then int x - 4 else int x"
      let ?w = "a * 0x40000 + b * 0x1000 + c * 64 + d"
      have x: "x = i + 4 + length (takeWhile (\<lambda>c. c \<noteq> 61) r')"
        using less.prems(6) quad by (auto dest: sextet_of_not_pad)
      have "r' = [] \<or> hd r' \<noteq> 61"
        using quad(6) by (auto dest: sextet_of_not_pad elim: b64_bytes_hd)
      then have "int i < ?B"
        using x less.prems(4,7) quad(1) by (cases r') auto
      then have "decode_loop o' ?B i (length pre) (pre @ replicate (length ns) 0) =
          decode_loop o' ?B (i + 4) (length (pre @ map of_nat (take 3 ns)))
            ((pre @ map of_nat (take 3 ns)) @ replicate (length t) 0)"
        unfolding decode_loop_quad [OF \<open>int i < ?B\<close> rv lt]
        by (simp add: quad(7) list_update_append numeral_3_eq_3 numeral_2_eq_2 add.commute)
      moreover have "decode_tail o' (int C) (decode_loop o' ?B (i + 4) (length (pre @ map of_nat (take 3 ns)))
            ((pre @ map of_nat (take 3 ns)) @ replicate (length t) 0)) =
          (pre @ map of_nat (take 3 ns)) @ map of_nat t"
      proof (rule less.hyps [OF _ quad(6)])
        show "drop (i + 4) o' = r'"
          using less.prems(3) quad(1) by (metis drop_drop add.commute drop_quad)
      qed (use less.prems quad(1) x in auto)
      ultimately show ?thesis by (simp add: quad(7) numeral_3_eq_3)
    qed
  qed
qed

lemma js_indexOf_pad:
  "(if js_indexOf c s = - 1 then int (length s) else js_indexOf c s)
     = int (length (takeWhile (\<lambda>d. d \<noteq> c) s))"
proof (cases "c \<in> set s")
  case False
  then have "takeWhile (\<lambda>d. d \<noteq> c) s = s"
    unfolding takeWhile_eq_all_conv by blast
  with False show ?thesis by (simp add: js_indexOf_def del: takeWhile_eq_all_conv)
qed (simp add: js_indexOf_def)

lemma getLens_Inr:
  "length s mod 4 = 0 \<Longrightarrow> getLens s =
     (let x = length (takeWhile (\<lambda>c. c \<noteq> 61) s)
      in Inr (int x, int (if x = length s then 0 else 4 - x mod 4)))"
  unfolding getLens_def Let_def js_indexOf_pad by (auto simp: zmod_int less_imp_le)

lemma getLens_Inl: "length s mod 4 \<noteq> 0 \<Longrightarrow> getLens s =
     Inl (Error (js ''Invalid string. Length must be a multiple of 4''))"
  unfolding getLens_def Let_def by simp presburger

text \<open>The number of bytes that the lengths promise is the number of bytes there are.\<close>

lemma b64_bytes_length:
  assumes "b64_bytes url r = Some ns" and "length r mod 4 = 0"
    and "x = length (takeWhile (\<lambda>c. c \<noteq> 61) r)" and "C = (if x = length r then 0 else 4 - x mod 4)"
  shows "3 * (x + C) = 4 * (length ns + C) \<and> C \<le> 2"
  using assms
proof (induction "length r" arbitrary: r ns x C rule: less_induct)
  case less
  show ?case
  proof (cases "r = []")
    case False
    with less.prems(1,2) show ?thesis
    proof (cases rule: b64_quad_cases)
      case (one w v a b)
      then have "x = 2" "C = 2" using less.prems(3,4) by (auto dest: sextet_of_not_pad)
      with one show ?thesis by simp
    next
      case (two w v y a b c)
      then have "x = 3" "C = 1" using less.prems(3,4) by (auto dest: sextet_of_not_pad)
      with two show ?thesis by simp
    next
      case (quad w v y z r' a b c d t)
      let ?x = "length (takeWhile (\<lambda>c. c \<noteq> 61) r')"
      have "x = 4 + ?x" using less.prems(3) quad by (auto dest: sextet_of_not_pad)
      moreover have "3 * (?x + C) = 4 * (length t + C) \<and> C \<le> 2"
        by (rule less.hyps [OF _ quad(6)]) (use less.prems(2,4) quad(1) \<open>x = 4 + ?x\<close> in auto)
      ultimately show ?thesis using quad(7) by simp
    qed
  qed (use less.prems in simp)
qed

lemma byteLength_decoded:
  assumes "b64_bytes url s = Some ns" and "length s mod 4 = 0"
  shows "byteLength s = Inr (int (length ns))"
proof -
  define x C where "x = length (takeWhile (\<lambda>c. c \<noteq> 61) s)"
    and "C = (if x = length s then 0 else 4 - x mod 4)"
  from b64_bytes_length [OF assms x_def C_def] have "int (3 * (x + C)) = int (4 * (length ns + C))"
    by (simp only:)
  then have "byte_length_of (int x) (int C) = int (length ns)" by (simp add: byte_length_of_def)
  then show ?thesis
    by (simp add: byteLength_def getLens_Inr [OF assms(2)] Let_def x_def [symmetric] C_def [symmetric]
        del: of_nat_diff)
qed

lemma toByteArray_decoded:
  assumes "b64_bytes url s = Some ns" and "length s mod 4 = 0"
  shows "toByteArray s = Inr (map of_nat ns)"
proof -
  define x C where "x = length (takeWhile (\<lambda>c. c \<noteq> 61) s)"
    and "C = (if x = length s then 0 else 4 - x mod 4)"
  have lens: "getLens s = Inr (int x, int C)"
    by (simp add: getLens_Inr [OF assms(2)] Let_def x_def [symmetric] C_def [symmetric])
  have "byte_length_of (int x) (int C) = int (length ns)"
    using byteLength_decoded [OF assms] by (simp add: byteLength_def lens)
  then have "toByteArray s = Inr (decode_tail s (int C)
      (decode_loop s (if 0 < C then int x - 4 else int x) 0 0 (replicate (length ns) 0)))"
    by (simp add: toByteArray_def lens new_Uint8Array_def)
  also have "\<dots> = Inr (map of_nat ns)"
    using decode_from [OF assms(1,2), of 0 s x C "[]"] by (simp add: x_def C_def)
  finally show ?thesis .
qed

lemma length_js_put [simp]: "length (js_put j k v) = length j"
  by (simp add: js_put_def)

lemma length_decode_loop:
  "decode_loop o' B i L j = (i', L', j') \<Longrightarrow> length j' = length j"
proof (induction o' B i L j rule: decode_loop.induct)
  case (1 o' B i L j)
  show ?case
    using 1(1) [OF _ refl] 1(2) by (subst (asm) (2) decode_loop.simps) (auto simp: Let_def split: if_splits)
qed

lemma length_decode_tail: "length (decode_tail s C (i, L, j)) = length j"
  by (simp add: decode_tail_def Let_def)

lemma getLens_first_pad:
  assumes "length s mod 4 = 0"
  obtains x C where "getLens s = Inr (int x, int C)" "x + C > 0 \<or> s = []"
    "4 dvd x + C" "x \<le> length s" "C \<le> 4" "C = 4 \<and> x = 0 \<longleftrightarrow> (\<exists>t. s = 61 # t)"
proof -
  define x C where "x = length (takeWhile (\<lambda>c. c \<noteq> 61) s)"
    and "C = (if x = length s then 0 else 4 - x mod 4)"
  have "x \<le> length s" by (simp add: x_def length_takeWhile_le)
  moreover have "x = 0 \<longleftrightarrow> s = [] \<or> (\<exists>t. s = 61 # t)"
    by (cases s) (auto simp: x_def)
  moreover have "4 dvd x + C" using assms by (auto simp: C_def) presburger
  ultimately show ?thesis
    using getLens_Inr [OF assms] by (intro that [of x C]) (auto simp: Let_def x_def C_def)
qed

section \<open>Properties\<close>

text \<open>
  C36. The browser encodes exactly as the server does: \<open>fromByteArray\<close> returns the text of the
  JDK's Base64 encoder, for inputs of any length; the cutting into chunks of 16383 bytes
  never shows.
\<close>

theorem fromByteArray_is_jdk: "fromByteArray bs = base64_std bs"
  by (rule fromByteArray_std)

text \<open>
  What the JDK decodes, in either alphabet, the browser decodes to the same bytes, and
  \<open>byteLength\<close> says how many, provided the length of the text is a multiple of four.
\<close>

lemma toByteArray_is_jdk:
  assumes "b64_decode url s = Inr bs" and "length s mod 4 = 0"
  shows "toByteArray s = Inr bs \<and> byteLength s = Inr (int (length bs))"
proof -
  from assms(1) obtain ns where "b64_bytes url s = Some ns" "bs = map of_nat ns"
    by (auto simp: b64_decode_def of_option_Inr_iff)
  then show ?thesis
    using toByteArray_decoded [OF _ assms(2)] byteLength_decoded [OF _ assms(2)] by simp
qed

lemma toByteArray_is_jdk_example:
  "toByteArray (js ''c2VjcmV0MQ=='') = Inr (utf8_encode (js ''secret1''))
   \<and> byteLength (js ''c2VjcmV0MQ=='') = Inr 7"
proof -
  have "b64_decode False (js ''c2VjcmV0MQ=='') = Inr (utf8_encode (js ''secret1''))" by code_simp
  moreover have "length (js ''c2VjcmV0MQ=='') mod 4 = 0" by (simp add: js_def)
  ultimately show ?thesis
    using toByteArray_is_jdk by (auto simp: utf8_encode_def js_def is_high_def is_low_def Let_def)
qed

text \<open>
  \<open>toByteArray\<close> throws exactly for a text whose length is not a multiple of four (an
  \<open>Error\<close>) and for one that starts with the padding character (a \<open>RangeError\<close>, from a typed
  array of length -1); otherwise the array has the length that \<open>byteLength\<close> returns.
\<close>

lemma toByteArray_outcome:
  "(toByteArray s = Inl (Error (js ''Invalid string. Length must be a multiple of 4''))
      \<longleftrightarrow> length s mod 4 \<noteq> 0)
   \<and> (toByteArray s = Inl RangeError \<longleftrightarrow> length s mod 4 = 0 \<and> (\<exists>t. s = 61 # t))
   \<and> (case toByteArray s of Inl _ \<Rightarrow> True | Inr bs \<Rightarrow> byteLength s = Inr (int (length bs)))"
proof (cases "length s mod 4 = 0")
  case True
  then obtain x C where lens: "getLens s = Inr (int x, int C)" "x + C > 0 \<or> s = []" "4 dvd x + C"
    "C \<le> 4" "C = 4 \<and> x = 0 \<longleftrightarrow> (\<exists>t. s = 61 # t)"
    by (rule getLens_first_pad)
  then obtain m where m: "x + C = 4 * m" by (auto elim: dvdE)
  then have "int x + int C = 4 * int m" by simp
  then have "3 * (int x + int C) div 4 = 3 * int m" by simp
  then have n: "byte_length_of (int x) (int C) = 3 * int m - int C" by (simp add: byte_length_of_def)
  have neg: "byte_length_of (int x) (int C) < 0 \<longleftrightarrow> (\<exists>t. s = 61 # t)"
    unfolding n lens(5) [symmetric] using m lens(4) by auto
  obtain i L j where loop: "decode_loop s (if 0 < C then int x - 4 else int x) 0 0
      (replicate (nat (byte_length_of (int x) (int C))) 0) = (i, L, j)" by (metis prod_cases3)
  have "toByteArray s = (if byte_length_of (int x) (int C) < 0 then Inl RangeError
      else Inr (decode_tail s (int C) (i, L, j)))"
    using loop by (simp add: toByteArray_def lens(1) new_Uint8Array_def)
  moreover have "length (decode_tail s (int C) (i, L, j)) = nat (byte_length_of (int x) (int C))"
    unfolding length_decode_tail using length_decode_loop [OF loop] by simp
  ultimately show ?thesis
    using neg True
    by (cases "byte_length_of (int x) (int C) < 0") (simp_all add: byteLength_def lens(1))
qed (simp add: toByteArray_def getLens_Inl)

text \<open>
  Whatever bytes the browser encodes it decodes to the same bytes.
\<close>

lemma byteArray_roundtrip: "toByteArray (fromByteArray bs) = Inr bs"
proof -
  have "length (b64_chars False True ns) mod 4 = 0" for ns
    by (induction "False" "True" ns rule: b64_chars.induct) simp_all
  then have "length (base64_std bs) mod 4 = 0" by (simp add: base64_std_def b64_encode_def)
  moreover have "b64_bytes False (base64_std bs) = Some (map unat bs)"
    unfolding base64_std_def b64_encode_def by (rule b64_bytes_chars) (auto simp: unat_byte_less)
  ultimately show ?thesis
    by (simp add: fromByteArray_std toByteArray_decoded map_of_nat_unat del: map_map)
qed

end
