(* ===== verification/SwaggerBuffer.thy ===== *)
theory SwaggerBuffer
  imports SwaggerBase64
begin

text \<open>
  The text encodings of the \<open>buffer\<close> module of the bundled Swagger UI (webpack module 48287, on
  the second line of \<open>swagger-ui-bundle.js\<close>): \<open>base64ToBytes\<close> with the cleaning before it,
  \<open>utf8ToBytes\<close> and \<open>utf8Slice\<close>, function by function as in the minified text. The lemmas
  compare them with the encodings the server uses: the two sides agree on every text the
  server produces, and on any other the JavaScript still returns.
\<close>

section \<open>base64ToBytes\<close>

text \<open>What \<open>trim\<close> removes: white space and line terminators of ECMAScript.\<close>

definition js_space :: "jchar \<Rightarrow> bool" where
  "js_space c \<longleftrightarrow>
     (let n = unat c in
      (9 \<le> n \<and> n \<le> 13) \<or> n = 0x20 \<or> n = 0xA0 \<or> n = 0x1680 \<or> (0x2000 \<le> n \<and> n \<le> 0x200A)
      \<or> n = 0x2028 \<or> n = 0x2029 \<or> n = 0x202F \<or> n = 0x205F \<or> n = 0x3000 \<or> n = 0xFEFF)"

text \<open>The regular expression \<open>[^+/0-9A-Za-z-_]\<close>: what the cleaning drops.\<close>

definition INVALID_BASE64 :: "jchar \<Rightarrow> bool" where
  "INVALID_BASE64 c \<longleftrightarrow>
     (let n = unat c in
      \<not> (n = 43 \<or> n = 47 \<or> (48 \<le> n \<and> n \<le> 57) \<or> (65 \<le> n \<and> n \<le> 90) \<or> (97 \<le> n \<and> n \<le> 122)
         \<or> n = 45 \<or> n = 95))"

text \<open>\<open>for(;o.length%4!=0;)o+="="\<close>\<close>

function pad_loop :: "jstring \<Rightarrow> jstring" where
  "pad_loop o' = (if length o' mod 4 \<noteq> 0 then pad_loop (o' @ [61]) else o')"
  by pat_completeness auto
termination
proof (relation "measure (\<lambda>o'. (4 - length o' mod 4) mod 4)")
  fix o' :: jstring assume "length o' mod 4 \<noteq> 0"
  then consider "length o' mod 4 = 1" | "length o' mod 4 = 2" | "length o' mod 4 = 3" by linarith
  then show "(o' @ [61], o') \<in> measure (\<lambda>o'. (4 - length o' mod 4) mod 4)"
    by cases (simp_all add: mod_Suc)
qed simp

declare pad_loop.simps [simp del]

definition base64clean :: "jstring \<Rightarrow> jstring" where
  "base64clean o' =
     (let t = filter (\<lambda>c. \<not> INVALID_BASE64 c) (trim_by js_space (takeWhile (\<lambda>c. c \<noteq> 61) o'))
      in if length t < 2 then [] else pad_loop t)"

definition base64ToBytes :: "jstring \<Rightarrow> js_error + byte list" where
  "base64ToBytes o' = toByteArray (base64clean o')"

section \<open>utf8ToBytes\<close>

text \<open>
  The number of bytes that may still be written, \<open>None\<close> for \<open>Infinity\<close>; \<open>s||1/0\<close> makes
  \<open>Infinity\<close> of a missing argument and of 0.
\<close>

definition units_of :: "int option \<Rightarrow> int option" where
  "units_of s = (if s = Some 0 then None else s)"

definition spend :: "int \<Rightarrow> int option \<Rightarrow> int option" where
  "spend k s = map_option (\<lambda>n. n - k) s"

definition enough :: "int option \<Rightarrow> bool" where
  "enough s = (case s of None \<Rightarrow> True | Some n \<Rightarrow> n > - 1)"

text \<open>
  The bytes of one code point after those in \<open>w\<close>: \<open>None\<close> when they do not fit, which ends the
  loop.
\<close>

definition utf8_push :: "int \<Rightarrow> int option \<Rightarrow> int list \<Rightarrow> js_error + (int option \<times> int list) option" where
  "utf8_push i s w =
     (if i < 128 then
        Inr (if enough (spend 1 s) then Some (spend 1 s, w @ [i]) else None)
      else if i < 2048 then
        Inr (if enough (spend 2 s) then
               Some (spend 2 s, w @ [js_or (js_sar i 6) 192, js_or (js_and 63 i) 128])
             else None)
      else if i < 65536 then
        Inr (if enough (spend 3 s) then
               Some (spend 3 s, w @ [js_or (js_sar i 12) 224, js_or (js_and (js_sar i 6) 63) 128,
                 js_or (js_and 63 i) 128])
             else None)
      else if \<not> i < 1114112 then Inl (Error (js ''Invalid code point''))
      else
        Inr (if enough (spend 4 s) then
               Some (spend 4 s, w @ [js_or (js_sar i 18) 240, js_or (js_and (js_sar i 12) 63) 128,
                 js_or (js_and (js_sar i 6) 63) 128, js_or (js_and 63 i) 128])
             else None))"

text \<open>The loop, with the pending lead surrogate; a missing half becomes U+FFFD.\<close>

fun utf8_loop :: "jstring \<Rightarrow> int option \<Rightarrow> int option \<Rightarrow> int list \<Rightarrow> js_error + int list" where
  "utf8_loop [] lead s w = Inr w"
| "utf8_loop (c # r) lead s w =
     (let i = int (unat c);
          s' = spend 3 s;
          w' = (if enough s' then w @ [239, 191, 189] else w);
          next = (\<lambda>i s w.
            (case utf8_push i s w of
               Inl e \<Rightarrow> Inl e
             | Inr None \<Rightarrow> Inr w
             | Inr (Some (s, w)) \<Rightarrow> utf8_loop r None s w))
      in if 55295 < i \<and> i < 57344 then
           (case lead of
              None \<Rightarrow>
                if 56319 < i then utf8_loop r None s' w'
                else if r = [] then utf8_loop r None s' w'
                else utf8_loop r (Some i) s w
            | Some l \<Rightarrow>
                if i < 56320 then utf8_loop r (Some i) s' w'
                else next (65536 + js_or (js_shl (l - 55296) 10) (i - 56320)) s w)
         else (case lead of None \<Rightarrow> next i s w | Some _ \<Rightarrow> next i s' w'))"

definition utf8ToBytes :: "jstring \<Rightarrow> int option \<Rightarrow> js_error + int list" where
  "utf8ToBytes o' s = utf8_loop o' None (units_of s) []"

section \<open>utf8Slice\<close>

text \<open>The code point at \<open>k\<close>, \<open>None\<close> if malformed, and the length its first byte announces.\<close>

definition code_point_at :: "byte list \<Rightarrow> nat \<Rightarrow> nat \<Rightarrow> int option \<times> nat" where
  "code_point_at o' k i =
     (let s = js_byte o' k;
          x = (if s > 239 then 4 else if s > 223 then 3 else if s > 191 then 2 else 1);
          b1 = js_byte o' (k + 1); b2 = js_byte o' (k + 2); b3 = js_byte o' (k + 3)
      in (if k + x \<le> i then
            (if x = 1 then (if s < 128 then Some s else None)
             else if x = 2 then
               (if js_and 192 b1 = 128 then
                  (let j = js_or (js_shl (js_and 31 s) 6) (js_and 63 b1)
                   in if j > 127 then Some j else None)
                else None)
             else if x = 3 then
               (if js_and 192 b1 = 128 \<and> js_and 192 b2 = 128 then
                  (let j = js_or (js_or (js_shl (js_and 15 s) 12) (js_shl (js_and 63 b1) 6)) (js_and 63 b2)
                   in if j > 2047 \<and> (j < 55296 \<or> j > 57343) then Some j else None)
                else None)
             else
               (if js_and 192 b1 = 128 \<and> js_and 192 b2 = 128 \<and> js_and 192 b3 = 128 then
                  (let j = js_or (js_or (js_or (js_shl (js_and 15 s) 18) (js_shl (js_and 63 b1) 12))
                                    (js_shl (js_and 63 b2) 6)) (js_and 63 b3)
                   in if j > 65535 \<and> j < 1114112 then Some j else None)
                else None))
          else None, x))"

function slice_loop :: "byte list \<Rightarrow> nat \<Rightarrow> nat \<Rightarrow> int list \<Rightarrow> int list" where
  "slice_loop o' k i u =
     (if k < i then
        (case code_point_at o' k i of
           (None, _) \<Rightarrow> slice_loop o' (k + 1) i (u @ [65533])
         | (Some w, x) \<Rightarrow>
             if w > 65535 then
               slice_loop o' (k + x) i
                 (u @ [js_or (js_and (js_sar (w - 65536) 10) 1023) 55296,
                       js_or 56320 (js_and 1023 (w - 65536))])
             else slice_loop o' (k + x) i (u @ [w]))
      else u)"
  by pat_completeness auto
termination
  by (relation "measure (\<lambda>(_, k, i, _). i - k)")
     (auto simp: code_point_at_def Let_def split: if_splits)

declare slice_loop.simps [simp del]

text \<open>\<open>String.fromCharCode\<close> of at most 4096 units at a time.\<close>

definition fromCharCode :: "int list \<Rightarrow> jstring" where
  "fromCharCode cs = map word_of_int cs"

function chars_loop :: "int list \<Rightarrow> nat \<Rightarrow> jstring" where
  "chars_loop o' u =
     (if u < length o' then fromCharCode (take 4096 (drop u o')) @ chars_loop o' (u + 4096) else [])"
  by pat_completeness auto
termination by (relation "measure (\<lambda>(o', u). length o' - u)") auto

declare chars_loop.simps [simp del]

definition decodeCodePointsArray :: "int list \<Rightarrow> jstring" where
  "decodeCodePointsArray o' = (if length o' \<le> 4096 then fromCharCode o' else chars_loop o' 0)"

definition utf8Slice :: "byte list \<Rightarrow> nat \<Rightarrow> nat \<Rightarrow> jstring" where
  "utf8Slice o' s i = decodeCodePointsArray (slice_loop o' s (min (length o') i) [])"

section \<open>Cleaning what the JDK accepts\<close>

lemma pad_loop_step:
  "length s mod 4 = 0 \<Longrightarrow> pad_loop s = s"
  "length s mod 4 \<noteq> 0 \<Longrightarrow> pad_loop s = pad_loop (s @ [61])"
  by (subst pad_loop.simps, simp)+

lemma replicate_few: "replicate 1 x = [x]" "replicate 2 x = [x, x]" "replicate 3 x = [x, x, x]"
  by (simp_all add: numeral_2_eq_2 numeral_3_eq_3)

lemma pad_loop_eq: "pad_loop s = s @ replicate ((4 - length s mod 4) mod 4) 61"
proof (induction s rule: pad_loop.induct)
  case (1 s)
  have len: "length (s @ [61]) mod 4 = Suc (length s mod 4) mod 4" by (simp add: mod_Suc_eq)
  show ?case
  proof (cases "length s mod 4 = 0")
    case False
    with "1.IH" have step: "pad_loop s =
        (s @ [61]) @ replicate ((4 - Suc (length s mod 4) mod 4) mod 4) 61"
      unfolding len [symmetric] by (simp only: pad_loop_step(2) not_False_eq_True)
    have "m = 1 \<or> m = 2 \<or> m = 3 \<Longrightarrow>
        [61] @ replicate ((4 - Suc m mod 4) mod 4) 61 = replicate ((4 - m) mod 4) (61 :: jchar)" for m
      by (elim disjE) (simp_all add: replicate_few)
    moreover have "length s mod 4 = 1 \<or> length s mod 4 = 2 \<or> length s mod 4 = 3"
      using False by linarith
    ultimately show ?thesis unfolding step append_assoc by (simp only:)
  qed (simp add: pad_loop_step(1))
qed

lemma length_pad_loop: "length (pad_loop s) mod 4 = 0"
proof -
  define q m where "q = length s div 4" and "m = length s mod 4"
  then have s: "length s = q * 4 + m" and "m < 4" by simp_all
  then have "m + (4 - m) mod 4 = 0 \<or> m + (4 - m) mod 4 = 4"
    by (cases "m = 0") simp_all
  then have "(q * 4 + (m + (4 - m) mod 4)) mod 4 = 0" by (elim disjE) simp_all
  then show ?thesis
    unfolding pad_loop_eq length_append length_replicate m_def [symmetric]
    unfolding s add.assoc .
qed

lemma pad_loop_quad: "pad_loop (w # x # y # z # r) = w # x # y # z # pad_loop r"
proof -
  have "length (w # x # y # z # r) mod 4 = length r mod 4" by simp
  then show ?thesis by (simp only: pad_loop_eq append_Cons)
qed

lemma pad_loop_short: "pad_loop [] = []" "pad_loop [w] = [w, 61, 61, 61]"
  "pad_loop [w, x] = [w, x, 61, 61]" "pad_loop [w, x, y] = [w, x, y, 61]"
  by (simp_all add: pad_loop_step)

text \<open>
  Everything before the first padding character of a text the JDK decodes is in the alphabet,
  and padding it anew leaves its meaning.
\<close>

lemma b64_bytes_repadded:
  "b64_bytes url s = Some ns \<Longrightarrow>
     b64_bytes url (pad_loop (takeWhile (\<lambda>c. c \<noteq> 61) s)) = Some ns
     \<and> (\<forall>c\<in>set (takeWhile (\<lambda>c. c \<noteq> 61) s). sextet_of url c \<noteq> None)"
proof (induction url s arbitrary: ns rule: b64_bytes.induct)
  case (3 url w x)
  then obtain a b where ab: "sextet_of url w = Some a" "sextet_of url x = Some b"
    by (auto split: option.splits)
  note ne = ab [THEN sextet_of_not_pad]
  with 3 ab show ?case by (simp add: pad_loop_short)
next
  case (4 url w x y)
  then obtain a b c where abc: "sextet_of url w = Some a" "sextet_of url x = Some b" "sextet_of url y = Some c"
    by (auto split: option.splits)
  note ne = abc [THEN sextet_of_not_pad]
  with 4 abc show ?case by (simp add: pad_loop_short)
next
  case (5 url w x y z r)
  then obtain a b where ab: "sextet_of url w = Some a" "sextet_of url x = Some b"
    by (auto split: option.splits)
  note ne = ab [THEN sextet_of_not_pad]
  show ?case
  proof (cases "y = 61")
    case True
    with 5 ab ne show ?thesis by (simp add: pad_loop_short split: if_splits)
  next
    case y: False
    with "5.prems" ab obtain c where c: "sextet_of url y = Some c" by (auto split: option.splits)
    show ?thesis
    proof (cases "z = 61")
      case True
      with 5 ab ne c y show ?thesis by (simp add: pad_loop_short split: if_splits)
    next
      case False
      with "5.prems" ab y c obtain d t where d: "sextet_of url z = Some d" "b64_bytes url r = Some t"
        by (auto split: option.splits)
      from "5.IH" [OF refl ab y c False d(1) d(2)] "5.prems" ab ne y c False d show ?thesis
        by (simp add: pad_loop_quad)
    qed
  qed
qed (simp_all add: pad_loop_short)

lemma sextet_of_kept:
  assumes "sextet_of url c = Some k"
  shows "\<not> INVALID_BASE64 c" "\<not> js_space c"
proof -
  from sextet_of_Some [OF assms] have k: "k < 64" "c = sextet_char url k" by auto
  define n where "n = unat c"
  have n: "65 \<le> n \<and> n \<le> 90 \<or> 97 \<le> n \<and> n \<le> 122 \<or> 48 \<le> n \<and> n \<le> 57 \<or> n = 43 \<or> n = 45
      \<or> n = 47 \<or> n = 95"
    unfolding n_def k(2) unat_sextet_char [OF k(1)] using k(1) by (simp split: if_split) arith
  then show "\<not> INVALID_BASE64 c" by (auto simp: INVALID_BASE64_def n_def [symmetric])
  have "32 < n" "n < 160" using n by auto
  then show "\<not> js_space c" by (simp add: js_space_def n_def [symmetric])
qed

lemma base64clean_decoded:
  assumes "b64_bytes url s = Some ns"
  shows "b64_bytes url (base64clean s) = Some ns \<and> length (base64clean s) mod 4 = 0"
proof -
  let ?t = "takeWhile (\<lambda>c. c \<noteq> 61) s"
  from b64_bytes_repadded [OF assms] have dec: "b64_bytes url (pad_loop ?t) = Some ns"
    and kept: "\<And>c. c \<in> set ?t \<Longrightarrow> \<not> INVALID_BASE64 c \<and> \<not> js_space c"
    using sextet_of_kept by auto
  have "trim_by js_space ?t = ?t"
  proof (rule trim_by_id)
    assume "?t \<noteq> []"
    then show "\<not> js_space (hd ?t) \<and> \<not> js_space (last ?t)"
      using kept [OF hd_in_set] kept [OF last_in_set] by blast
  qed
  moreover have "filter (\<lambda>c. \<not> INVALID_BASE64 c) ?t = ?t"
    using kept by (simp only: filter_id_conv ball_simps) blast
  ultimately have clean: "base64clean s = (if length ?t < 2 then [] else pad_loop ?t)"
    by (simp only: base64clean_def Let_def)
  show ?thesis
  proof (cases "length ?t < 2")
    case True
    then consider "?t = []" | w where "?t = [w]" by (cases ?t) (auto simp: Suc_less_eq2)
    then have "ns = []"
    proof cases
      case 2
      with dec show ?thesis by (simp add: pad_loop_short sextet_of_pad split: option.splits)
    qed (use dec in \<open>simp add: pad_loop_short\<close>)
    with True show ?thesis by (simp add: clean)
  qed (use dec length_pad_loop in \<open>simp add: clean\<close>)
qed

section \<open>One code point\<close>

text \<open>The bit operations on a code point, as the arithmetic of the encoder of the JDK.\<close>

lemma js_or_low:
  assumes "v < 64"
  shows "js_or (int v) 128 = int (0x80 + v)"
  using js_or_add [of "int v" 6 2] assms by (simp add: js_or_def or.commute)

lemma js_or_lead:
  "v < 32 \<Longrightarrow> js_or (int v) 192 = int (0xC0 + v)"
  "v < 16 \<Longrightarrow> js_or (int v) 224 = int (0xE0 + v)"
  "v < 8 \<Longrightarrow> js_or (int v) 240 = int (0xF0 + v)"
  using js_or_add [of "int v" 5 6] js_or_add [of "int v" 4 14] js_or_add [of "int v" 3 30]
  by (simp_all add: js_or_def or.commute)

lemma js_fields:
  assumes "p < 0x110000"
  shows "js_sar (int p) k = int (p div 2 ^ k)" "js_and (int (p div j)) 63 = int (p div j mod 64)"
    "js_and 63 (int p) = int (p mod 64)"
proof -
  have "p < 2 ^ 24" using assms by simp
  moreover from this have "p div j < 2 ^ 24" by (rule le_less_trans [OF div_le_dividend])
  ultimately show "js_sar (int p) k = int (p div 2 ^ k)" "js_and (int (p div j)) 63 = int (p div j mod 64)"
    "js_and 63 (int p) = int (p mod 64)"
    by (simp_all add: js_sextet js_and_63 zmod_int del: of_nat_div)
qed

definition cp_bytes :: "nat \<Rightarrow> nat list" where
  "cp_bytes p =
     (if p < 0x80 then [p]
      else if p < 0x800 then [0xC0 + p div 64, 0x80 + p mod 64]
      else if p < 0x10000 then [0xE0 + p div 0x1000, 0x80 + p div 64 mod 64, 0x80 + p mod 64]
      else [0xF0 + p div 0x40000, 0x80 + p div 0x1000 mod 64, 0x80 + p div 64 mod 64, 0x80 + p mod 64])"

lemma utf8_push_bytes:
  assumes "p < 0x110000"
  shows "utf8_push (int p) s w =
     (let k = int (length (cp_bytes p))
      in Inr (if enough (spend k s) then Some (spend k s, w @ map int (cp_bytes p)) else None))"
proof -
  note f = js_fields [OF assms]
  have low: "v mod 64 < 64" for v :: nat by simp
  consider (a) "p < 0x80" | (b) "0x80 \<le> p" "p < 0x800" | (c) "0x800 \<le> p" "p < 0x10000"
    | (d) "0x10000 \<le> p" by linarith
  then show ?thesis
  proof cases
    case b
    then have "p div 64 < 32" by (simp add: less_mult_imp_div_less)
    with b show ?thesis
      by (simp add: utf8_push_def cp_bytes_def f js_or_low js_or_lead del: of_nat_add of_nat_div of_nat_mod)
  next
    case c
    then have "p div 0x1000 < 16" by (simp add: less_mult_imp_div_less)
    with c show ?thesis
      by (simp add: utf8_push_def cp_bytes_def f js_or_low js_or_lead del: of_nat_add of_nat_div of_nat_mod)
  next
    case d
    have "p div 0x40000 < 8" using assms by (simp add: less_mult_imp_div_less)
    with d assms show ?thesis
      by (simp add: utf8_push_def cp_bytes_def f js_or_low js_or_lead del: of_nat_add of_nat_div of_nat_mod)
  qed (simp add: utf8_push_def cp_bytes_def)
qed

section \<open>Texts as sequences of code points\<close>

definition pair_point :: "jchar \<Rightarrow> jchar \<Rightarrow> nat" where
  "pair_point c d = 0x10000 + (unat c - 0xD800) * 0x400 + (unat d - 0xDC00)"

lemma utf16_ok_induct [consumes 1, case_names Nil single pair]:
  assumes "utf16_ok s" and "P []"
    and "\<And>c cs. \<not> is_high c \<Longrightarrow> \<not> is_low c \<Longrightarrow> utf16_ok cs \<Longrightarrow> P cs \<Longrightarrow> P (c # cs)"
    and "\<And>c d ds. is_high c \<Longrightarrow> is_low d \<Longrightarrow> utf16_ok ds \<Longrightarrow> P ds \<Longrightarrow> P (c # d # ds)"
  shows "P s"
  using assms(1) by (induction s rule: utf16_ok.induct) (auto intro: assms split: if_splits list.splits)

lemma pair_point_bounds:
  "is_high c \<Longrightarrow> is_low d \<Longrightarrow> 0x10000 \<le> pair_point c d \<and> pair_point c d < 0x110000"
  by (auto simp: pair_point_def is_high_def is_low_def)

lemma utf8_units_single:
  "\<not> is_high c \<Longrightarrow> \<not> is_low c \<Longrightarrow> utf8_units (c # cs) = cp_bytes (unat c) @ utf8_units cs"
  using unat_jchar_less [of c] by (simp add: cp_bytes_def Let_def)

lemma utf8_units_pair:
  assumes "is_high c" and "is_low d"
  shows "utf8_units (c # d # ds) = cp_bytes (pair_point c d) @ utf8_units ds"
proof -
  have "\<not> unat c < 0x800" using assms(1) by (simp add: is_high_def)
  with assms pair_point_bounds [OF assms] show ?thesis
    by (simp add: cp_bytes_def pair_point_def [symmetric] Let_def)
qed

lemma spend_spend: "spend k (spend j s) = spend (j + k) s"
  by (cases s) (simp_all add: spend_def)

lemma js_pair_point:
  assumes "is_high c" and "is_low d"
  shows "65536 + js_or (js_shl (int (unat c) - 55296) 10) (int (unat d) - 56320) = int (pair_point c d)"
proof -
  define a b where "a = unat c - 0xD800" and "b = unat d - 0xDC00"
  have ab: "int (unat c) - 55296 = int a" "int (unat d) - 56320 = int b" "a < 1024" "b < 1024"
    using assms by (auto simp: a_def b_def is_high_def is_low_def)
  then have "js_shl (int a) 10 = int a * 2 ^ 10" by (simp add: js_shl_mult)
  moreover have "js_or (int a * 2 ^ 10) (int b) = int a * 2 ^ 10 + int b"
    by (rule js_or_add) (use ab in simp_all)
  ultimately show ?thesis
    unfolding ab by (simp add: pair_point_def a_def [symmetric] b_def [symmetric])
qed

text \<open>The step of the loop for a whole code point.\<close>

lemma utf8_loop_single:
  assumes "\<not> is_high c" and "\<not> is_low c"
  shows "utf8_loop (c # r) None s w =
     (let k = int (length (cp_bytes (unat c)))
      in if enough (spend k s) then utf8_loop r None (spend k s) (w @ map int (cp_bytes (unat c)))
         else Inr w)"
proof -
  have "unat c < 0x110000" using unat_jchar_less [of c] by simp
  then have push: "utf8_push (int (unat c)) s w =
      (let k = int (length (cp_bytes (unat c)))
       in Inr (if enough (spend k s) then Some (spend k s, w @ map int (cp_bytes (unat c))) else None))"
    by (rule utf8_push_bytes)
  consider "unat c < 55296" | "55295 < unat c" "57344 \<le> unat c"
    using assms unfolding is_high_def is_low_def by linarith
  then show ?thesis by cases (simp_all add: push Let_def del: of_nat_unat)
qed

lemma utf8_loop_pair:
  assumes "is_high c" and "is_low d"
  shows "utf8_loop (c # d # r) None s w =
     (let k = int (length (cp_bytes (pair_point c d)))
      in if enough (spend k s) then utf8_loop r None (spend k s) (w @ map int (cp_bytes (pair_point c d)))
         else Inr w)"
proof -
  have "55295 < int (unat c)" "int (unat c) < 57344" "\<not> 56319 < int (unat c)"
    "55295 < int (unat d)" "int (unat d) < 57344" "\<not> int (unat d) < 56320"
    using assms unfolding is_high_def is_low_def by linarith+
  then show ?thesis
    using pair_point_bounds [OF assms]
    by (simp add: js_pair_point [OF assms] utf8_push_bytes Let_def del: of_nat_unat)
qed

definition first_point :: "jstring \<Rightarrow> jstring" where
  "first_point s = (case s of c # d # r \<Rightarrow> if is_high c then [c, d] else [c] | _ \<Rightarrow> s)"

text \<open>The loop writes the longest prefix of whole code points that fits.\<close>

lemma utf8_loop_fits:
  "utf16_ok s \<Longrightarrow> enough l \<Longrightarrow>
     \<exists>t u. s = t @ u \<and> utf16_ok t \<and> utf16_ok u
       \<and> utf8_loop s None l w = Inr (w @ map int (utf8_units t))
       \<and> enough (spend (int (length (utf8_units t))) l)
       \<and> (u \<noteq> [] \<longrightarrow> \<not> enough (spend (int (length (utf8_units t @ utf8_units (first_point u)))) l))"
proof (induction s arbitrary: l w rule: utf16_ok_induct)
  case Nil
  then show ?case by (simp add: spend_def option.map_ident)
next
  case (single c cs)
  let ?b = "cp_bytes (unat c)"
  show ?case
  proof (cases "enough (spend (int (length ?b)) l)")
    case True
    from single.IH [OF True, of "w @ map int ?b"] obtain t u where
      "cs = t @ u" "utf16_ok t" "utf16_ok u"
      "utf8_loop cs None (spend (int (length ?b)) l) (w @ map int ?b) = Inr ((w @ map int ?b) @ map int (utf8_units t))"
      "enough (spend (int (length (utf8_units t))) (spend (int (length ?b)) l))"
      "u \<noteq> [] \<longrightarrow> \<not> enough (spend (int (length (utf8_units t @ utf8_units (first_point u))))
         (spend (int (length ?b)) l))" by blast
    with single True show ?thesis
      by (intro exI [of _ "c # t"] exI [of _ u])
         (simp add: utf8_loop_single utf8_units_single spend_spend add.assoc Let_def
            del: utf8_loop.simps utf8_units.simps)
  next
    case False
    have "utf8_units (first_point (c # cs)) = ?b"
      using single utf8_units_single [of c "[]"]
      by (simp add: first_point_def split: list.split del: utf8_units.simps) simp
    with False single show ?thesis
      by (intro exI [of _ "[]"] exI [of _ "c # cs"])
         (simp add: utf8_loop_single spend_def option.map_ident Let_def del: utf8_loop.simps)
  qed
next
  case (pair c d ds)
  let ?b = "cp_bytes (pair_point c d)"
  show ?case
  proof (cases "enough (spend (int (length ?b)) l)")
    case True
    from pair.IH [OF True, of "w @ map int ?b"] obtain t u where
      "ds = t @ u" "utf16_ok t" "utf16_ok u"
      "utf8_loop ds None (spend (int (length ?b)) l) (w @ map int ?b) = Inr ((w @ map int ?b) @ map int (utf8_units t))"
      "enough (spend (int (length (utf8_units t))) (spend (int (length ?b)) l))"
      "u \<noteq> [] \<longrightarrow> \<not> enough (spend (int (length (utf8_units t @ utf8_units (first_point u))))
         (spend (int (length ?b)) l))" by blast
    with pair True show ?thesis
      by (intro exI [of _ "c # d # t"] exI [of _ u])
         (simp add: utf8_loop_pair utf8_units_pair spend_spend add.assoc Let_def
            del: utf8_loop.simps utf8_units.simps)
  next
    case False
    have "utf8_units (first_point (c # d # ds)) = ?b"
      using pair utf8_units_pair [of c d "[]"] by (simp add: first_point_def del: utf8_units.simps) simp
    with False pair show ?thesis
      by (intro exI [of _ "[]"] exI [of _ "c # d # ds"])
         (simp add: utf8_loop_pair spend_def option.map_ident Let_def del: utf8_loop.simps)
  qed
qed

section \<open>Any text\<close>

text \<open>What the loop may return after \<open>w\<close>, with \<open>l\<close> bytes left to write.\<close>

definition written :: "int option \<Rightarrow> int list \<Rightarrow> js_error + int list \<Rightarrow> bool" where
  "written l w r \<longleftrightarrow>
     (\<exists>b. r = Inr (w @ b) \<and> list_all (\<lambda>x. 0 \<le> x \<and> x < 256) b
       \<and> (case l of None \<Rightarrow> True | Some n \<Rightarrow> int (length b) \<le> max 0 n))"

lemma written_stop: "written l w (Inr w)"
  by (simp add: written_def split: option.split)

lemma written_more:
  assumes "written (spend (int (length b)) l) (w @ b) r" and "enough (spend (int (length b)) l)"
    and "list_all (\<lambda>x. 0 \<le> x \<and> x < 256) b"
  shows "written l w r"
proof -
  from assms(1) obtain c where c: "r = Inr (w @ b @ c)" "list_all (\<lambda>x. 0 \<le> x \<and> x < 256) c"
    "case spend (int (length b)) l of None \<Rightarrow> True | Some n \<Rightarrow> int (length c) \<le> max 0 n"
    by (auto simp: written_def)
  moreover have "case l of None \<Rightarrow> True | Some n \<Rightarrow> int (length (b @ c)) \<le> max 0 n"
    using c(3) assms(2) by (cases l) (simp_all add: spend_def enough_def)
  ultimately show ?thesis
    unfolding written_def using assms(3) by (intro exI [of _ "b @ c"]) simp
qed

lemma written_less: "written (spend k l) w r \<Longrightarrow> 0 \<le> k \<Longrightarrow> written l w r"
  unfolding written_def by (cases l) (fastforce simp: spend_def)+

lemma written_repl:
  assumes "written (spend 3 l) (if enough (spend 3 l) then w @ [239, 191, 189] else w) r"
  shows "written l w r"
proof (cases "enough (spend 3 l)")
  case True
  then have "written (spend (int (length [239, 191, 189 :: int])) l) (w @ [239, 191, 189]) r"
    using assms by simp
  then show ?thesis by (rule written_more) (use True in simp_all)
qed (use assms written_less [of 3 l w r] in simp)

lemma cp_bytes_byte:
  assumes "p < 0x110000"
  shows "list_all (\<lambda>x. 0 \<le> x \<and> x < 256) (map int (cp_bytes p))"
proof -
  have low: "0x80 + v mod 64 < 256" for v :: nat
    using mod_less_divisor [of 64 v] by simp
  have "p < 0x800 \<Longrightarrow> p div 64 < 64" "p < 0x10000 \<Longrightarrow> p div 0x1000 < 32" "p div 0x40000 < 16"
    using assms by (simp_all add: less_mult_imp_div_less)
  then have "list_all (\<lambda>x. x < 256) (cp_bytes p)"
    using low by (simp add: cp_bytes_def)
  then show ?thesis by (simp add: list_all_iff)
qed

lemma written_point:
  assumes "p < 0x110000" and "\<And>s w. written s w (f s w)"
  shows "written l w (case utf8_push (int p) l w of
      Inl e \<Rightarrow> Inl e | Inr None \<Rightarrow> Inr w | Inr (Some (s, w)) \<Rightarrow> f s w)"
proof (cases "enough (spend (int (length (cp_bytes p))) l)")
  case True
  have "written l w (f (spend (int (length (cp_bytes p))) l) (w @ map int (cp_bytes p)))"
    using written_more [of "map int (cp_bytes p)" l w] assms(2) True cp_bytes_byte [OF assms(1)] by simp
  with True show ?thesis by (simp add: utf8_push_bytes [OF assms(1)] Let_def)
next
  case False
  then show ?thesis by (simp add: utf8_push_bytes [OF assms(1)] Let_def written_stop)
qed

definition lead_ok :: "int option \<Rightarrow> bool" where
  "lead_ok lead \<longleftrightarrow> (case lead of None \<Rightarrow> True | Some l \<Rightarrow> \<exists>c. is_high c \<and> l = int (unat c))"

lemma utf8_loop_written: "lead_ok lead \<Longrightarrow> written l w (utf8_loop s lead l w)"
proof (induction s arbitrary: lead l w)
  case Nil
  show ?case by (simp add: written_stop)
next
  case (Cons c r)
  let ?n = "unat c"
  have c: "?n < 0x110000" using unat_jchar_less [of c] by simp
  have none: "written s w (utf8_loop r None s w)" for s w
    by (rule Cons.IH) (simp add: lead_ok_def)
  have held: "is_high c \<Longrightarrow> written s w (utf8_loop r (Some (int ?n)) s w)" for s w
    by (rule Cons.IH) (auto simp: lead_ok_def)
  consider (plain) "\<not> is_high c" "\<not> is_low c" | (high) "is_high c" | (low) "is_low c" "\<not> is_high c" by blast
  then show ?case
  proof cases
    case plain
    then consider "?n < 55296" | "55295 < ?n" "57344 \<le> ?n"
      unfolding is_high_def is_low_def by linarith
    then show ?thesis
      using written_point [OF c none, of l w] written_repl [OF written_point [OF c none]]
      by cases (cases lead; simp add: Let_def del: of_nat_unat)+
  next
    case high
    then have "55295 < int ?n" "int ?n < 57344" "\<not> 56319 < int ?n" "int ?n < 56320"
      unfolding is_high_def by linarith+
    then show ?thesis
      using held [OF high] written_repl [OF written_stop] written_repl [OF held [OF high]]
      by (cases lead) (simp_all add: Let_def del: of_nat_unat)
  next
    case low
    then have n: "55295 < int ?n" "int ?n < 57344" "56319 < int ?n" "\<not> int ?n < 56320"
      unfolding is_high_def is_low_def by linarith+
    show ?thesis
    proof (cases lead)
      case None
      with n written_repl [OF none] show ?thesis by (simp add: Let_def del: of_nat_unat)
    next
      case (Some h)
      with Cons.prems obtain d where d: "is_high d" "h = int (unat d)" by (auto simp: lead_ok_def)
      have "pair_point d c < 0x110000" using pair_point_bounds d(1) low(1) by blast
      from written_point [OF this none, of l w] n Some show ?thesis
        by (simp add: d(2) js_pair_point [OF d(1) low(1)] Let_def del: of_nat_unat)
    qed
  qed
qed

section \<open>Reading a code point back\<close>

lemma js_and_low_bits:
  fixes v q :: nat
  assumes "v < 2 ^ k" and "k \<le> 30" and "q * 2 ^ k + v < 2 ^ 31"
  shows "js_and (mask k) (int (q * 2 ^ k + v)) = int v"
proof -
  have "int (q * 2 ^ k + v) < 2 ^ 31"
    using assms(3) by (metis of_nat_less_iff of_nat_numeral of_nat_power)
  then have "js_and (mask k) (int (q * 2 ^ k + v)) = int (q * 2 ^ k + v) mod int (2 ^ k)"
    by (simp add: js_and_mod assms(2) del: of_nat_add of_nat_mult)
  also have "\<dots> = int v" using assms(1) by (simp only: zmod_int [symmetric] div_mod_quot(2))
  finally show ?thesis .
qed

lemma js_and_cont:
  assumes "v < 64"
  shows "js_and 192 (int (0x80 + v)) = 128" "js_and 63 (int (0x80 + v)) = int v"
proof -
  have "list_all (\<lambda>b. js_and 192 (int b) = 128) [128..<192]" by code_simp
  moreover have "0x80 + v \<in> set [128..<192]"
    by (simp only: set_upt atLeastLessThan_iff) (use assms in simp)
  ultimately show "js_and 192 (int (0x80 + v)) = 128" unfolding list_all_iff by blast
  show "js_and 63 (int (0x80 + v)) = int v"
    using js_and_low_bits [of v 6 2] assms by (simp add: mask_eq_exp_minus_1)
qed

lemma js_and_lead:
  "v < 32 \<Longrightarrow> js_and 31 (int (0xC0 + v)) = int v"
  "v < 16 \<Longrightarrow> js_and 15 (int (0xE0 + v)) = int v"
  "v < 16 \<Longrightarrow> js_and 15 (int (0xF0 + v)) = int v"
  using js_and_low_bits [of v 5 6] js_and_low_bits [of v 4 14] js_and_low_bits [of v 4 15]
  by (simp_all add: mask_eq_exp_minus_1)

lemma js_or_fields:
  fixes a b c d :: nat
  assumes "a < 64" and "b < 64" and "c < 64" and "d < 64"
  shows "js_or (js_shl (int a) 6) (int b) = int (a * 64 + b)"
    "js_or (js_or (js_shl (int a) 12) (js_shl (int b) 6)) (int c) = int (a * 0x1000 + b * 64 + c)"
    "js_or (js_or (js_or (js_shl (int a) 18) (js_shl (int b) 12)) (js_shl (int c) 6)) (int d)
     = int (a * 0x40000 + b * 0x1000 + c * 64 + d)"
proof -
  have join: "js_or (int (x * 2 ^ n)) (int y) = int (x * 2 ^ n + y)"
    if "y < 2 ^ n" "x * 2 ^ n + y < 2 ^ 31" for x y n :: nat
  proof -
    have "int y < int (2 ^ n)" "int (x * 2 ^ n + y) < int (2 ^ 31)"
      using that by (simp_all only: of_nat_less_iff)
    then have "int y < 2 ^ n" "int x * 2 ^ n + int y < 2 ^ 31" by simp_all
    then show ?thesis using js_or_add [of "int y" n "int x"] by simp
  qed
  have shl: "js_shl (int x) n = int (x * 2 ^ n)" if "x < 64" "n = 6 \<or> n = 12 \<or> n = 18" for x n
    by (rule js_shl_nat) (use that in auto)
  show "js_or (js_shl (int a) 6) (int b) = int (a * 64 + b)"
    using join [of b 6 a] shl [OF assms(1), of 6] assms by simp
  have "js_or (js_shl (int a) 12) (js_shl (int b) 6) = int ((a * 64 + b) * 2 ^ 6)"
    using join [of "b * 64" 12 a] shl [OF assms(1), of 12] shl [OF assms(2), of 6] assms by simp
  then show "js_or (js_or (js_shl (int a) 12) (js_shl (int b) 6)) (int c) = int (a * 0x1000 + b * 64 + c)"
    using join [of c 6 "a * 64 + b"] assms by simp
  have "js_or (js_shl (int a) 18) (js_shl (int b) 12) = int ((a * 64 + b) * 2 ^ 12)"
    using join [of "b * 0x1000" 18 a] shl [OF assms(1), of 18] shl [OF assms(2), of 12] assms by simp
  then have "js_or (js_or (js_shl (int a) 18) (js_shl (int b) 12)) (js_shl (int c) 6)
      = int ((a * 0x1000 + b * 64 + c) * 2 ^ 6)"
    using join [of "c * 64" 12 "a * 64 + b"] shl [OF assms(3), of 6] assms by simp
  then show "js_or (js_or (js_or (js_shl (int a) 18) (js_shl (int b) 12)) (js_shl (int c) 6)) (int d)
      = int (a * 0x40000 + b * 0x1000 + c * 64 + d)"
    using join [of d 6 "a * 0x1000 + b * 64 + c"] assms by simp
qed

lemma js_byte_drop:
  assumes "drop k o' = map of_nat bs @ r" and "j < length bs" and "list_all (\<lambda>b. b < 256) bs"
  shows "js_byte o' (k + j) = int (bs ! j)"
proof -
  have "k + j < length o'" using assms(1,2) by (metis length_drop length_append
      length_map less_diff_conv add.commute trans_less_add1)
  moreover from this have "o' ! (k + j) = (of_nat (bs ! j) :: byte)"
    using assms(1,2) nth_drop [of k o' j] by (simp add: nth_append)
  moreover have "unat (of_nat (bs ! j) :: byte) = bs ! j"
    using assms(2,3) by (simp add: list_all_length unat_of_nat)
  ultimately show ?thesis by (simp add: js_byte_nth)
qed

lemma code_point_at_bytes:
  assumes at: "drop k o' = map of_nat (cp_bytes p) @ r" and p: "p < 0x110000"
    and valid: "\<not> (0xD800 \<le> p \<and> p < 0xE000)"
  shows "code_point_at o' k (length o') = (Some (int p), length (cp_bytes p))"
proof -
  have "list_all (\<lambda>b. b < 256) (cp_bytes p)"
    using cp_bytes_byte [OF p] by (simp add: list_all_iff)
  note byte = js_byte_drop [OF at _ this]
  have "length (drop k o') = length (cp_bytes p) + length r" unfolding at by simp
  moreover have "0 < length (cp_bytes p)" by (simp add: cp_bytes_def)
  ultimately have room: "k + length (cp_bytes p) \<le> length o'" by (simp del: length_greater_0_conv)
  have low: "v mod 64 < 64" for v :: nat by simp
  consider (a) "p < 0x80" | (b) "0x80 \<le> p" "p < 0x800" | (c) "0x800 \<le> p" "p < 0x10000"
    | (d) "0x10000 \<le> p" by linarith
  then show ?thesis
  proof cases
    case a
    then have "js_byte o' k = int p" using byte [of 0] by (simp add: cp_bytes_def)
    with a room show ?thesis by (simp add: code_point_at_def cp_bytes_def Let_def)
  next
    case b
    then have lt: "p div 64 < 32" by (simp add: less_mult_imp_div_less)
    have bs: "js_byte o' k = int (0xC0 + p div 64)" "js_byte o' (Suc k) = int (0x80 + p mod 64)"
      using byte [of 0] byte [of 1] b by (simp_all add: cp_bytes_def)
    have "js_or (js_shl (int (p div 64)) 6) (int (p mod 64)) = int p"
      using js_or_fields(1) [of "p div 64" "p mod 64" 0 0] lt by simp
    moreover have "\<not> 239 < int (0xC0 + p div 64)" "\<not> 223 < int (0xC0 + p div 64)"
      "191 < int (0xC0 + p div 64)" using lt by auto
    moreover have "k + 2 \<le> length o'" using b room by (simp add: cp_bytes_def)
    ultimately show ?thesis
      using b by (simp add: code_point_at_def Let_def bs js_and_cont js_and_lead lt cp_bytes_def
          del: of_nat_add of_nat_div of_nat_mod)
  next
    case c
    then have lt: "p div 0x1000 < 16" by (simp add: less_mult_imp_div_less)
    have bs: "js_byte o' k = int (0xE0 + p div 0x1000)" "js_byte o' (Suc k) = int (0x80 + p div 64 mod 64)"
      "js_byte o' (Suc (Suc k)) = int (0x80 + p mod 64)"
      using byte [of 0] byte [of 1] byte [of 2] c by (simp_all add: cp_bytes_def)
    have "js_or (js_or (js_shl (int (p div 0x1000)) 12) (js_shl (int (p div 64 mod 64)) 6))
        (int (p mod 64)) = int p"
      using js_or_fields(2) [of "p div 0x1000" "p div 64 mod 64" "p mod 64" 0] lt
      by (simp only: digits64_3)
    moreover have "\<not> 239 < int (0xE0 + p div 0x1000)" "223 < int (0xE0 + p div 0x1000)"
      "191 < int (0xE0 + p div 0x1000)" using lt by auto
    moreover have "k + 3 \<le> length o'" using c room by (simp add: cp_bytes_def)
    moreover have "2047 < int p \<and> (int p < 55296 \<or> 57343 < int p)" using c valid by auto
    ultimately show ?thesis
      using c by (simp add: code_point_at_def Let_def bs js_and_cont js_and_lead lt cp_bytes_def
          del: of_nat_add of_nat_div of_nat_mod)
  next
    case d
    have lt: "p div 0x40000 < 16" using p by (simp add: less_mult_imp_div_less)
    have bs: "js_byte o' k = int (0xF0 + p div 0x40000)"
      "js_byte o' (Suc k) = int (0x80 + p div 0x1000 mod 64)"
      "js_byte o' (Suc (Suc k)) = int (0x80 + p div 64 mod 64)" "js_byte o' (k + 3) = int (0x80 + p mod 64)"
      using byte [of 0] byte [of 1] byte [of 2] byte [of 3] d by (simp_all add: cp_bytes_def)
    have "js_or (js_or (js_or (js_shl (int (p div 0x40000)) 18) (js_shl (int (p div 0x1000 mod 64)) 12))
        (js_shl (int (p div 64 mod 64)) 6)) (int (p mod 64)) = int p"
      using js_or_fields(3) [of "p div 0x40000" "p div 0x1000 mod 64" "p div 64 mod 64" "p mod 64"] lt
      by (simp only: digits64_4)
    moreover have "239 < int (0xF0 + p div 0x40000)" by auto
    moreover have "k + 4 \<le> length o'" using d room by (simp add: cp_bytes_def)
    ultimately show ?thesis
      using d p by (simp add: code_point_at_def Let_def bs js_and_cont js_and_lead lt cp_bytes_def
          del: of_nat_add of_nat_div of_nat_mod)
  qed
qed

section \<open>Slicing what was written\<close>

lemma slice_loop_end: "slice_loop o' (length o') (length o') u = u"
  by (simp add: slice_loop.simps)

lemma drop_cp_bytes:
  assumes "drop k o' = map of_nat (cp_bytes p) @ r"
  shows "k < length o'" "drop (k + length (cp_bytes p)) o' = r"
proof -
  have "0 < length (cp_bytes p)" by (simp add: cp_bytes_def)
  then have "drop k o' \<noteq> []" using assms by auto
  then show "k < length o'" by simp
  have "drop (k + length (cp_bytes p)) o' = drop (length (cp_bytes p)) (drop k o')"
    by (simp add: add.commute)
  then show "drop (k + length (cp_bytes p)) o' = r" unfolding assms by simp
qed

lemma slice_loop_single:
  assumes "drop k o' = map of_nat (cp_bytes (unat c)) @ r" and "\<not> is_high c" and "\<not> is_low c"
  shows "slice_loop o' k (length o') u
       = slice_loop o' (k + length (cp_bytes (unat c))) (length o') (u @ [int (unat c)])"
proof -
  have "unat c < 0x10000" by (rule unat_jchar_less [simplified])
  moreover have "\<not> (0xD800 \<le> unat c \<and> unat c < 0xE000)"
    using assms(2,3) unfolding is_high_def is_low_def by linarith
  ultimately have "code_point_at o' k (length o') = (Some (int (unat c)), length (cp_bytes (unat c)))"
    by (intro code_point_at_bytes [OF assms(1)]) simp_all
  moreover have "\<not> int (unat c) > 65535" using \<open>unat c < 0x10000\<close> by linarith
  ultimately show ?thesis
    using drop_cp_bytes(1) [OF assms(1)] by (subst slice_loop.simps) (simp del: of_nat_unat)
qed

lemma surrogates_of_point:
  assumes "is_high c" and "is_low d"
  defines "w \<equiv> int (pair_point c d) - 65536"
  shows "js_or (js_and (js_sar w 10) 1023) 55296 = int (unat c)" "js_or 56320 (js_and 1023 w) = int (unat d)"
proof -
  define a b where "a = unat c - 0xD800" and "b = unat d - 0xDC00"
  have ab: "a < 1024" "b < 1024" "int (unat c) = int (54 * 2 ^ 10) + int a" "int (unat d) = int (55 * 2 ^ 10) + int b"
    using assms(1,2) by (auto simp: a_def b_def is_high_def is_low_def)
  have w: "w = int (a * 2 ^ 10 + b)"
    by (simp add: w_def pair_point_def a_def b_def)
  have bound: "a * 2 ^ 10 + b < 2 ^ 24" using ab by simp
  have "js_sar w 10 = int a"
    unfolding w js_sextet(5) [OF bound] by (simp add: ab(2) del: of_nat_div)
  moreover have "js_and (int a) 1023 = int a"
    using js_and_mod(1) [of "int a" 10] ab(1) by (simp add: mask_eq_exp_minus_1)
  moreover have "js_or (int a) 55296 = 55296 + int a"
    using js_or_add [of "int a" 10 54] ab(1) by (simp add: js_or_def or.commute)
  ultimately show "js_or (js_and (js_sar w 10) 1023) 55296 = int (unat c)" using ab(3) by simp
  have "js_and 1023 w = int b"
    using js_and_low_bits [of b 10 a] ab unfolding w by (simp add: mask_eq_exp_minus_1)
  moreover have "js_or 56320 (int b) = 56320 + int b"
    using js_or_add [of "int b" 10 55] ab(2) by simp
  ultimately show "js_or 56320 (js_and 1023 w) = int (unat d)" using ab(4) by simp
qed

lemma slice_loop_pair:
  assumes "drop k o' = map of_nat (cp_bytes (pair_point c d)) @ r" and "is_high c" and "is_low d"
  shows "slice_loop o' k (length o') u
       = slice_loop o' (k + length (cp_bytes (pair_point c d))) (length o')
           (u @ [int (unat c), int (unat d)])"
proof -
  note b = pair_point_bounds [OF assms(2,3)]
  then have "code_point_at o' k (length o') = (Some (int (pair_point c d)), length (cp_bytes (pair_point c d)))"
    by (intro code_point_at_bytes [OF assms(1)]) simp_all
  moreover have "int (pair_point c d) > 65535" using b by linarith
  ultimately show ?thesis
    using drop_cp_bytes(1) [OF assms(1)] surrogates_of_point [OF assms(2,3)]
    by (subst slice_loop.simps) (simp del: of_nat_unat)
qed

lemma slice_loop_units:
  "utf16_ok s \<Longrightarrow> k \<le> length o' \<Longrightarrow> drop k o' = map of_nat (utf8_units s) \<Longrightarrow>
     slice_loop o' k (length o') u = u @ map (\<lambda>c. int (unat c)) s"
proof (induction s arbitrary: k u rule: utf16_ok_induct)
  case Nil
  then have "k = length o'" by simp
  then show ?case by (simp add: slice_loop_end)
next
  case (single c cs)
  let ?k = "k + length (cp_bytes (unat c))"
  from single.prems(2) have at: "drop k o' = map of_nat (cp_bytes (unat c)) @ map of_nat (utf8_units cs)"
    unfolding utf8_units_single [OF single.hyps(1,2)] by simp
  have "length (drop k o') = length (cp_bytes (unat c)) + length (utf8_units cs)" unfolding at by simp
  then have "?k \<le> length o'" using single.prems(1) by (simp only: length_drop)
  from single.IH [OF this drop_cp_bytes(2) [OF at]] show ?case
    unfolding slice_loop_single [OF at single.hyps(1,2)] by simp
next
  case (pair c d ds)
  let ?k = "k + length (cp_bytes (pair_point c d))"
  from pair.prems(2) have at: "drop k o' = map of_nat (cp_bytes (pair_point c d)) @ map of_nat (utf8_units ds)"
    unfolding utf8_units_pair [OF pair.hyps(1,2)] by simp
  have "length (drop k o') = length (cp_bytes (pair_point c d)) + length (utf8_units ds)" unfolding at by simp
  then have "?k \<le> length o'" using pair.prems(1) by (simp only: length_drop)
  from pair.IH [OF this drop_cp_bytes(2) [OF at]] show ?case
    unfolding slice_loop_pair [OF at pair.hyps(1,2)] by simp
qed

lemma chars_loop_map: "chars_loop o' u = fromCharCode (drop u o')"
proof (induction o' u rule: chars_loop.induct)
  case (1 o' u)
  show ?case
  proof (cases "u < length o'")
    case True
    have "drop u o' = take 4096 (drop u o') @ drop (u + 4096) o'"
      by (metis append_take_drop_id drop_drop add.commute)
    then have "fromCharCode (drop u o') = fromCharCode (take 4096 (drop u o')) @ fromCharCode (drop (u + 4096) o')"
      unfolding fromCharCode_def by (metis map_append)
    with 1 True show ?thesis by (subst chars_loop.simps) simp
  next
    case False
    then show ?thesis by (subst chars_loop.simps) (simp add: fromCharCode_def)
  qed
qed

lemma decodeCodePointsArray_map: "decodeCodePointsArray o' = fromCharCode o'"
  by (simp add: decodeCodePointsArray_def chars_loop_map)

lemma utf8_encode_units: "map unat (utf8_encode s) = utf8_units s"
  unfolding utf8_encode_def using utf8_units_byte [of s] by (intro map_unat_of_nat) (auto simp: list_all_iff)

lemma utf8Slice_encode:
  assumes "utf16_ok s"
  shows "utf8Slice (utf8_encode s) 0 (length (utf8_encode s)) = s"
proof -
  have "slice_loop (utf8_encode s) 0 (length (utf8_encode s)) [] = [] @ map (\<lambda>c. int (unat c)) s"
    by (rule slice_loop_units [OF assms]) (simp_all add: utf8_encode_def)
  then have "utf8Slice (utf8_encode s) 0 (length (utf8_encode s)) = map (\<lambda>c. word_of_int (int (unat c))) s"
    by (simp add: utf8Slice_def decodeCodePointsArray_map fromCharCode_def comp_def del: of_nat_unat)
  then show ?thesis by simp
qed

lemma utf16_ok_append_first: "utf16_ok t \<Longrightarrow> utf8_units (t @ s) = utf8_units t @ utf8_units s"
proof (induction t rule: utf16_ok_induct)
  case (single c cs)
  then show ?case
    by (simp only: append_Cons utf8_units_single [OF single.hyps(1,2)]) simp
next
  case (pair c d ds)
  then show ?case
    by (simp only: append_Cons utf8_units_pair [OF pair.hyps(1,2)]) simp
qed simp

lemma base64clean_shape:
  "length (base64clean s) mod 4 = 0 \<and> (base64clean s = [] \<or> hd (base64clean s) \<noteq> 61)"
proof -
  define t where "t = filter (\<lambda>c. \<not> INVALID_BASE64 c) (trim_by js_space (takeWhile (\<lambda>c. c \<noteq> 61) s))"
  have "c \<noteq> 61" if "c \<in> set t" for c
    using that by (auto simp: t_def INVALID_BASE64_def)
  moreover have "base64clean s = (if length t < 2 then [] else pad_loop t)"
    by (simp add: base64clean_def t_def Let_def)
  ultimately show ?thesis
    using length_pad_loop [of t] by (cases t) (simp_all add: pad_loop_eq del: mod_0_imp_dvd)
qed

lemma toByteArray_throws:
  assumes "toByteArray s = Inl e"
  shows "e = RangeError \<or> e = Error (js ''Invalid string. Length must be a multiple of 4'')"
  using assms by (auto simp: toByteArray_def getLens_def new_Uint8Array_def Let_def split: if_splits)

text \<open>
  A lead surrogate at the very end of a text becomes U+FFFD, but not when another lead stands
  before it: that one is written for the first, and the second is dropped.
\<close>

lemma pending_lead_dropped:
  "utf8ToBytes [0xD801] None = Inr [239, 191, 189]"
  "utf8ToBytes [0xD800, 0xD801] None = Inr [239, 191, 189]"
  by (simp_all add: utf8ToBytes_def units_of_def spend_def enough_def)

section \<open>Properties\<close>

text \<open>
  \<open>base64ToBytes\<close> never throws, whatever it is given, and what the JDK decodes, in either
  alphabet, padded or not, it decodes to the same bytes: the segments of a token, which carry
  no padding, included.
\<close>

lemma base64ToBytes_is_jdk:
  "(\<exists>b. base64ToBytes s = Inr b) \<and> (\<forall>url bs. b64_decode url s = Inr bs \<longrightarrow> base64ToBytes s = Inr bs)"
proof (intro conjI allI impI)
  let ?t = "base64clean s"
  have "toByteArray ?t \<noteq> Inl e" for e
  proof
    assume e: "toByteArray ?t = Inl e"
    show False
      using toByteArray_outcome [of ?t] base64clean_shape [of s] toByteArray_throws [OF e] e by auto
  qed
  then show "\<exists>b. base64ToBytes s = Inr b"
    unfolding base64ToBytes_def by (cases "toByteArray ?t") auto
next
  fix url bs
  assume "b64_decode url s = Inr bs"
  then obtain ns where "b64_bytes url s = Some ns" "bs = map of_nat ns"
    by (auto simp: b64_decode_def of_option_Inr_iff)
  then show "base64ToBytes s = Inr bs"
    using base64clean_decoded [of url s ns] toByteArray_decoded [of url "base64clean s" ns]
    by (simp add: base64ToBytes_def)
qed

lemma base64ToBytes_is_jdk_example:
  "base64ToBytes (js ''c2VjcmV0MQ'') = Inr (utf8_encode (js ''secret1''))"
proof -
  have "b64_decode True (js ''c2VjcmV0MQ'') = Inr (utf8_encode (js ''secret1''))" by code_simp
  then show ?thesis using base64ToBytes_is_jdk by blast
qed

text \<open>
  C37. With room for \<open>n\<close> bytes, \<open>utf8ToBytes\<close> of a well-formed text writes the JDK's encoding
  of its longest prefix of whole characters that fits, and \<open>utf8Slice\<close> reads that prefix back.
\<close>

theorem utf8ToBytes_longest_prefix:
  assumes "utf16_ok s" and "0 < n"
  shows "\<exists>t u. s = t @ u \<and> utf8ToBytes s (Some n) = Inr (map (\<lambda>b. int (unat b)) (utf8_encode t))
      \<and> int (length (utf8_encode t)) \<le> n
      \<and> (u = [] \<or> n < int (length (utf8_encode (t @ first_point u))))
      \<and> utf8Slice (utf8_encode t) 0 (length (utf8_encode t)) = t"
proof -
  have bytes: "map int (utf8_units t) = map (\<lambda>b. int (unat b)) (utf8_encode t)" for t
    unfolding utf8_encode_units [symmetric] by simp
  have room: "enough (spend k (Some n)) \<longleftrightarrow> k \<le> n" for k
    by (auto simp: spend_def enough_def)
  have "enough (Some n)" using assms(2) by (simp add: enough_def)
  from utf8_loop_fits [OF assms(1) this, of "[]"] obtain t u where
    t: "s = t @ u" "utf16_ok t" "utf8_loop s None (Some n) [] = Inr (map int (utf8_units t))"
      "int (length (utf8_units t)) \<le> n"
      "u \<noteq> [] \<longrightarrow> \<not> int (length (utf8_units t @ utf8_units (first_point u))) \<le> n"
    unfolding room append_Nil by blast
  have "length (utf8_encode x) = length (utf8_units x)" for x by (simp add: utf8_encode_def)
  note len = this
  have "utf8ToBytes s (Some n) = Inr (map (\<lambda>b. int (unat b)) (utf8_encode t))"
    using t(3) assms(2) unfolding bytes [symmetric] by (simp add: utf8ToBytes_def units_of_def)
  moreover have "u = [] \<or> n < int (length (utf8_encode (t @ first_point u)))"
    using t(5) unfolding len utf16_ok_append_first [OF t(2)] by linarith
  ultimately show ?thesis
    using t(1,4) utf8Slice_encode [OF t(2)] unfolding len by blast
qed

theorem utf8ToBytes_longest_prefix_witness:
  "\<exists>t u. [0x61, 0xE9] = t @ u
      \<and> utf8ToBytes [0x61, 0xE9] (Some 2) = Inr (map (\<lambda>b. int (unat b)) (utf8_encode t))
      \<and> int (length (utf8_encode t)) \<le> 2
      \<and> (u = [] \<or> 2 < int (length (utf8_encode (t @ first_point u))))
      \<and> utf8Slice (utf8_encode t) 0 (length (utf8_encode t)) = t"
  by (rule utf8ToBytes_longest_prefix) (simp_all add: is_high_def is_low_def)

text \<open>
  \<open>utf8ToBytes\<close> never throws, unpaired surrogates included: its "Invalid code point" is
  unreachable. It returns bytes, and never more of them than there is room for.
\<close>

lemma utf8ToBytes_total:
  "\<exists>b. utf8ToBytes s units = Inr b \<and> list_all (\<lambda>x. 0 \<le> x \<and> x < 256) b
     \<and> (case units of None \<Rightarrow> True | Some n \<Rightarrow> n = 0 \<or> int (length b) \<le> max 0 n)"
proof -
  have "written (units_of units) [] (utf8ToBytes s units)"
    unfolding utf8ToBytes_def by (rule utf8_loop_written) (simp add: lead_ok_def)
  then show ?thesis by (auto simp: written_def units_of_def split: option.splits if_splits)
qed

end
