(* ===== verification/SwaggerNumbers.thy ===== *)
theory SwaggerNumbers
  imports Complex_Main JavaScript "HOL-Library.Signed_Division"
begin

unbundle bit_operations_syntax

text \<open>
  The numeric reads and writes of \<open>Buffer.prototype\<close> in the \<open>buffer\<close> module of the bundled
  Swagger UI (webpack module 48287): integers of 1 to 6 bytes, of 8, 16 and 32 bits, and
  \<open>BigInt\<close>s of 64 bits, little-endian and big-endian, signed and unsigned. The lemmas show
  that each write stores the two's complement bytes of its value and nothing else, that each
  read gives it back, and that the fixed widths agree with the general functions.

  The receiver is a \<open>Buffer\<close>, given by its bytes; numbers are integers. The general functions
  compute with doubles, which are exact up to 6 bytes: the code does not check that bound, the
  lemmas state it. A read past the end gives \<open>undefined\<close>, which arithmetic turns into \<open>NaN\<close>;
  both are \<open>None\<close>. The flag is the last argument of the JavaScript, \<open>noAssert\<close>.
\<close>

section \<open>Numbers and elements\<close>

definition to_uint32 :: "int \<Rightarrow> int" where
  "to_uint32 x = take_bit 32 x"

definition js_shr :: "int \<Rightarrow> nat \<Rightarrow> int" where
  "js_shr x n = drop_bit n (to_uint32 x)"

text \<open>\<open>xs[k]\<close> and \<open>xs[k]=v\<close> of a byte array, with any integer as the index.\<close>

definition js_elem :: "byte list \<Rightarrow> int \<Rightarrow> int option" where
  "js_elem o' k = (if k < 0 then None else map_option (\<lambda>b. int (unat b)) (js_at o' (nat k)))"

definition js_store :: "byte list \<Rightarrow> int \<Rightarrow> int \<Rightarrow> byte list" where
  "js_store o' k v = (if k < 0 then o' else js_put o' (nat k) v)"

text \<open>Arithmetic on a value that may be \<open>undefined\<close> or \<open>NaN\<close>.\<close>

definition js_lift2 :: "(int \<Rightarrow> int \<Rightarrow> int) \<Rightarrow> int option \<Rightarrow> int option \<Rightarrow> int option" where
  "js_lift2 f x y = (case (x, y) of (Some a, Some b) \<Rightarrow> Some (f a b) | _ \<Rightarrow> None)"

definition js_add :: "int option \<Rightarrow> int option \<Rightarrow> int option" where
  "js_add = js_lift2 (+)"

definition js_mul :: "int option \<Rightarrow> int \<Rightarrow> int option" where
  "js_mul x y = js_lift2 (*) x (Some y)"

text \<open>The quotient by a power of two, as a bitwise operator takes it: truncated.\<close>

definition js_quot :: "int \<Rightarrow> int \<Rightarrow> int" where
  "js_quot x y = x sdiv y"

section \<open>Checks\<close>

definition checkOffset :: "int \<Rightarrow> int \<Rightarrow> int \<Rightarrow> bool" where
  "checkOffset o' s i \<longleftrightarrow> \<not> (o' < 0) \<and> \<not> (o' + s > i)"

text \<open>The bounds are reals: \<open>Math.pow(2,8*i-1)\<close> is a half when \<open>i\<close> is 0.\<close>

definition checkInt :: "byte list \<Rightarrow> int \<Rightarrow> int \<Rightarrow> int \<Rightarrow> real \<Rightarrow> real \<Rightarrow> bool" where
  "checkInt o' s i u hi lo \<longleftrightarrow>
     \<not> (of_int s > hi \<or> of_int s < lo) \<and> \<not> (i + u > int (length o'))"

section \<open>Integers of a given number of bytes\<close>

text \<open>\<open>for(;++w<s&&(_*=256);)u+=this[o+w]*_\<close>; the result is \<open>(u, _)\<close>.\<close>

function le_loop :: "byte list \<Rightarrow> int \<Rightarrow> int \<Rightarrow> int option \<Rightarrow> int \<Rightarrow> int \<Rightarrow> int option \<times> int" where
  "le_loop this o' s u m w =
     (if w + 1 < s then
        le_loop this o' s (js_add u (js_mul (js_elem this (o' + (w + 1))) (m * 256))) (m * 256) (w + 1)
      else (u, m))"
  by pat_completeness auto
termination by (relation "measure (\<lambda>(_, _, s, _, _, w). nat (s - w))") auto

declare le_loop.simps [simp del]

text \<open>\<open>for(;s>0&&(_*=256);)u+=this[o+--s]*_\<close>\<close>

function be_loop :: "byte list \<Rightarrow> int \<Rightarrow> int \<Rightarrow> int option \<Rightarrow> int \<Rightarrow> int option \<times> int" where
  "be_loop this o' s u m =
     (if s > 0 then
        be_loop this o' (s - 1) (js_add u (js_mul (js_elem this (o' + (s - 1))) (m * 256))) (m * 256)
      else (u, m))"
  by pat_completeness auto
termination by (relation "measure (\<lambda>(_, _, s, _, _). nat s)") auto

declare be_loop.simps [simp del]

definition readUIntLE :: "byte list \<Rightarrow> int \<Rightarrow> int \<Rightarrow> bool \<Rightarrow> js_error + int option" where
  "readUIntLE this o' s i =
     (let o' = to_uint32 o'; s = to_uint32 s
      in if \<not> i \<and> \<not> checkOffset o' s (int (length this)) then Inl RangeError
         else Inr (fst (le_loop this o' s (js_elem this o') 1 0)))"

definition readUIntBE :: "byte list \<Rightarrow> int \<Rightarrow> int \<Rightarrow> bool \<Rightarrow> js_error + int option" where
  "readUIntBE this o' s i =
     (let o' = to_uint32 o'; s = to_uint32 s
      in if \<not> i \<and> \<not> checkOffset o' s (int (length this)) then Inl RangeError
         else Inr (fst (be_loop this o' (s - 1) (js_elem this (o' + (s - 1))) 1)))"

text \<open>\<open>_*=128,u>=_&&(u-=Math.pow(2,8*s))\<close>\<close>

definition wrap_sign :: "int \<Rightarrow> int option \<times> int \<Rightarrow> int option" where
  "wrap_sign s r =
     (case r of (u, m) \<Rightarrow> map_option (\<lambda>u. if u \<ge> m * 128 then u - 2 ^ nat (8 * s) else u) u)"

definition readIntLE :: "byte list \<Rightarrow> int \<Rightarrow> int \<Rightarrow> bool \<Rightarrow> js_error + int option" where
  "readIntLE this o' s i =
     (let o' = to_uint32 o'; s = to_uint32 s
      in if \<not> i \<and> \<not> checkOffset o' s (int (length this)) then Inl RangeError
         else Inr (wrap_sign s (le_loop this o' s (js_elem this o') 1 0)))"

definition readIntBE :: "byte list \<Rightarrow> int \<Rightarrow> int \<Rightarrow> bool \<Rightarrow> js_error + int option" where
  "readIntBE this o' s i =
     (let o' = to_uint32 o'; s = to_uint32 s
      in if \<not> i \<and> \<not> checkOffset o' s (int (length this)) then Inl RangeError
         else Inr (wrap_sign s (be_loop this o' (s - 1) (js_elem this (o' + (s - 1))) 1)))"

text \<open>\<open>for(;++w<i&&(_*=256);)this[s+w]=o/_&255\<close>\<close>

function put_le_loop :: "byte list \<Rightarrow> int \<Rightarrow> int \<Rightarrow> int \<Rightarrow> int \<Rightarrow> int \<Rightarrow> byte list" where
  "put_le_loop this o' s i m w =
     (if w + 1 < i then
        put_le_loop (js_store this (s + (w + 1)) (js_and (js_quot o' (m * 256)) 255)) o' s i (m * 256) (w + 1)
      else this)"
  by pat_completeness auto
termination by (relation "measure (\<lambda>(_, _, _, i, _, w). nat (i - w))") auto

declare put_le_loop.simps [simp del]

text \<open>\<open>for(;--_>=0&&(w*=256);)this[s+_]=o/w&255\<close>\<close>

function put_be_loop :: "byte list \<Rightarrow> int \<Rightarrow> int \<Rightarrow> int \<Rightarrow> int \<Rightarrow> byte list" where
  "put_be_loop this o' s j m =
     (if j - 1 \<ge> 0 then
        put_be_loop (js_store this (s + (j - 1)) (js_and (js_quot o' (m * 256)) 255)) o' s (j - 1) (m * 256)
      else this)"
  by pat_completeness auto
termination by (relation "measure (\<lambda>(_, _, _, j, _). nat j)") auto

declare put_be_loop.simps [simp del]

definition writeUIntLE :: "byte list \<Rightarrow> int \<Rightarrow> int \<Rightarrow> int \<Rightarrow> bool \<Rightarrow> js_error + (byte list \<times> int)" where
  "writeUIntLE this o' s i u =
     (let s = to_uint32 s; i = to_uint32 i
      in if \<not> u \<and> \<not> checkInt this o' s i (2 powi (8 * i) - 1) 0 then Inl RangeError
         else Inr (put_le_loop (js_store this s (js_and 255 o')) o' s i 1 0, s + i))"

definition writeUIntBE :: "byte list \<Rightarrow> int \<Rightarrow> int \<Rightarrow> int \<Rightarrow> bool \<Rightarrow> js_error + (byte list \<times> int)" where
  "writeUIntBE this o' s i u =
     (let s = to_uint32 s; i = to_uint32 i
      in if \<not> u \<and> \<not> checkInt this o' s i (2 powi (8 * i) - 1) 0 then Inl RangeError
         else Inr (put_be_loop (js_store this (s + (i - 1)) (js_and 255 o')) o' s (i - 1) 1, s + i))"

text \<open>
  The signed loops, with the borrow \<open>x\<close>: of a negative value the truncated quotient is one too
  large once a lower byte is not 0. The size of \<open>writeIntLE\<close> and \<open>writeIntBE\<close> is not converted.
\<close>

definition borrow :: "byte list \<Rightarrow> int \<Rightarrow> int \<Rightarrow> int \<Rightarrow> int" where
  "borrow this o' x k = (if o' < 0 \<and> x = 0 \<and> js_elem this k \<noteq> Some 0 then 1 else x)"

function put_sle_loop :: "byte list \<Rightarrow> int \<Rightarrow> int \<Rightarrow> int \<Rightarrow> int \<Rightarrow> int \<Rightarrow> int \<Rightarrow> byte list" where
  "put_sle_loop this o' s i j w x =
     (if j + 1 < i then
        (let w = w * 256; x = borrow this o' x (s + j)
         in put_sle_loop (js_store this (s + (j + 1)) (js_and (to_int32 (js_quot o' w) - x) 255))
              o' s i (j + 1) w x)
      else this)"
  by pat_completeness auto
termination by (relation "measure (\<lambda>(_, _, _, i, j, _, _). nat (i - j))") (auto simp: Let_def)

declare put_sle_loop.simps [simp del]

function put_sbe_loop :: "byte list \<Rightarrow> int \<Rightarrow> int \<Rightarrow> int \<Rightarrow> int \<Rightarrow> int \<Rightarrow> byte list" where
  "put_sbe_loop this o' s j w x =
     (if j - 1 \<ge> 0 then
        (let w = w * 256; x = borrow this o' x (s + j)
         in put_sbe_loop (js_store this (s + (j - 1)) (js_and (to_int32 (js_quot o' w) - x) 255))
              o' s (j - 1) w x)
      else this)"
  by pat_completeness auto
termination by (relation "measure (\<lambda>(_, _, _, j, _, _). nat j)") (auto simp: Let_def)

declare put_sbe_loop.simps [simp del]

definition writeIntLE :: "byte list \<Rightarrow> int \<Rightarrow> int \<Rightarrow> int \<Rightarrow> bool \<Rightarrow> js_error + (byte list \<times> int)" where
  "writeIntLE this o' s i u =
     (let s = to_uint32 s; l = 2 powi (8 * i - 1)
      in if \<not> u \<and> \<not> checkInt this o' s i (l - 1) (- l) then Inl RangeError
         else Inr (put_sle_loop (js_store this s (js_and 255 o')) o' s i 0 1 0, s + i))"

definition writeIntBE :: "byte list \<Rightarrow> int \<Rightarrow> int \<Rightarrow> int \<Rightarrow> bool \<Rightarrow> js_error + (byte list \<times> int)" where
  "writeIntBE this o' s i u =
     (let s = to_uint32 s; l = 2 powi (8 * i - 1)
      in if \<not> u \<and> \<not> checkInt this o' s i (l - 1) (- l) then Inl RangeError
         else Inr (put_sbe_loop (js_store this (s + (i - 1)) (js_and 255 o')) o' s (i - 1) 1 0, s + i))"

section \<open>8, 16 and 32 bits\<close>

text \<open>An operand of a bitwise operator: \<open>undefined\<close> counts as 0.\<close>

abbreviation num_at :: "byte list \<Rightarrow> int \<Rightarrow> int" where
  "num_at this k \<equiv> js_num (js_elem this k)"

definition checked_read :: "byte list \<Rightarrow> int \<Rightarrow> int \<Rightarrow> bool \<Rightarrow> (int \<Rightarrow> int option) \<Rightarrow> js_error + int option" where
  "checked_read this o' n s value =
     (let o' = to_uint32 o'
      in if \<not> s \<and> \<not> checkOffset o' n (int (length this)) then Inl RangeError else Inr (value o'))"

definition readUInt8 :: "byte list \<Rightarrow> int \<Rightarrow> bool \<Rightarrow> js_error + int option" where
  "readUInt8 this o' s = checked_read this o' 1 s (\<lambda>o'. js_elem this o')"

definition readUInt16LE :: "byte list \<Rightarrow> int \<Rightarrow> bool \<Rightarrow> js_error + int option" where
  "readUInt16LE this o' s = checked_read this o' 2 s
     (\<lambda>o'. Some (js_or (num_at this o') (js_shl (num_at this (o' + 1)) 8)))"

definition readUInt16BE :: "byte list \<Rightarrow> int \<Rightarrow> bool \<Rightarrow> js_error + int option" where
  "readUInt16BE this o' s = checked_read this o' 2 s
     (\<lambda>o'. Some (js_or (js_shl (num_at this o') 8) (num_at this (o' + 1))))"

definition readUInt32LE :: "byte list \<Rightarrow> int \<Rightarrow> bool \<Rightarrow> js_error + int option" where
  "readUInt32LE this o' s = checked_read this o' 4 s
     (\<lambda>o'. js_add
        (Some (js_or (js_or (num_at this o') (js_shl (num_at this (o' + 1)) 8))
           (js_shl (num_at this (o' + 2)) 16)))
        (js_mul (js_elem this (o' + 3)) 16777216))"

definition readUInt32BE :: "byte list \<Rightarrow> int \<Rightarrow> bool \<Rightarrow> js_error + int option" where
  "readUInt32BE this o' s = checked_read this o' 4 s
     (\<lambda>o'. js_add
        (js_mul (js_elem this o') 16777216)
        (Some (js_or (js_or (js_shl (num_at this (o' + 1)) 16) (js_shl (num_at this (o' + 2)) 8))
           (num_at this (o' + 3)))))"

definition readInt8 :: "byte list \<Rightarrow> int \<Rightarrow> bool \<Rightarrow> js_error + int option" where
  "readInt8 this o' s = checked_read this o' 1 s
     (\<lambda>o'. if js_and 128 (num_at this o') \<noteq> 0
           then map_option (\<lambda>b. - 1 * (255 - b + 1)) (js_elem this o') else js_elem this o')"

definition readInt16LE :: "byte list \<Rightarrow> int \<Rightarrow> bool \<Rightarrow> js_error + int option" where
  "readInt16LE this o' s = checked_read this o' 2 s
     (\<lambda>o'. let i = js_or (num_at this o') (js_shl (num_at this (o' + 1)) 8)
           in Some (if js_and 32768 i \<noteq> 0 then js_or 4294901760 i else i))"

definition readInt16BE :: "byte list \<Rightarrow> int \<Rightarrow> bool \<Rightarrow> js_error + int option" where
  "readInt16BE this o' s = checked_read this o' 2 s
     (\<lambda>o'. let i = js_or (num_at this (o' + 1)) (js_shl (num_at this o') 8)
           in Some (if js_and 32768 i \<noteq> 0 then js_or 4294901760 i else i))"

definition readInt32LE :: "byte list \<Rightarrow> int \<Rightarrow> bool \<Rightarrow> js_error + int option" where
  "readInt32LE this o' s = checked_read this o' 4 s
     (\<lambda>o'. Some (js_or (js_or (js_or (num_at this o') (js_shl (num_at this (o' + 1)) 8))
        (js_shl (num_at this (o' + 2)) 16)) (js_shl (num_at this (o' + 3)) 24)))"

definition readInt32BE :: "byte list \<Rightarrow> int \<Rightarrow> bool \<Rightarrow> js_error + int option" where
  "readInt32BE this o' s = checked_read this o' 4 s
     (\<lambda>o'. Some (js_or (js_or (js_or (js_shl (num_at this o') 24) (js_shl (num_at this (o' + 1)) 16))
        (js_shl (num_at this (o' + 2)) 8)) (num_at this (o' + 3))))"

definition checked_write ::
  "byte list \<Rightarrow> int \<Rightarrow> int \<Rightarrow> int \<Rightarrow> real \<Rightarrow> real \<Rightarrow> bool \<Rightarrow> (int \<Rightarrow> byte list) \<Rightarrow> js_error + (byte list \<times> int)"
where
  "checked_write this o' s n hi lo i stores =
     (let s = to_uint32 s
      in if \<not> i \<and> \<not> checkInt this o' s n hi lo then Inl RangeError else Inr (stores s, s + n))"

definition writeUInt8 :: "byte list \<Rightarrow> int \<Rightarrow> int \<Rightarrow> bool \<Rightarrow> js_error + (byte list \<times> int)" where
  "writeUInt8 this o' s i = checked_write this o' s 1 255 0 i (\<lambda>s. js_store this s (js_and 255 o'))"

definition writeUInt16LE :: "byte list \<Rightarrow> int \<Rightarrow> int \<Rightarrow> bool \<Rightarrow> js_error + (byte list \<times> int)" where
  "writeUInt16LE this o' s i = checked_write this o' s 2 65535 0 i
     (\<lambda>s. js_store (js_store this s (js_and 255 o')) (s + 1) (js_shr o' 8))"

definition writeUInt16BE :: "byte list \<Rightarrow> int \<Rightarrow> int \<Rightarrow> bool \<Rightarrow> js_error + (byte list \<times> int)" where
  "writeUInt16BE this o' s i = checked_write this o' s 2 65535 0 i
     (\<lambda>s. js_store (js_store this s (js_shr o' 8)) (s + 1) (js_and 255 o'))"

definition writeUInt32LE :: "byte list \<Rightarrow> int \<Rightarrow> int \<Rightarrow> bool \<Rightarrow> js_error + (byte list \<times> int)" where
  "writeUInt32LE this o' s i = checked_write this o' s 4 4294967295 0 i
     (\<lambda>s. js_store (js_store (js_store (js_store this (s + 3) (js_shr o' 24)) (s + 2) (js_shr o' 16))
        (s + 1) (js_shr o' 8)) s (js_and 255 o'))"

definition writeUInt32BE :: "byte list \<Rightarrow> int \<Rightarrow> int \<Rightarrow> bool \<Rightarrow> js_error + (byte list \<times> int)" where
  "writeUInt32BE this o' s i = checked_write this o' s 4 4294967295 0 i
     (\<lambda>s. js_store (js_store (js_store (js_store this s (js_shr o' 24)) (s + 1) (js_shr o' 16))
        (s + 2) (js_shr o' 8)) (s + 3) (js_and 255 o'))"

definition writeInt8 :: "byte list \<Rightarrow> int \<Rightarrow> int \<Rightarrow> bool \<Rightarrow> js_error + (byte list \<times> int)" where
  "writeInt8 this o' s i = checked_write this o' s 1 127 (- 128) i
     (\<lambda>s. let o' = if o' < 0 then 255 + o' + 1 else o' in js_store this s (js_and 255 o'))"

definition writeInt16LE :: "byte list \<Rightarrow> int \<Rightarrow> int \<Rightarrow> bool \<Rightarrow> js_error + (byte list \<times> int)" where
  "writeInt16LE this o' s i = checked_write this o' s 2 32767 (- 32768) i
     (\<lambda>s. js_store (js_store this s (js_and 255 o')) (s + 1) (js_shr o' 8))"

definition writeInt16BE :: "byte list \<Rightarrow> int \<Rightarrow> int \<Rightarrow> bool \<Rightarrow> js_error + (byte list \<times> int)" where
  "writeInt16BE this o' s i = checked_write this o' s 2 32767 (- 32768) i
     (\<lambda>s. js_store (js_store this s (js_shr o' 8)) (s + 1) (js_and 255 o'))"

definition writeInt32LE :: "byte list \<Rightarrow> int \<Rightarrow> int \<Rightarrow> bool \<Rightarrow> js_error + (byte list \<times> int)" where
  "writeInt32LE this o' s i = checked_write this o' s 4 2147483647 (- 2147483648) i
     (\<lambda>s. js_store (js_store (js_store (js_store this s (js_and 255 o')) (s + 1) (js_shr o' 8))
        (s + 2) (js_shr o' 16)) (s + 3) (js_shr o' 24))"

definition writeInt32BE :: "byte list \<Rightarrow> int \<Rightarrow> int \<Rightarrow> bool \<Rightarrow> js_error + (byte list \<times> int)" where
  "writeInt32BE this o' s i = checked_write this o' s 4 2147483647 (- 2147483648) i
     (\<lambda>s. let o' = if o' < 0 then 4294967295 + o' + 1 else o'
          in js_store (js_store (js_store (js_store this s (js_shr o' 24)) (s + 1) (js_shr o' 16))
               (s + 2) (js_shr o' 8)) (s + 3) (js_and 255 o'))"

section \<open>64 bits\<close>

text \<open>
  A \<open>BigInt\<close> is an \<open>int\<close>. A read first tests that the first and the last of the eight bytes
  exist, so the others do; \<open>boundsError\<close> throws one of two kinds of \<open>RangeError\<close>.
\<close>

definition in_bounds :: "byte list \<Rightarrow> int \<Rightarrow> bool" where
  "in_bounds this o' \<longleftrightarrow> js_elem this o' \<noteq> None \<and> js_elem this (o' + 7) \<noteq> None"

definition big_read :: "byte list \<Rightarrow> int \<Rightarrow> (int \<Rightarrow> int) \<Rightarrow> js_error + int" where
  "big_read this o' value =
     (let o' = to_uint32 o' in if \<not> in_bounds this o' then Inl RangeError else Inr (value o'))"

definition readBigUInt64LE :: "byte list \<Rightarrow> int \<Rightarrow> js_error + int" where
  "readBigUInt64LE this o' = big_read this o' (\<lambda>o'.
     let u = num_at this o' + 256 * num_at this (o' + 1) + 65536 * num_at this (o' + 2)
           + num_at this (o' + 3) * 2 ^ 24;
         v = num_at this (o' + 4) + 256 * num_at this (o' + 5) + 65536 * num_at this (o' + 6)
           + num_at this (o' + 7) * 2 ^ 24
     in u + push_bit 32 v)"

definition readBigUInt64BE :: "byte list \<Rightarrow> int \<Rightarrow> js_error + int" where
  "readBigUInt64BE this o' = big_read this o' (\<lambda>o'.
     let u = num_at this o' * 2 ^ 24 + 65536 * num_at this (o' + 1) + 256 * num_at this (o' + 2)
           + num_at this (o' + 3);
         v = num_at this (o' + 4) * 2 ^ 24 + 65536 * num_at this (o' + 5) + 256 * num_at this (o' + 6)
           + num_at this (o' + 7)
     in push_bit 32 u + v)"

definition readBigInt64LE :: "byte list \<Rightarrow> int \<Rightarrow> js_error + int" where
  "readBigInt64LE this o' = big_read this o' (\<lambda>o'.
     let u = num_at this (o' + 4) + 256 * num_at this (o' + 5) + 65536 * num_at this (o' + 6)
           + js_shl (num_at this (o' + 7)) 24
     in push_bit 32 u
        + (num_at this o' + 256 * num_at this (o' + 1) + 65536 * num_at this (o' + 2)
           + num_at this (o' + 3) * 2 ^ 24))"

definition readBigInt64BE :: "byte list \<Rightarrow> int \<Rightarrow> js_error + int" where
  "readBigInt64BE this o' = big_read this o' (\<lambda>o'.
     let u = js_shl (num_at this o') 24 + 65536 * num_at this (o' + 1) + 256 * num_at this (o' + 2)
           + num_at this (o' + 3)
     in push_bit 32 u
        + (num_at this (o' + 4) * 2 ^ 24 + 65536 * num_at this (o' + 5) + 256 * num_at this (o' + 6)
           + num_at this (o' + 7)))"

definition checkIntBI :: "int \<Rightarrow> int \<Rightarrow> int \<Rightarrow> byte list \<Rightarrow> int \<Rightarrow> bool" where
  "checkIntBI o' s i u k \<longleftrightarrow> \<not> (o' > i \<or> o' < s) \<and> in_bounds u k"

text \<open>Four bytes of \<open>w\<close>, at \<open>k\<close> and on by \<open>d\<close>: \<open>o[k]=w,w>>=8,...\<close>\<close>

definition put_quad :: "byte list \<Rightarrow> int \<Rightarrow> int \<Rightarrow> int \<Rightarrow> byte list" where
  "put_quad o' k d w =
     (let o' = js_store o' k w; w = js_sar w 8;
          o' = js_store o' (k + d) w; w = js_sar w 8;
          o' = js_store o' (k + 2 * d) w; w = js_sar w 8
      in js_store o' (k + 3 * d) w)"

definition wrtBigUInt64LE :: "byte list \<Rightarrow> int \<Rightarrow> int \<Rightarrow> int \<Rightarrow> int \<Rightarrow> js_error + (byte list \<times> int)" where
  "wrtBigUInt64LE o' s i u u' =
     (if \<not> checkIntBI s u u' o' i then Inl RangeError
      else Inr (put_quad (put_quad o' i 1 (s AND 4294967295)) (i + 4) 1 (drop_bit 32 s AND 4294967295),
        i + 8))"

definition wrtBigUInt64BE :: "byte list \<Rightarrow> int \<Rightarrow> int \<Rightarrow> int \<Rightarrow> int \<Rightarrow> js_error + (byte list \<times> int)" where
  "wrtBigUInt64BE o' s i u u' =
     (if \<not> checkIntBI s u u' o' i then Inl RangeError
      else Inr (put_quad (put_quad o' (i + 7) (- 1) (s AND 4294967295)) (i + 3) (- 1)
          (drop_bit 32 s AND 4294967295), i + 8))"

definition writeBigUInt64LE :: "byte list \<Rightarrow> int \<Rightarrow> int \<Rightarrow> js_error + (byte list \<times> int)" where
  "writeBigUInt64LE this o' s = wrtBigUInt64LE this o' s 0 0xffffffffffffffff"

definition writeBigUInt64BE :: "byte list \<Rightarrow> int \<Rightarrow> int \<Rightarrow> js_error + (byte list \<times> int)" where
  "writeBigUInt64BE this o' s = wrtBigUInt64BE this o' s 0 0xffffffffffffffff"

definition writeBigInt64LE :: "byte list \<Rightarrow> int \<Rightarrow> int \<Rightarrow> js_error + (byte list \<times> int)" where
  "writeBigInt64LE this o' s = wrtBigUInt64LE this o' s (- 0x8000000000000000) 0x7fffffffffffffff"

definition writeBigInt64BE :: "byte list \<Rightarrow> int \<Rightarrow> int \<Rightarrow> js_error + (byte list \<times> int)" where
  "writeBigInt64BE this o' s = wrtBigUInt64BE this o' s (- 0x8000000000000000) 0x7fffffffffffffff"

section \<open>The bytes of a number\<close>

text \<open>The reference: the little-endian two's complement, and the number that bytes stand for.\<close>

primrec le_bytes :: "nat \<Rightarrow> int \<Rightarrow> byte list" where
  "le_bytes 0 v = []"
| "le_bytes (Suc n) v = word_of_int v # le_bytes n (v div 256)"

definition le_value :: "byte list \<Rightarrow> int" where
  "le_value bs = horner_sum uint 256 bs"

definition signed_value :: "nat \<Rightarrow> int \<Rightarrow> int" where
  "signed_value n u = (if u \<ge> 128 * 256 ^ (n - 1) then u - 256 ^ n else u)"

lemma length_le_bytes [simp]: "length (le_bytes n v) = n"
  by (induction n arbitrary: v) simp_all

lemma le_value_simps [simp]: "le_value [] = 0" "le_value (b # bs) = uint b + 256 * le_value bs"
  by (simp_all add: le_value_def)

lemma le_value_append: "le_value (xs @ ys) = le_value xs + 256 ^ length xs * le_value ys"
  by (simp add: le_value_def horner_sum_append)

lemma byte_of_int: "uint (word_of_int v :: byte) = v mod 256"
  by (simp add: unsigned_of_int take_bit_eq_mod)

lemma byte_bound: "uint (b :: byte) < 256"
  using uint_bounded [of b] by simp

lemma le_value_bytes: "le_value (le_bytes n v) = v mod 256 ^ n"
  by (induction n arbitrary: v) (simp_all add: byte_of_int zmod_zmult2_eq)

lemma le_value_bounds: "0 \<le> le_value bs" "le_value bs < 256 ^ length bs"
proof (induction bs)
  case (Cons b bs)
  with byte_bound [of b] show "0 \<le> le_value (b # bs)" "le_value (b # bs) < 256 ^ length (b # bs)" by simp_all
qed simp_all

lemma byte_digit: "word_of_int (uint b + 256 * k) = (b :: byte)"
proof (rule word_uint_eqI)
  show "uint (word_of_int (uint b + 256 * k) :: byte) = uint b"
    using byte_bound [of b] by (subst byte_of_int) simp
qed

lemma le_bytes_digit: "le_bytes (Suc n) (uint b + 256 * v) = b # le_bytes n v"
proof -
  have "(uint b + 256 * v) div 256 = v" using byte_bound [of b] by simp
  then show ?thesis by (simp only: le_bytes.simps byte_digit)
qed

lemma le_bytes_value: "length bs = n \<Longrightarrow> le_bytes n (le_value bs + 256 ^ n * k) = bs"
proof (induction bs arbitrary: n)
  case (Cons b bs)
  then have n: "n = Suc (length bs)" by simp
  have "le_value (b # bs) + 256 ^ n * k = uint b + 256 * (le_value bs + 256 ^ length bs * k)"
    by (simp add: n algebra_simps)
  then have "le_bytes n (le_value (b # bs) + 256 ^ n * k)
      = b # le_bytes (length bs) (le_value bs + 256 ^ length bs * k)"
    by (simp only: n le_bytes_digit)
  with Cons.IH show ?case by simp
qed simp

lemma le_bytes_snoc: "le_bytes (Suc n) v = le_bytes n v @ [word_of_int (v div 256 ^ n)]"
  by (induction n arbitrary: v) (simp_all add: zdiv_zmult2_eq)

lemma signed_value_mod:
  assumes "0 < n" and "- (128 * 256 ^ (n - 1)) \<le> v" and "v < 128 * 256 ^ (n - 1)"
  shows "signed_value n (v mod 256 ^ n) = v"
proof -
  from assms(1) have n: "(256 :: int) ^ n = 256 * 256 ^ (n - 1)"
    by (cases n) simp_all
  show ?thesis
  proof (cases "v < 0")
    case True
    have "(v + 256 ^ n) mod 256 ^ n = v + 256 ^ n"
      using True assms n by (intro mod_pos_pos_trivial) linarith+
    then have "v mod 256 ^ n = v + 256 ^ n" by simp
    then show ?thesis using True assms n by (simp add: signed_value_def)
  next
    case False
    then have "v mod 256 ^ n = v" using assms n by (intro mod_pos_pos_trivial) linarith+
    then show ?thesis using assms by (simp add: signed_value_def)
  qed
qed

lemma le_bytes_signed: "length bs = n \<Longrightarrow> le_bytes n (signed_value n (le_value bs)) = bs"
  using le_bytes_value [of bs n 0] le_bytes_value [of bs n "- 1"] by (simp add: signed_value_def)

lemma signed_value_bounds:
  assumes "length bs = n" and "0 < n"
  shows "- (128 * 256 ^ (n - 1)) \<le> signed_value n (le_value bs)"
    and "signed_value n (le_value bs) < 128 * 256 ^ (n - 1)"
proof -
  from assms(2) have "(256 :: int) ^ n = 256 * 256 ^ (n - 1)" by (cases n) simp_all
  with le_value_bounds [of bs] assms(1)
  show "- (128 * 256 ^ (n - 1)) \<le> signed_value n (le_value bs)"
    "signed_value n (le_value bs) < 128 * 256 ^ (n - 1)"
    by (auto simp: signed_value_def)
qed

section \<open>Part of a buffer\<close>

definition patch :: "byte list \<Rightarrow> nat \<Rightarrow> byte list \<Rightarrow> byte list" where
  "patch b s bs = take s b @ bs @ drop (s + length bs) b"

definition window :: "byte list \<Rightarrow> nat \<Rightarrow> nat \<Rightarrow> byte list" where
  "window b s n = take n (drop s b)"

lemma length_patch [simp]: "s + length bs \<le> length b \<Longrightarrow> length (patch b s bs) = length b"
  by (simp add: patch_def)

lemma length_window [simp]: "s + n \<le> length b \<Longrightarrow> length (window b s n) = n"
  by (simp add: window_def)

lemma window_patch [simp]: "s + length bs \<le> length b \<Longrightarrow> n = length bs \<Longrightarrow> window (patch b s bs) s n = bs"
  by (simp add: window_def patch_def)

lemma patch_window [simp]: "s + n \<le> length b \<Longrightarrow> patch b s (window b s n) = b"
proof -
  assume "s + n \<le> length b"
  then have "patch b s (window b s n) = take s b @ take n (drop s b) @ drop n (drop s b)"
    by (simp add: patch_def window_def add.commute)
  then show ?thesis by (simp only: append_take_drop_id)
qed

lemma patch_patch [simp]:
  "s + length bs \<le> length b \<Longrightarrow> length cs = length bs \<Longrightarrow> patch (patch b s bs) s cs = patch b s cs"
  by (simp add: patch_def)

lemma nth_patch:
  "s + length bs \<le> length b \<Longrightarrow> j < length b \<Longrightarrow>
     patch b s bs ! j = (if s \<le> j \<and> j < s + length bs then bs ! (j - s) else b ! j)"
  by (auto simp: patch_def nth_append)

lemma patch_commute:
  assumes "s + length bs \<le> t" and "t + length cs \<le> length b"
  shows "patch (patch b s bs) t cs = patch (patch b t cs) s bs"
proof (rule nth_equalityI)
  show "length (patch (patch b s bs) t cs) = length (patch (patch b t cs) s bs)"
    using assms by simp
next
  fix j assume "j < length (patch (patch b s bs) t cs)"
  then have "j < length b" using assms by simp
  then show "patch (patch b s bs) t cs ! j = patch (patch b t cs) s bs ! j"
    using assms by (simp add: nth_patch)
qed

lemma js_store_end:
  assumes "s + length bs < length b" and "k = int (s + length bs)"
  shows "js_store (patch b s bs) k v = patch b s (bs @ [word_of_int v])"
proof -
  from assms(1) have "drop (s + length bs) b = b ! (s + length bs) # drop (Suc (s + length bs)) b"
    by (rule Cons_nth_drop_Suc [symmetric])
  moreover have "nat k = s + length bs" "\<not> k < 0" using assms(2) by simp_all
  ultimately show ?thesis using assms(1)
    by (simp add: js_store_def js_put_def patch_def list_update_append)
qed

lemma js_store_front:
  assumes "Suc s + length bs \<le> length b" and "k = int s"
  shows "js_store (patch b (Suc s) bs) k v = patch b s (word_of_int v # bs)"
  using assms by (simp add: js_store_def js_put_def patch_def list_update_append take_Suc_conv_app_nth)

lemma patch_Nil [simp]: "patch b s [] = b"
  by (simp add: patch_def)

lemma js_elem_in: "s < length b \<Longrightarrow> js_elem b (int s) = Some (uint (b ! s))"
  by (simp add: js_elem_def js_at_def)

section \<open>The loops\<close>

named_theorems byte_store

lemma js_and_255_mod: "js_and x 255 = x mod 256" "js_and 255 x = x mod 256"
proof -
  have "to_int32 x AND to_int32 255 = take_bit 8 (to_int32 x)"
    by (simp add: to_int32_id take_bit_eq_mask mask_eq_exp_minus_1)
  also have "\<dots> = take_bit 8 x" by (simp add: to_int32_def take_bit_signed_take_bit)
  finally show "js_and x 255 = x mod 256" "js_and 255 x = x mod 256"
    by (simp_all add: js_and_def take_bit_eq_mod and.commute)
qed

lemma byte_mod [byte_store]: "word_of_int (x mod 256) = (word_of_int x :: byte)"
  by (rule word_uint_eqI) (simp add: byte_of_int)

lemma byte_and [byte_store]:
  "word_of_int (js_and x 255) = (word_of_int x :: byte)"
  "word_of_int (js_and 255 x) = (word_of_int x :: byte)"
  by (simp_all only: js_and_255_mod byte_mod)

lemma to_int32_mod: "to_int32 x mod 256 = x mod 256"
  using take_bit_signed_take_bit [of 8 31 x] by (simp add: to_int32_def take_bit_eq_mod)

lemma byte_int32 [byte_store]: "word_of_int (to_int32 x - y) = (word_of_int (x - y) :: byte)"
  by (rule word_uint_eqI) (simp only: byte_of_int mod_diff_left_eq [symmetric, of "to_int32 x"]
    mod_diff_left_eq [symmetric, of x] to_int32_mod)

lemma js_quot_floor:
  assumes "0 < m"
  shows "js_quot v m - of_bool (v < 0 \<and> v mod m \<noteq> 0) = v div m"
proof (cases "v < 0")
  case True
  then have "js_quot v m = - ((- v) div m)"
    using assms by (simp add: js_quot_def signed_divide_int_def)
  then show ?thesis using True assms by (simp add: zdiv_zminus1_eq_if)
next
  case False
  then show ?thesis using assms by (simp add: js_quot_def signed_divide_int_def sgn_if)
qed

lemma js_quot_div: "0 \<le> v \<Longrightarrow> 0 < m \<Longrightarrow> js_quot v m = v div m"
  using js_quot_floor [of m v] by simp

lemma unsigned_digit:
  "0 \<le> v \<Longrightarrow> 0 < m \<Longrightarrow> word_of_int (js_and (js_quot v m) 255) = (word_of_int (v div m) :: byte)"
  by (simp only: byte_store js_quot_div)

lemma signed_digit:
  "0 < m \<Longrightarrow> word_of_int (js_and (to_int32 (js_quot v m) - of_bool (v < 0 \<and> v mod m \<noteq> 0)) 255)
     = (word_of_int (v div m) :: byte)"
  by (simp only: byte_store js_quot_floor)

lemma put_le_loop_patch:
  assumes "0 \<le> v" and "s + n \<le> length b" and "w < n"
  shows "put_le_loop (patch b s (le_bytes (Suc w) v)) v (int s) (int n) (256 ^ w) (int w)
           = patch b s (le_bytes n v)"
  using assms(3)
proof (induction "n - w" arbitrary: w)
  case (Suc d)
  show ?case
  proof (cases "Suc w < n")
    case True
    have "js_store (patch b s (le_bytes (Suc w) v)) (int s + (int w + 1))
            (js_and (js_quot v (256 ^ w * 256)) 255) = patch b s (le_bytes (Suc (Suc w)) v)"
      unfolding le_bytes_snoc [of "Suc w"]
      by (subst js_store_end)
        (use True assms in \<open>simp_all add: unsigned_digit mult.commute\<close>)
    moreover have "d = n - Suc w" using Suc.hyps(2) by simp
    ultimately show ?thesis using True Suc.hyps(1) [of "Suc w"]
      by (subst put_le_loop.simps) (simp add: mult.commute add.commute)
  next
    case False
    with Suc.prems have "Suc w = n" by simp
    then show ?thesis by (subst put_le_loop.simps) auto
  qed
qed simp

lemma put_be_loop_patch:
  assumes "0 \<le> v"
  shows "s + (j + Suc w) \<le> length b \<Longrightarrow>
    put_be_loop (patch b (s + j) (rev (le_bytes (Suc w) v))) v (int s) (int j) (256 ^ w)
      = patch b s (rev (le_bytes (j + Suc w) v))"
proof (induction j arbitrary: w)
  case 0
  then show ?case by (subst put_be_loop.simps) simp
next
  case (Suc j)
  have "js_store (patch b (Suc (s + j)) (rev (le_bytes (Suc w) v))) (int s + int j)
          (js_and (js_quot v (256 ^ w * 256)) 255) = patch b (s + j) (rev (le_bytes (Suc (Suc w)) v))"
    unfolding le_bytes_snoc [of "Suc w"]
    by (subst js_store_front) (use Suc.prems assms in \<open>simp_all add: unsigned_digit mult.commute\<close>)
  moreover have "s + (j + Suc (Suc w)) \<le> length b" using Suc.prems by simp
  ultimately show ?case using Suc.IH [of "Suc w"]
    by (subst put_be_loop.simps) (simp add: mult.commute add.commute)
qed

lemma borrow_step:
  assumes "js_elem this k = Some (uint (word_of_int (v div 256 ^ w) :: byte))"
  shows "borrow this v (of_bool (v < 0 \<and> v mod 256 ^ w \<noteq> 0)) k = of_bool (v < 0 \<and> v mod (256 ^ w * 256) \<noteq> 0)"
proof -
  have "v mod (256 ^ w * 256) = 256 ^ w * (v div 256 ^ w mod 256) + v mod 256 ^ w"
    by (simp add: zmod_zmult2_eq)
  moreover have "0 \<le> v mod 256 ^ w" "0 \<le> 256 ^ w * (v div 256 ^ w mod 256)" by simp_all
  ultimately have "v mod (256 ^ w * 256) \<noteq> 0 \<longleftrightarrow> v mod 256 ^ w \<noteq> 0 \<or> 256 ^ w * (v div 256 ^ w mod 256) \<noteq> 0"
    by linarith
  also have "256 ^ w * (v div 256 ^ w mod 256) \<noteq> 0 \<longleftrightarrow> v div 256 ^ w mod 256 \<noteq> 0" by simp
  finally show ?thesis using assms by (auto simp: borrow_def byte_of_int)
qed

lemma js_elem_patch:
  "s + length bs \<le> length b \<Longrightarrow> i < length bs \<Longrightarrow> k = int s + int i \<Longrightarrow>
     js_elem (patch b s bs) k = Some (uint (bs ! i))"
  using js_elem_in [of "s + i" "patch b s bs"] by (simp add: nth_patch)

lemma put_sle_loop_patch:
  assumes "s + n \<le> length b" and "w < n"
  shows "put_sle_loop (patch b s (le_bytes (Suc w) v)) v (int s) (int n) (int w) (256 ^ w)
           (of_bool (v < 0 \<and> v mod 256 ^ w \<noteq> 0)) = patch b s (le_bytes n v)"
  using assms(2)
proof (induction "n - w" arbitrary: w)
  case (Suc d)
  show ?case
  proof (cases "Suc w < n")
    case True
    have x: "borrow (patch b s (le_bytes (Suc w) v)) v (of_bool (v < 0 \<and> v mod 256 ^ w \<noteq> 0)) (int s + int w)
        = of_bool (v < 0 \<and> v mod (256 ^ w * 256) \<noteq> 0)"
      using True assms(1)
      by (intro borrow_step js_elem_patch [THEN trans, of _ _ _ w])
        (simp_all add: le_bytes_snoc nth_append del: le_bytes.simps)
    have "js_store (patch b s (le_bytes (Suc w) v)) (int s + (int w + 1))
            (js_and (to_int32 (js_quot v (256 ^ w * 256)) - of_bool (v < 0 \<and> v mod (256 ^ w * 256) \<noteq> 0)) 255)
          = patch b s (le_bytes (Suc (Suc w)) v)"
      unfolding le_bytes_snoc [of "Suc w"]
      by (subst js_store_end)
        (use True assms in \<open>simp_all add: signed_digit mult.commute del: of_bool_conj\<close>)
    moreover have "d = n - Suc w" using Suc.hyps(2) by simp
    ultimately show ?thesis using True Suc.hyps(1) [of "Suc w"]
      by (subst put_sle_loop.simps) (simp add: x mult.commute add.commute [of _ "1 :: int"] Let_def
          del: of_bool_conj le_bytes.simps)
  next
    case False
    with Suc.prems have "Suc w = n" by simp
    then show ?thesis by (subst put_sle_loop.simps) auto
  qed
qed simp

lemma put_sbe_loop_patch:
  "s + (j + Suc w) \<le> length b \<Longrightarrow>
    put_sbe_loop (patch b (s + j) (rev (le_bytes (Suc w) v))) v (int s) (int j) (256 ^ w)
      (of_bool (v < 0 \<and> v mod 256 ^ w \<noteq> 0)) = patch b s (rev (le_bytes (j + Suc w) v))"
proof (induction j arbitrary: w)
  case 0
  then show ?case by (subst put_sbe_loop.simps) simp
next
  case (Suc j)
  have x: "borrow (patch b (Suc (s + j)) (rev (le_bytes (Suc w) v))) v
        (of_bool (v < 0 \<and> v mod 256 ^ w \<noteq> 0)) (int s + (1 + int j))
      = of_bool (v < 0 \<and> v mod (256 ^ w * 256) \<noteq> 0)"
    using Suc.prems
    by (intro borrow_step js_elem_patch [THEN trans, of _ _ _ 0])
      (simp_all add: le_bytes_snoc del: le_bytes.simps)
  have "js_store (patch b (Suc (s + j)) (rev (le_bytes (Suc w) v))) (int s + int j)
          (js_and (to_int32 (js_quot v (256 ^ w * 256)) - of_bool (v < 0 \<and> v mod (256 ^ w * 256) \<noteq> 0)) 255)
        = patch b (s + j) (rev (le_bytes (Suc (Suc w)) v))"
    unfolding le_bytes_snoc [of "Suc w"]
    by (subst js_store_front)
      (use Suc.prems in \<open>simp_all add: signed_digit mult.commute del: of_bool_conj\<close>)
  moreover have "s + (j + Suc (Suc w)) \<le> length b" using Suc.prems by simp
  ultimately show ?case using Suc.IH [of "Suc w"]
    by (subst put_sbe_loop.simps) (simp add: x mult.commute Let_def del: of_bool_conj le_bytes.simps)
qed

lemma le_loop_window:
  assumes "s + n \<le> length b" and "w < n"
  shows "le_loop b (int s) (int n) (Some (le_value (take (Suc w) (window b s n)))) (256 ^ w) (int w)
           = (Some (le_value (window b s n)), 256 ^ (n - 1))"
  using assms(2)
proof (induction "n - w" arbitrary: w)
  case (Suc d)
  show ?case
  proof (cases "Suc w < n")
    case True
    have "js_elem b (int s + (int w + 1)) = Some (uint (window b s n ! Suc w))"
      using js_elem_in [of "s + Suc w" b] True assms(1) by (simp add: window_def ac_simps)
    then have "js_add (Some (le_value (take (Suc w) (window b s n))))
        (js_mul (js_elem b (int s + (int w + 1))) (256 ^ w * 256))
      = Some (le_value (take (Suc (Suc w)) (window b s n)))"
      using True assms(1)
      by (simp add: js_add_def js_mul_def js_lift2_def take_Suc_conv_app_nth [of "Suc w"] le_value_append)
    moreover have "d = n - Suc w" using Suc.hyps(2) by simp
    ultimately show ?thesis using True Suc.hyps(1) [of "Suc w"]
      by (subst le_loop.simps) (simp add: mult.commute add.commute)
  next
    case False
    with Suc.prems have "Suc w = n" by simp
    then show ?thesis using assms(1) by (subst le_loop.simps) auto
  qed
qed simp

lemma be_loop_window:
  assumes "s + n \<le> length b"
  shows "j < n \<Longrightarrow> be_loop b (int s) (int j) (Some (le_value (rev (drop j (window b s n))))) (256 ^ (n - Suc j))
           = (Some (le_value (rev (window b s n))), 256 ^ (n - 1))"
proof (induction j)
  case 0
  then show ?case by (subst be_loop.simps) simp
next
  case (Suc j)
  have "js_elem b (int s + int j) = Some (uint (window b s n ! j))"
    using js_elem_in [of "s + j" b] Suc.prems assms by (simp add: window_def)
  moreover have "drop j (window b s n) = window b s n ! j # drop (Suc j) (window b s n)"
    using Suc.prems assms by (intro Cons_nth_drop_Suc [symmetric]) simp
  moreover have m: "256 ^ (n - Suc (Suc j)) * 256 = (256 :: int) ^ (n - Suc j)"
    using Suc.prems by (simp flip: power_Suc2 add: Suc_diff_Suc)
  ultimately show ?case using Suc assms
    by (subst be_loop.simps)
      (simp add: js_add_def js_mul_def js_lift2_def le_value_append m mult.commute)
qed

section \<open>What each function does\<close>

lemma to_uint32_id: "0 \<le> x \<Longrightarrow> x < 2 ^ 32 \<Longrightarrow> to_uint32 x = x"
  by (simp add: to_uint32_def take_bit_int_eq_self)

lemma to_uint32_nat: "n < 2 ^ 32 \<Longrightarrow> to_uint32 (int n) = int n"
  by (rule to_uint32_id) simp_all

text \<open>An offset as the code takes it.\<close>

definition offset :: "int \<Rightarrow> nat" where
  "offset o' = nat (to_uint32 o')"

lemma int_offset: "int (offset o') = to_uint32 o'"
  by (simp add: offset_def to_uint32_def)

lemma offset_nat: "n < 2 ^ 32 \<Longrightarrow> offset (int n) = n"
  by (simp add: offset_def to_uint32_nat)

text \<open>What a read or a write of \<open>n\<close> bytes at \<open>s\<close> returns, with an encoding between \<open>lo\<close> and \<open>hi\<close>.\<close>

definition read_result :: "nat \<Rightarrow> (byte list \<Rightarrow> int) \<Rightarrow> byte list \<Rightarrow> nat \<Rightarrow> js_error + int option" where
  "read_result n value b s =
     (if s + n \<le> length b then Inr (Some (value (window b s n))) else Inl RangeError)"

definition write_result ::
  "nat \<Rightarrow> int \<Rightarrow> int \<Rightarrow> (int \<Rightarrow> byte list) \<Rightarrow> byte list \<Rightarrow> int \<Rightarrow> nat \<Rightarrow> js_error + (byte list \<times> int)"
where
  "write_result n lo hi bytes b v s =
     (if lo \<le> v \<and> v < hi \<and> s + n \<le> length b then Inr (patch b s (bytes v), int (s + n))
      else Inl RangeError)"

lemma first_byte:
  assumes "s + n \<le> length b" and "0 < n"
  shows "js_elem b (int s) = Some (le_value (take (Suc 0) (window b s n)))"
  using js_elem_in [of s b] assms by (cases n) (simp_all add: window_def Cons_nth_drop_Suc [symmetric])

lemma le_loop_read:
  assumes "s + n \<le> length b" and "0 < n"
  shows "le_loop b (int s) (int n) (js_elem b (int s)) 1 0 = (Some (le_value (window b s n)), 256 ^ (n - 1))"
  using le_loop_window [of s n b 0] assms by (simp only: first_byte) simp

lemma be_loop_read:
  assumes "s + n \<le> length b" and "0 < n"
  shows "be_loop b (int s) (int n - 1) (js_elem b (int s + (int n - 1))) 1
           = (Some (le_value (rev (window b s n))), 256 ^ (n - 1))"
proof -
  obtain k where n: "n = Suc k" using assms(2) by (cases n) simp_all
  have "drop k (window b s n) = [window b s n ! k]"
    using assms Cons_nth_drop_Suc [of k "window b s n"] by (simp add: n)
  moreover have "js_elem b (int s + int k) = Some (uint (window b s n ! k))"
    using assms js_elem_in [of "s + k" b] by (simp add: n window_def)
  ultimately show ?thesis using be_loop_window [of s n b k] assms by (simp add: n)
qed

lemma readUIntLE_eq:
  assumes "0 < n" and "n < 2 ^ 32"
  shows "readUIntLE b o' (int n) False = read_result n le_value b (offset o')"
  using assms le_loop_read [of "offset o'" n b]
  by (auto simp: readUIntLE_def read_result_def checkOffset_def Let_def offset_nat simp flip: int_offset)

lemma readUIntBE_eq:
  assumes "0 < n" and "n < 2 ^ 32"
  shows "readUIntBE b o' (int n) False = read_result n (\<lambda>bs. le_value (rev bs)) b (offset o')"
  using assms be_loop_read [of "offset o'" n b]
  by (auto simp: readUIntBE_def read_result_def checkOffset_def Let_def offset_nat simp flip: int_offset)

lemma wrap_sign_value:
  "wrap_sign (int n) (Some u, 256 ^ (n - Suc 0)) = Some (signed_value n u)"
proof -
  have "nat (8 * int n) = 8 * n" by simp
  then have "(2 :: int) ^ nat (8 * int n) = 256 ^ n" by (simp add: power_mult)
  then show ?thesis by (simp add: wrap_sign_def signed_value_def mult.commute)
qed

lemma readIntLE_eq:
  assumes "0 < n" and "n < 2 ^ 32"
  shows "readIntLE b o' (int n) False = read_result n (\<lambda>bs. signed_value n (le_value bs)) b (offset o')"
  using assms le_loop_read [of "offset o'" n b]
  by (auto simp: readIntLE_def read_result_def checkOffset_def Let_def offset_nat wrap_sign_value
      simp flip: int_offset)

lemma readIntBE_eq:
  assumes "0 < n" and "n < 2 ^ 32"
  shows "readIntBE b o' (int n) False = read_result n (\<lambda>bs. signed_value n (le_value (rev bs))) b (offset o')"
  using assms be_loop_read [of "offset o'" n b]
  by (auto simp: readIntBE_def read_result_def checkOffset_def Let_def offset_nat wrap_sign_value
      simp flip: int_offset)

lemma power_bytes: "(2 :: real) powi (8 * int n) = of_int (256 ^ n)"
proof -
  have "(2 :: real) powi (8 * int n) = 2 powi int (8 * n)" by simp
  also have "\<dots> = of_int (256 ^ n)" by (simp only: power_int_of_nat power_mult) simp
  finally show ?thesis .
qed

lemma power_half:
  assumes "0 < n"
  shows "(2 :: real) powi (8 * int n - 1) = of_int (128 * 256 ^ (n - 1))"
proof -
  obtain k where n: "n = Suc k" using assms by (cases n) simp_all
  have "(2 :: real) powi (8 * int n - 1) = 2 powi int (7 + 8 * k)" by (simp add: n)
  also have "\<dots> = of_int (128 * 256 ^ (n - 1))" by (simp only: power_int_of_nat power_mult power_add) (simp add: n)
  finally show ?thesis .
qed

lemma checkInt_int:
  "checkInt b v s u (of_int hi - 1) (of_int lo) \<longleftrightarrow> lo \<le> v \<and> v < hi \<and> s + u \<le> int (length b)"
proof -
  have "real_of_int v > of_int hi - 1 \<longleftrightarrow> v > hi - 1" by linarith
  then show ?thesis by (auto simp: checkInt_def)
qed

lemma checkInt_unsigned:
  "checkInt b v s (int n) (2 powi (8 * int n) - 1) 0
     \<longleftrightarrow> 0 \<le> v \<and> v < 256 ^ n \<and> s + int n \<le> int (length b)"
  using checkInt_int [of b v s "int n" "256 ^ n" 0] by (simp add: power_bytes)

lemma checkInt_signed:
  "0 < n \<Longrightarrow> checkInt b v s (int n) (2 powi (8 * int n - 1) - 1) (- (2 powi (8 * int n - 1)))
     \<longleftrightarrow> - (128 * 256 ^ (n - 1)) \<le> v \<and> v < 128 * 256 ^ (n - 1) \<and> s + int n \<le> int (length b)"
  using checkInt_int [of b v s "int n" "128 * 256 ^ (n - 1)" "- (128 * 256 ^ (n - 1))"]
  by (simp only: power_half) simp

lemma js_store_first: "s < length b \<Longrightarrow> js_store b (int s) v = patch b s [word_of_int v]"
  using js_store_end [of s "[]" b "int s" v] by simp

lemma put_le_loop_write:
  assumes "0 \<le> v" and "s + n \<le> length b" and "0 < n"
  shows "put_le_loop (js_store b (int s) (js_and 255 v)) v (int s) (int n) 1 0 = patch b s (le_bytes n v)"
  using put_le_loop_patch [of v s n b 0] assms by (simp add: js_store_first byte_store)

lemma put_be_loop_write:
  assumes "0 \<le> v" and "s + n \<le> length b" and "0 < n"
  shows "put_be_loop (js_store b (int s + (int n - 1)) (js_and 255 v)) v (int s) (int n - 1) 1
           = patch b s (rev (le_bytes n v))"
proof -
  obtain k where n: "n = Suc k" using assms(3) by (cases n) simp_all
  show ?thesis using put_be_loop_patch [of v s k 0 b] js_store_first [of "s + k" b] assms
    by (simp add: n byte_store)
qed

lemma put_sle_loop_write:
  assumes "s + n \<le> length b" and "0 < n"
  shows "put_sle_loop (js_store b (int s) (js_and 255 v)) v (int s) (int n) 0 1 0 = patch b s (le_bytes n v)"
  using put_sle_loop_patch [of s n b 0 v] assms by (simp add: js_store_first byte_store)

lemma put_sbe_loop_write:
  assumes "s + n \<le> length b" and "0 < n"
  shows "put_sbe_loop (js_store b (int s + (int n - 1)) (js_and 255 v)) v (int s) (int n - 1) 1 0
           = patch b s (rev (le_bytes n v))"
proof -
  obtain k where n: "n = Suc k" using assms(2) by (cases n) simp_all
  show ?thesis using put_sbe_loop_patch [of s k 0 b v] js_store_first [of "s + k" b] assms
    by (simp add: n byte_store)
qed

lemma writeUIntLE_eq:
  assumes "0 < n" and "n < 2 ^ 32"
  shows "writeUIntLE b v o' (int n) False = write_result n 0 (256 ^ n) (le_bytes n) b v (offset o')"
  using assms put_le_loop_write [of v "offset o'" n b]
  by (auto simp: writeUIntLE_def write_result_def checkInt_unsigned Let_def offset_nat simp flip: int_offset)

lemma writeUIntBE_eq:
  assumes "0 < n" and "n < 2 ^ 32"
  shows "writeUIntBE b v o' (int n) False
           = write_result n 0 (256 ^ n) (\<lambda>v. rev (le_bytes n v)) b v (offset o')"
  using assms put_be_loop_write [of v "offset o'" n b]
  by (auto simp: writeUIntBE_def write_result_def checkInt_unsigned Let_def offset_nat simp flip: int_offset)

lemma writeIntLE_eq:
  assumes "0 < n"
  shows "writeIntLE b v o' (int n) False
           = write_result n (- (128 * 256 ^ (n - 1))) (128 * 256 ^ (n - 1)) (le_bytes n) b v (offset o')"
  using assms put_sle_loop_write [of "offset o'" n b v]
  by (auto simp: writeIntLE_def write_result_def checkInt_signed Let_def simp flip: int_offset)

lemma writeIntBE_eq:
  assumes "0 < n"
  shows "writeIntBE b v o' (int n) False
           = write_result n (- (128 * 256 ^ (n - 1))) (128 * 256 ^ (n - 1)) (\<lambda>v. rev (le_bytes n v)) b v (offset o')"
  using assms put_sbe_loop_write [of "offset o'" n b v]
  by (auto simp: writeIntBE_def write_result_def checkInt_signed Let_def simp flip: int_offset)

section \<open>The fixed widths\<close>

lemma to_int32_idem: "to_int32 (to_int32 x) = to_int32 x"
  by (simp add: to_int32_def)

lemma to_int32_or: "to_int32 (x OR y) = to_int32 x OR to_int32 y"
  unfolding to_int32_def by (rule bit_eqI) (auto simp: bit_simps)

lemma js_or_add_int32:
  assumes "0 \<le> w" and "w < 2 ^ m"
  shows "js_or (to_int32 (z * 2 ^ m)) w = to_int32 (z * 2 ^ m + w)"
    and "js_or w (to_int32 (z * 2 ^ m)) = to_int32 (z * 2 ^ m + w)"
proof -
  have "push_bit m z OR take_bit m w = concat_bit m w z" by (simp add: concat_bit_def or.commute)
  also have "\<dots> = take_bit m w + push_bit m z" by (rule concat_bit_eq)
  finally have "z * 2 ^ m OR w = z * 2 ^ m + w"
    using assms by (simp add: push_bit_eq_mult take_bit_int_eq_self)
  then have "to_int32 (z * 2 ^ m) OR to_int32 w = to_int32 (z * 2 ^ m + w)"
    by (simp flip: to_int32_or)
  then show "js_or (to_int32 (z * 2 ^ m)) w = to_int32 (z * 2 ^ m + w)"
    and "js_or w (to_int32 (z * 2 ^ m)) = to_int32 (z * 2 ^ m + w)"
    by (simp_all add: js_or_def to_int32_idem or.commute)
qed

lemma js_shl_byte: "js_shl (uint (b :: byte)) n = to_int32 (uint b * 2 ^ n)"
  using byte_bound [of b] by (simp add: js_shl_def to_int32_id push_bit_eq_mult)

lemma int32_signed:
  assumes "0 \<le> u" and "u < 2 ^ 32"
  shows "to_int32 u = signed_value 4 u"
proof (cases "u < 2 ^ 31")
  case True
  then show ?thesis using assms by (simp add: to_int32_id signed_value_def)
next
  case False
  have "to_int32 u = to_int32 (u - 2 ^ 32)"
    by (simp add: to_int32_def signed_take_bit_eq_iff_take_bit_eq take_bit_eq_mod)
  also have "\<dots> = u - 2 ^ 32"
    unfolding to_int32_def using False assms by (intro signed_take_bit_int_eq_self) simp_all
  finally show ?thesis using False by (simp add: signed_value_def)
qed

lemma bytes2_le: "js_or (uint (x :: byte)) (js_shl (uint (y :: byte)) 8) = uint x + 256 * uint y"
  using js_or_add_int32(2) [of "uint x" 8 "uint y"] byte_bound [of x] byte_bound [of y]
  by (simp add: js_shl_byte to_int32_id)

lemma bytes2_be: "js_or (js_shl (uint (y :: byte)) 8) (uint (x :: byte)) = uint x + 256 * uint y"
  using js_or_add_int32(1) [of "uint x" 8 "uint y"] byte_bound [of x] byte_bound [of y]
  by (simp add: js_shl_byte to_int32_id)

lemma bytes3_le:
  "js_or (uint (x :: byte) + 256 * uint (y :: byte)) (js_shl (uint (z :: byte)) 16)
     = uint x + 256 * uint y + 65536 * uint z"
  using js_or_add_int32(2) [of "uint x + 256 * uint y" 16 "uint z"]
    byte_bound [of x] byte_bound [of y] byte_bound [of z]
  by (simp add: js_shl_byte to_int32_id)

lemma bytes3_be:
  "js_or (js_or (js_shl (uint (z :: byte)) 16) (js_shl (uint (y :: byte)) 8)) (uint (x :: byte))
     = uint x + 256 * uint y + 65536 * uint z"
proof -
  have "js_or (js_shl (uint z) 16) (js_shl (uint y) 8) = to_int32 ((uint z * 256 + uint y) * 2 ^ 8)"
    using js_or_add_int32(1) [of "uint y * 2 ^ 8" 16 "uint z"] byte_bound [of y]
    by (simp add: js_shl_byte to_int32_id algebra_simps)
  then show ?thesis
    using js_or_add_int32(1) [of "uint x" 8 "uint z * 256 + uint y"]
      byte_bound [of x] byte_bound [of y] byte_bound [of z]
    by (simp add: to_int32_id algebra_simps)
qed

lemma bytes4_le:
  "js_or (uint (x :: byte) + 256 * uint (y :: byte) + 65536 * uint (z :: byte)) (js_shl (uint (t :: byte)) 24)
     = signed_value 4 (uint x + 256 * uint y + 65536 * uint z + 16777216 * uint t)"
  using js_or_add_int32(2) [of "uint x + 256 * uint y + 65536 * uint z" 24 "uint t"]
    byte_bound [of x] byte_bound [of y] byte_bound [of z] byte_bound [of t]
  by (simp add: js_shl_byte int32_signed algebra_simps)

lemma bytes4_be:
  "js_or (js_or (js_or (js_shl (uint (t :: byte)) 24) (js_shl (uint (z :: byte)) 16))
      (js_shl (uint (y :: byte)) 8)) (uint (x :: byte))
     = signed_value 4 (uint x + 256 * uint y + 65536 * uint z + 16777216 * uint t)"
proof -
  have "js_or (js_shl (uint t) 24) (js_shl (uint z) 16) = to_int32 ((uint t * 256 + uint z) * 2 ^ 16)"
    using js_or_add_int32(1) [of "uint z * 2 ^ 16" 24 "uint t"] byte_bound [of z]
    by (simp add: js_shl_byte to_int32_id algebra_simps)
  moreover have "js_or (to_int32 ((uint t * 256 + uint z) * 2 ^ 16)) (js_shl (uint y) 8)
      = to_int32 (((uint t * 256 + uint z) * 256 + uint y) * 2 ^ 8)"
    using js_or_add_int32(1) [of "uint y * 2 ^ 8" 16 "uint t * 256 + uint z"] byte_bound [of y]
    by (simp add: js_shl_byte to_int32_id algebra_simps)
  ultimately show ?thesis
    using js_or_add_int32(1) [of "uint x" 8 "(uint t * 256 + uint z) * 256 + uint y"]
      byte_bound [of x] byte_bound [of y] byte_bound [of z] byte_bound [of t]
    by (simp add: int32_signed algebra_simps)
qed

lemma js_and_bit:
  assumes "0 \<le> x" and "x < 2 ^ 16" and "n < 16"
  shows "js_and (2 ^ n) x = 0 \<longleftrightarrow> \<not> bit x n"
proof -
  have "(2 :: int) ^ n < 2 ^ 16" using assms(3) by (intro power_strict_increasing) simp_all
  then show ?thesis using assms
    by (simp add: js_and_def to_int32_id and.commute [of "2 ^ n"] and_exp_eq_0_iff_not_bit)
qed

lemma top_bit_iff:
  assumes "0 \<le> x" and "x < 2 * 2 ^ n"
  shows "bit x n \<longleftrightarrow> 2 ^ n \<le> (x :: int)"
proof -
  have "x div 2 ^ n = of_bool (2 ^ n \<le> x)"
  proof (cases "2 ^ n \<le> x")
    case True
    have "x div 2 ^ n = 1" by (rule int_div_pos_eq [where r = "x - 2 ^ n"]) (use True assms in simp_all)
    then show ?thesis using True by simp
  qed (use assms in simp)
  then show ?thesis by (simp add: bit_iff_odd)
qed

lemma sign_8: "(if js_and 128 (uint (b :: byte)) \<noteq> 0 then - 1 * (255 - uint b + 1) else uint b) = signed_value 1 (uint b)"
  using js_and_bit [of "uint b" 7] top_bit_iff [of "uint b" 7] byte_bound [of b]
  by (auto simp: signed_value_def)

lemma sign_16:
  assumes "0 \<le> i" and "i < 65536"
  shows "(if js_and 32768 i \<noteq> 0 then js_or 4294901760 i else i) = signed_value 2 i"
proof -
  have "js_or 4294901760 i = js_or (to_int32 (65535 * 2 ^ 16)) i"
    by (simp add: js_or_def to_int32_idem)
  also have "\<dots> = i - 65536" if "32768 \<le> i"
    using js_or_add_int32(1) [of i 16 65535] assms that by (simp add: int32_signed signed_value_def)
  finally show ?thesis
    using js_and_bit [of i 15] top_bit_iff [of i 15] assms by (auto simp: signed_value_def)
qed

lemma checked_read_result:
  assumes "\<And>s. s + n \<le> length b \<Longrightarrow> f (int s) = Some (value (window b s n))" and "u = int n"
  shows "checked_read b o' u False f = read_result n value b (offset o')"
  using assms(1) [of "offset o'"] assms(2)
  by (auto simp: checked_read_def read_result_def checkOffset_def Let_def simp flip: int_offset)

lemma num_at_in: "s + k < length b \<Longrightarrow> num_at b (int s + int k) = uint (b ! (s + k))"
  using js_elem_in [of "s + k" b] by (simp add: js_num_def)

lemma elem_at_in: "s + k < length b \<Longrightarrow> js_elem b (int s + int k) = Some (uint (b ! (s + k)))"
  using js_elem_in [of "s + k" b] by simp

lemma elems_at_in:
  "s < length b \<Longrightarrow> js_elem b (int s) = Some (uint (b ! s))"
  "s + 1 < length b \<Longrightarrow> js_elem b (int s + 1) = Some (uint (b ! (s + 1)))"
  "s + 2 < length b \<Longrightarrow> js_elem b (int s + 2) = Some (uint (b ! (s + 2)))"
  "s + 3 < length b \<Longrightarrow> js_elem b (int s + 3) = Some (uint (b ! (s + 3)))"
  using elem_at_in [of s 0 b] elem_at_in [of s 1 b] elem_at_in [of s 2 b] elem_at_in [of s 3 b] by simp_all

lemma window_Suc: "s + Suc n \<le> length b \<Longrightarrow> window b s (Suc n) = b ! s # window b (Suc s) n"
  by (simp add: window_def Cons_nth_drop_Suc [symmetric])

lemma windows:
  "s + 1 \<le> length b \<Longrightarrow> window b s 1 = [b ! s]"
  "Suc s \<le> length b \<Longrightarrow> window b s (Suc 0) = [b ! s]"
  "s + 2 \<le> length b \<Longrightarrow> window b s 2 = [b ! s, b ! (s + 1)]"
  "s + 4 \<le> length b \<Longrightarrow> window b s 4 = [b ! s, b ! (s + 1), b ! (s + 2), b ! (s + 3)]"
  by (simp_all add: window_Suc eval_nat_numeral) (simp_all add: window_def)

lemma readUInt8_eq: "readUInt8 b o' False = read_result 1 le_value b (offset o')"
  unfolding readUInt8_def by (rule checked_read_result) (simp_all add: elems_at_in windows)

lemma readInt8_eq: "readInt8 b o' False = read_result 1 (\<lambda>bs. signed_value 1 (le_value bs)) b (offset o')"
  unfolding readInt8_def
proof (rule checked_read_result)
  fix s assume "s + 1 \<le> length b"
  then show "(if js_and 128 (num_at b (int s)) \<noteq> 0
      then map_option (\<lambda>b. - 1 * (255 - b + 1)) (js_elem b (int s)) else js_elem b (int s))
    = Some (signed_value 1 (le_value (window b s 1)))"
    using sign_8 [of "b ! s"] by (auto simp: elems_at_in windows js_num_def split: if_splits)
qed simp

lemma readUInt16LE_eq: "readUInt16LE b o' False = read_result 2 le_value b (offset o')"
  unfolding readUInt16LE_def
  by (rule checked_read_result) (simp_all add: elems_at_in windows js_num_def bytes2_le)

lemma readUInt16BE_eq: "readUInt16BE b o' False = read_result 2 (\<lambda>bs. le_value (rev bs)) b (offset o')"
  unfolding readUInt16BE_def
  by (rule checked_read_result) (simp_all add: elems_at_in windows js_num_def bytes2_be)

lemma two_bytes: "0 \<le> uint (x :: byte) + 256 * uint (y :: byte)" "uint x + 256 * uint y < 65536"
  using byte_bound [of x] byte_bound [of y] by simp_all

lemma readInt16LE_eq: "readInt16LE b o' False = read_result 2 (\<lambda>bs. signed_value 2 (le_value bs)) b (offset o')"
  unfolding readInt16LE_def
  by (rule checked_read_result)
    (simp_all only: elems_at_in windows js_num_def option.case bytes2_le Let_def sign_16 two_bytes, simp_all)

lemma readInt16BE_eq:
  "readInt16BE b o' False = read_result 2 (\<lambda>bs. signed_value 2 (le_value (rev bs))) b (offset o')"
  unfolding readInt16BE_def
  by (rule checked_read_result)
    (simp_all only: elems_at_in windows js_num_def option.case bytes2_le Let_def sign_16 two_bytes, simp_all)

lemma readUInt32LE_eq: "readUInt32LE b o' False = read_result 4 le_value b (offset o')"
  unfolding readUInt32LE_def
  by (rule checked_read_result)
    (simp_all add: elems_at_in windows js_num_def js_add_def js_mul_def js_lift2_def bytes2_le bytes3_le)

lemma readUInt32BE_eq: "readUInt32BE b o' False = read_result 4 (\<lambda>bs. le_value (rev bs)) b (offset o')"
  unfolding readUInt32BE_def
  by (rule checked_read_result)
    (simp_all add: elems_at_in windows js_num_def js_add_def js_mul_def js_lift2_def bytes3_be)

lemma readInt32LE_eq: "readInt32LE b o' False = read_result 4 (\<lambda>bs. signed_value 4 (le_value bs)) b (offset o')"
  unfolding readInt32LE_def
  by (rule checked_read_result)
    (simp_all add: elems_at_in windows js_num_def bytes2_le bytes3_le bytes4_le, simp add: add.assoc)

lemma readInt32BE_eq:
  "readInt32BE b o' False = read_result 4 (\<lambda>bs. signed_value 4 (le_value (rev bs))) b (offset o')"
  unfolding readInt32BE_def
  by (rule checked_read_result) (simp_all add: elems_at_in windows js_num_def bytes4_be add.assoc)

lemma checked_write_result:
  assumes "\<And>s. lo \<le> v \<Longrightarrow> v < hi \<Longrightarrow> s + n \<le> length b \<Longrightarrow> f (int s) = patch b s (bytes v)"
    and "u = int n" and "h = of_int hi - 1" and "l = of_int lo"
  shows "checked_write b v o' u h l False f = write_result n lo hi bytes b v (offset o')"
  using assms(1) [of "offset o'"] assms(2-)
  by (auto simp: checked_write_def write_result_def checkInt_int Let_def simp flip: int_offset)

lemma byte_shr:
  assumes "m \<le> 24"
  shows "word_of_int (js_shr v m) = (word_of_int (v div 2 ^ m) :: byte)"
proof (rule word_uint_eqI)
  have "take_bit 8 (js_shr v m) = take_bit 8 (drop_bit m v)"
    using assms by (simp add: js_shr_def to_uint32_def drop_bit_take_bit take_bit_take_bit)
  then show "uint (word_of_int (js_shr v m) :: byte) = uint (word_of_int (v div 2 ^ m) :: byte)"
    by (simp add: byte_of_int take_bit_eq_mod drop_bit_eq_div)
qed

lemma stores_up:
  "s + 2 \<le> length b \<Longrightarrow> js_store (js_store b (int s) x) (int s + 1) y = patch b s [word_of_int x, word_of_int y]"
  "s + 4 \<le> length b \<Longrightarrow>
     js_store (js_store (js_store (js_store b (int s) x) (int s + 1) y) (int s + 2) z) (int s + 3) t
       = patch b s [word_of_int x, word_of_int y, word_of_int z, word_of_int t]"
  by (simp_all add: js_store_first js_store_end)

lemma stores_down:
  "s + 4 \<le> length b \<Longrightarrow>
     js_store (js_store (js_store (js_store b (int s + 3) t) (int s + 2) z) (int s + 1) y) (int s) x
       = patch b s [word_of_int x, word_of_int y, word_of_int z, word_of_int t]"
proof -
  assume s: "s + 4 \<le> length b"
  have "js_store b (int s + 3) t = patch b (Suc (Suc (Suc s))) [word_of_int t]"
    using js_store_first [of "s + 3" b t] s by (simp add: eval_nat_numeral add.commute)
  then show ?thesis using s by (simp add: js_store_front eval_nat_numeral)
qed

lemma byte_divs:
  "word_of_int (js_shr v 8) = (word_of_int (v div 256) :: byte)"
  "word_of_int (js_shr v 16) = (word_of_int (v div 256 div 256) :: byte)"
  "word_of_int (js_shr v 24) = (word_of_int (v div 256 div 256 div 256) :: byte)"
  by (simp_all add: byte_shr flip: zdiv_zmult2_eq)

lemma le_bytes_few:
  "le_bytes 1 v = [word_of_int v]"
  "le_bytes 2 v = [word_of_int v, word_of_int (v div 256)]"
  "le_bytes 4 v = [word_of_int v, word_of_int (v div 256), word_of_int (v div 256 div 256),
     word_of_int (v div 256 div 256 div 256)]"
  by (simp_all add: eval_nat_numeral)

lemma writeUInt8_eq: "writeUInt8 b v o' False = write_result 1 0 256 (le_bytes 1) b v (offset o')"
  unfolding writeUInt8_def
  by (rule checked_write_result) (simp_all add: js_store_first byte_store le_bytes_few)

lemma writeUInt16LE_eq: "writeUInt16LE b v o' False = write_result 2 0 65536 (le_bytes 2) b v (offset o')"
  unfolding writeUInt16LE_def
  by (rule checked_write_result) (simp_all add: stores_up byte_store byte_divs le_bytes_few)

lemma writeUInt16BE_eq:
  "writeUInt16BE b v o' False = write_result 2 0 65536 (\<lambda>v. rev (le_bytes 2 v)) b v (offset o')"
  unfolding writeUInt16BE_def
  by (rule checked_write_result) (simp_all add: stores_up byte_store byte_divs le_bytes_few)

lemma writeInt16LE_eq: "writeInt16LE b v o' False = write_result 2 (- 32768) 32768 (le_bytes 2) b v (offset o')"
  unfolding writeInt16LE_def
  by (rule checked_write_result) (simp_all add: stores_up byte_store byte_divs le_bytes_few)

lemma writeInt16BE_eq:
  "writeInt16BE b v o' False = write_result 2 (- 32768) 32768 (\<lambda>v. rev (le_bytes 2 v)) b v (offset o')"
  unfolding writeInt16BE_def
  by (rule checked_write_result) (simp_all add: stores_up byte_store byte_divs le_bytes_few)

lemma writeUInt32LE_eq: "writeUInt32LE b v o' False = write_result 4 0 4294967296 (le_bytes 4) b v (offset o')"
  unfolding writeUInt32LE_def
  by (rule checked_write_result) (simp_all add: stores_down byte_store byte_divs le_bytes_few)

lemma writeUInt32BE_eq:
  "writeUInt32BE b v o' False = write_result 4 0 4294967296 (\<lambda>v. rev (le_bytes 4 v)) b v (offset o')"
  unfolding writeUInt32BE_def
  by (rule checked_write_result) (simp_all add: stores_up(2) byte_store byte_divs le_bytes_few)

lemma writeInt32LE_eq:
  "writeInt32LE b v o' False = write_result 4 (- 2147483648) 2147483648 (le_bytes 4) b v (offset o')"
  unfolding writeInt32LE_def
  by (rule checked_write_result) (simp_all add: stores_up(2) byte_store byte_divs le_bytes_few)

lemma byte_wrapped: "word_of_int (255 + v + 1) = (word_of_int v :: byte)"
  using byte_mod [of "v + 256"] byte_mod [of v] by (simp add: ac_simps)

lemma shr_wrapped: "js_shr (4294967295 + v + 1) n = js_shr v n"
  "word_of_int (4294967295 + v + 1) = (word_of_int v :: byte)"
proof -
  have "4294967295 + v + 1 = v + 1 * 2 ^ 32" by simp
  then have "take_bit 32 (4294967295 + v + 1) = take_bit 32 v"
    by (simp only: take_bit_eq_mod mod_mult_self1)
  then show "js_shr (4294967295 + v + 1) n = js_shr v n" by (simp add: js_shr_def to_uint32_def)
  have "4294967295 + v + 1 = v + 256 * 16777216" by simp
  then have "(4294967295 + v + 1) mod 256 = v mod 256" by (simp only: mod_mult_self2)
  then show "word_of_int (4294967295 + v + 1) = (word_of_int v :: byte)"
    using byte_mod [of "4294967295 + v + 1"] byte_mod [of v] by simp
qed

lemma writeInt8_eq: "writeInt8 b v o' False = write_result 1 (- 128) 128 (le_bytes 1) b v (offset o')"
  unfolding writeInt8_def
proof (rule checked_write_result)
  fix s assume "s + 1 \<le> length b"
  then show "(let v = if v < 0 then 255 + v + 1 else v in js_store b (int s) (js_and 255 v))
      = patch b s (le_bytes 1 v)"
    by (simp only: Let_def js_store_first byte_store byte_wrapped le_bytes_few if_distrib [of word_of_int]
        Suc_le_eq Suc_eq_plus1 [symmetric] if_cancel)
qed simp_all

lemma writeInt32BE_eq:
  "writeInt32BE b v o' False
     = write_result 4 (- 2147483648) 2147483648 (\<lambda>v. rev (le_bytes 4 v)) b v (offset o')"
  unfolding writeInt32BE_def
proof (rule checked_write_result)
  fix s assume s: "s + 4 \<le> length b"
  let ?v = "if v < 0 then 4294967295 + v + 1 else v"
  have "js_shr ?v n = js_shr v n" "word_of_int ?v = (word_of_int v :: byte)" for n
    by (cases "v < 0"; simp only: shr_wrapped if_True if_False)+
  then show "(let v = ?v
      in js_store (js_store (js_store (js_store b (int s) (js_shr v 24)) (int s + 1) (js_shr v 16))
        (int s + 2) (js_shr v 8)) (int s + 3) (js_and 255 v)) = patch b s (rev (le_bytes 4 v))"
    using s by (simp only: Let_def stores_up(2) byte_store) (simp add: byte_divs le_bytes_few)
qed simp_all

section \<open>64 bits\<close>

lemma window_8:
  "s + 8 \<le> length b \<Longrightarrow> window b s 8 = [b ! s, b ! (s + 1), b ! (s + 2), b ! (s + 3),
     b ! (s + 4), b ! (s + 5), b ! (s + 6), b ! (s + 7)]"
  by (simp add: window_Suc eval_nat_numeral) (simp add: window_def)

lemma in_bounds_iff: "in_bounds b (int s) \<longleftrightarrow> s + 8 \<le> length b"
proof -
  have "js_elem b (int s + 7) \<noteq> None \<longleftrightarrow> s + 7 < length b"
    by (auto simp: js_elem_def js_at_def nat_add_distrib)
  moreover have "js_elem b (int s) \<noteq> None \<longleftrightarrow> s < length b" by (auto simp: js_elem_def js_at_def)
  ultimately show ?thesis unfolding in_bounds_def by linarith
qed

lemma big_read_result:
  assumes "\<And>s. s + 8 \<le> length b \<Longrightarrow> f (int s) = value (window b s 8)"
  shows "big_read b o' f = (let s = offset o' in if s + 8 \<le> length b then Inr (value (window b s 8)) else Inl RangeError)"
  using assms by (simp add: big_read_def Let_def in_bounds_iff flip: int_offset)

lemma nums_at_in:
  assumes "s + 8 \<le> length b"
  shows "num_at b (int s) = uint (b ! s)" "num_at b (int s + 1) = uint (b ! (s + 1))"
    "num_at b (int s + 2) = uint (b ! (s + 2))" "num_at b (int s + 3) = uint (b ! (s + 3))"
    "num_at b (int s + 4) = uint (b ! (s + 4))" "num_at b (int s + 5) = uint (b ! (s + 5))"
    "num_at b (int s + 6) = uint (b ! (s + 6))" "num_at b (int s + 7) = uint (b ! (s + 7))"
  using num_at_in [of s 0 b] num_at_in [of s 1 b] num_at_in [of s 2 b] num_at_in [of s 3 b]
    num_at_in [of s 4 b] num_at_in [of s 5 b] num_at_in [of s 6 b] num_at_in [of s 7 b] assms
  by simp_all

lemma readBigUInt64LE_eq:
  "readBigUInt64LE b o' = (let s = offset o' in if s + 8 \<le> length b then Inr (le_value (window b s 8)) else Inl RangeError)"
  unfolding readBigUInt64LE_def
  by (rule big_read_result) (simp add: nums_at_in window_8 push_bit_eq_mult)

lemma readBigUInt64BE_eq:
  "readBigUInt64BE b o'
     = (let s = offset o' in if s + 8 \<le> length b then Inr (le_value (rev (window b s 8))) else Inl RangeError)"
  unfolding readBigUInt64BE_def
  by (rule big_read_result) (simp add: nums_at_in window_8 push_bit_eq_mult)

lemma top_byte:
  assumes "0 \<le> u" and "u < 256 ^ 7"
  shows "signed_value 8 (u + 256 ^ 7 * uint (t :: byte)) = u + 2 ^ 32 * js_shl (uint t) 24"
proof -
  have "js_shl (uint t) 24 = (if 128 \<le> uint t then uint t * 2 ^ 24 - 2 ^ 32 else uint t * 2 ^ 24)"
    using byte_bound [of t] by (simp add: js_shl_byte int32_signed signed_value_def)
  moreover have "128 * 256 ^ 7 \<le> u + 256 ^ 7 * uint t \<longleftrightarrow> 128 \<le> uint t"
    using assms by (auto simp: power_numeral)
  ultimately show ?thesis by (simp add: signed_value_def)
qed

lemma readBigInt64LE_eq:
  "readBigInt64LE b o'
     = (let s = offset o' in
        if s + 8 \<le> length b then Inr (signed_value 8 (le_value (window b s 8))) else Inl RangeError)"
  unfolding readBigInt64LE_def
proof (rule big_read_result)
  fix s assume s: "s + 8 \<le> length b"
  let ?u = "le_value [b ! s, b ! (s + 1), b ! (s + 2), b ! (s + 3), b ! (s + 4), b ! (s + 5), b ! (s + 6)]"
  have "le_value (window b s 8) = ?u + 256 ^ 7 * uint (b ! (s + 7))"
    by (simp add: window_8 [OF s])
  moreover have "0 \<le> ?u" "?u < 256 ^ 7" using le_value_bounds [of
      "[b ! s, b ! (s + 1), b ! (s + 2), b ! (s + 3), b ! (s + 4), b ! (s + 5), b ! (s + 6)]"] by simp_all
  ultimately have "signed_value 8 (le_value (window b s 8)) = ?u + 2 ^ 32 * js_shl (uint (b ! (s + 7))) 24"
    by (simp only: top_byte)
  then show "(let u = num_at b (int s + 4) + 256 * num_at b (int s + 5) + 65536 * num_at b (int s + 6)
         + js_shl (num_at b (int s + 7)) 24
       in push_bit 32 u + (num_at b (int s) + 256 * num_at b (int s + 1) + 65536 * num_at b (int s + 2)
         + num_at b (int s + 3) * 2 ^ 24)) = signed_value 8 (le_value (window b s 8))"
    by (simp add: nums_at_in [OF s] push_bit_eq_mult)
qed

lemma readBigInt64BE_eq:
  "readBigInt64BE b o'
     = (let s = offset o' in
        if s + 8 \<le> length b then Inr (signed_value 8 (le_value (rev (window b s 8)))) else Inl RangeError)"
  unfolding readBigInt64BE_def
proof (rule big_read_result)
  fix s assume s: "s + 8 \<le> length b"
  let ?u = "le_value [b ! (s + 7), b ! (s + 6), b ! (s + 5), b ! (s + 4), b ! (s + 3), b ! (s + 2), b ! (s + 1)]"
  have "le_value (rev (window b s 8)) = ?u + 256 ^ 7 * uint (b ! s)"
    by (simp add: window_8 [OF s])
  moreover have "0 \<le> ?u" "?u < 256 ^ 7" using le_value_bounds [of
      "[b ! (s + 7), b ! (s + 6), b ! (s + 5), b ! (s + 4), b ! (s + 3), b ! (s + 2), b ! (s + 1)]"] by simp_all
  ultimately have "signed_value 8 (le_value (rev (window b s 8))) = ?u + 2 ^ 32 * js_shl (uint (b ! s)) 24"
    by (simp only: top_byte)
  then show "(let u = js_shl (num_at b (int s)) 24 + 65536 * num_at b (int s + 1) + 256 * num_at b (int s + 2)
         + num_at b (int s + 3)
       in push_bit 32 u + (num_at b (int s + 4) * 2 ^ 24 + 65536 * num_at b (int s + 5)
         + 256 * num_at b (int s + 6) + num_at b (int s + 7))) = signed_value 8 (le_value (rev (window b s 8)))"
    by (simp add: nums_at_in [OF s] push_bit_eq_mult)
qed

lemma to_int32_drop: "to_int32 (drop_bit m (to_int32 x)) = drop_bit m (to_int32 x)"
  unfolding to_int32_def by (rule bit_eqI) (auto simp: bit_simps min_def)

lemma js_sar_sar: "js_sar (js_sar x m) n = js_sar x (m + n)"
  by (simp add: js_sar_def to_int32_drop add.commute)

lemma byte_sar:
  assumes "m \<le> 24"
  shows "word_of_int (js_sar v m) = (word_of_int (v div 2 ^ m) :: byte)"
proof (rule word_uint_eqI)
  have "take_bit 8 (js_sar v m) = take_bit 8 (drop_bit m v)"
  proof (rule bit_eqI)
    fix n show "bit (take_bit 8 (js_sar v m)) n \<longleftrightarrow> bit (take_bit 8 (drop_bit m v)) n"
      using assms by (cases "n < 8") (auto simp: js_sar_def to_int32_def bit_simps min_absorb2)
  qed
  then show "uint (word_of_int (js_sar v m) :: byte) = uint (word_of_int (v div 2 ^ m) :: byte)"
    by (simp add: byte_of_int take_bit_eq_mod drop_bit_eq_div)
qed

lemma byte_sars:
  "word_of_int (js_sar v 8) = (word_of_int (v div 256) :: byte)"
  "word_of_int (js_sar v 16) = (word_of_int (v div 256 div 256) :: byte)"
  "word_of_int (js_sar v 24) = (word_of_int (v div 256 div 256 div 256) :: byte)"
  by (simp_all add: byte_sar flip: zdiv_zmult2_eq)

lemma put_quad_up: "s + 4 \<le> length b \<Longrightarrow> put_quad b (int s) 1 w = patch b s (le_bytes 4 w)"
  by (simp add: put_quad_def Let_def stores_up(2) js_sar_sar byte_sars le_bytes_few)

lemma put_quad_down:
  assumes "s + 4 \<le> length b"
  shows "put_quad b (int s + 3) (- 1) w = patch b s (rev (le_bytes 4 w))"
proof -
  have "int s + 3 + - 1 = int s + 2" "int s + 3 + 2 * - 1 = int s + 1" "int s + 3 + 3 * - 1 = int s"
    by simp_all
  with assms show ?thesis
    by (simp only: put_quad_def Let_def stores_down js_sar_sar)
      (simp add: js_sar_sar byte_sars le_bytes_few)
qed

lemma le_bytes_add: "le_bytes (m + n) v = le_bytes m v @ le_bytes n (v div 256 ^ m)"
  by (induction m arbitrary: v) (simp_all add: zdiv_zmult2_eq)

lemma le_bytes_mod: "le_bytes n (v mod 256 ^ n) = le_bytes n v"
  using le_bytes_value [of "le_bytes n v" n 0] by (simp add: le_value_bytes)

lemma le_bytes_halves:
  "le_bytes 8 v = le_bytes 4 (v AND 4294967295) @ le_bytes 4 (drop_bit 32 v AND 4294967295)"
proof -
  have "w AND 4294967295 = w mod 256 ^ 4" for w :: int
    using take_bit_eq_mask [of 32 w] by (simp add: take_bit_eq_mod mask_eq_exp_minus_1)
  moreover have "drop_bit 32 v = v div 256 ^ 4" by (simp add: drop_bit_eq_div)
  ultimately show ?thesis using le_bytes_add [of 4 4 v] by (simp only: le_bytes_mod) simp
qed

lemma patch_append: "s + length xs \<le> length b \<Longrightarrow> patch (patch b s xs) (s + length xs) ys = patch b s (xs @ ys)"
  by (simp add: patch_def ac_simps)

lemma patch_prepend: "s + length xs \<le> length b \<Longrightarrow> patch (patch b (s + length xs) ys) s xs = patch b s (xs @ ys)"
  by (simp add: patch_def ac_simps)

lemma wrtBigUInt64LE_eq:
  "wrtBigUInt64LE b v (int s) lo hi = write_result 8 lo (hi + 1) (le_bytes 8) b v s"
proof -
  have "put_quad (put_quad b (int s) 1 x) (int s + 4) 1 y = patch b s (le_bytes 4 x @ le_bytes 4 y)"
    if "s + 8 \<le> length b" for x y
    using that patch_append [of s "le_bytes 4 x" b "le_bytes 4 y"]
      put_quad_up [of "s + 4" "patch b s (le_bytes 4 x)" y]
    by (simp add: put_quad_up)
  then show ?thesis
    by (auto simp: wrtBigUInt64LE_def write_result_def checkIntBI_def in_bounds_iff le_bytes_halves)
qed

lemma wrtBigUInt64BE_eq:
  "wrtBigUInt64BE b v (int s) lo hi = write_result 8 lo (hi + 1) (\<lambda>v. rev (le_bytes 8 v)) b v s"
proof -
  have k: "int (s + 4) + 3 = int s + 7" by simp
  have "put_quad (put_quad b (int s + 7) (- 1) x) (int s + 3) (- 1) y
      = patch b s (rev (le_bytes 4 y) @ rev (le_bytes 4 x))" if "s + 8 \<le> length b" for x y
    using that patch_prepend [of s "rev (le_bytes 4 y)" b "rev (le_bytes 4 x)"]
      put_quad_down [of "s + 4" b x, unfolded k]
    by (simp add: put_quad_down)
  then show ?thesis
    by (auto simp: wrtBigUInt64BE_def write_result_def checkIntBI_def in_bounds_iff le_bytes_halves)
qed

section \<open>The contract of a pair of functions\<close>

text \<open>
  A write and a read of one format: \<open>n\<close> bytes, the encoding of the numbers from \<open>lo\<close> to below
  \<open>hi\<close> as \<open>n\<close> bytes and its inverse. The client laws below hold for each of the pairs.
\<close>

locale number_access =
  fixes wr :: "byte list \<Rightarrow> int \<Rightarrow> int \<Rightarrow> js_error + (byte list \<times> int)"
    and rd :: "byte list \<Rightarrow> int \<Rightarrow> js_error + 'r"
    and ret :: "int \<Rightarrow> 'r"
    and n :: nat and lo hi :: int
    and bytes :: "int \<Rightarrow> byte list" and val :: "byte list \<Rightarrow> int"
  assumes length_bytes: "length (bytes v) = n"
    and val_bytes: "lo \<le> v \<Longrightarrow> v < hi \<Longrightarrow> val (bytes v) = v"
    and bytes_val: "length bs = n \<Longrightarrow> bytes (val bs) = bs"
    and val_lower: "length bs = n \<Longrightarrow> lo \<le> val bs"
    and val_upper: "length bs = n \<Longrightarrow> val bs < hi"
    and write_law: "s < 2 ^ 32 \<Longrightarrow> wr b v (int s) = write_result n lo hi bytes b v s"
    and read_law: "s < 2 ^ 32 \<Longrightarrow>
      rd b (int s) = (if s + n \<le> length b then Inr (ret (val (window b s n))) else Inl RangeError)"
begin

lemma write_correct:
  assumes "s < 2 ^ 32"
  shows "(case wr b v (int s) of
      Inl e \<Rightarrow> e = RangeError \<and> \<not> (lo \<le> v \<and> v < hi \<and> s + n \<le> length b)
    | Inr (b', k) \<Rightarrow> lo \<le> v \<and> v < hi \<and> s + n \<le> length b \<and> k = int (s + n) \<and> length b' = length b
        \<and> (\<forall>j < length b. j < s \<or> s + n \<le> j \<longrightarrow> b' ! j = b ! j) \<and> rd b' (int s) = Inr (ret v))"
  using assms by (auto simp: write_law write_result_def read_law length_bytes val_bytes nth_patch)

lemma write_read:
  assumes "s < 2 ^ 32" and "s + n \<le> length b"
  shows "wr b (val (window b s n)) (int s) = Inr (b, int (s + n))"
  using assms val_lower [of "window b s n"] val_upper [of "window b s n"]
  by (simp add: write_law write_result_def bytes_val)

lemma last_write_wins:
  assumes "s < 2 ^ 32" and "wr b v (int s) = Inr (b', k)"
  shows "wr b' w (int s) = wr b w (int s)"
  using assms by (auto simp: write_law write_result_def length_bytes split: if_splits)

lemma disjoint_writes:
  assumes "t < 2 ^ 32" and "s + n \<le> t"
    and "wr b v (int s) = Inr (b1, k)" and "wr b1 w (int t) = Inr (b2, l)"
  shows "\<exists>c. wr b w (int t) = Inr (c, l) \<and> wr c v (int s) = Inr (b2, k)"
  using assms patch_commute [of s "bytes v" t "bytes w" b]
  by (auto simp: write_law write_result_def length_bytes split: if_splits)

end

lemma le_bytes_unsigned: "length bs = n \<Longrightarrow> le_bytes n (le_value bs) = bs"
  using le_bytes_value [of bs n 0] by simp

lemma le_value_below: "length bs = n \<Longrightarrow> le_value bs < 256 ^ n"
  using le_value_bounds(2) [of bs] by simp

lemma unsigned_le:
  assumes "\<And>s b v. s < 2 ^ 32 \<Longrightarrow> wr b v (int s) = write_result n 0 (256 ^ n) (le_bytes n) b v s"
    and "\<And>s b. s < 2 ^ 32 \<Longrightarrow> rd b (int s) = (if s + n \<le> length b then Inr (ret (le_value (window b s n))) else Inl RangeError)"
  shows "number_access wr rd ret n 0 (256 ^ n) (le_bytes n) le_value"
  by unfold_locales (simp_all add: assms le_value_bytes le_bytes_unsigned le_value_bounds le_value_below)

lemma unsigned_be:
  assumes "\<And>s b v. s < 2 ^ 32 \<Longrightarrow> wr b v (int s) = write_result n 0 (256 ^ n) (\<lambda>v. rev (le_bytes n v)) b v s"
    and "\<And>s b. s < 2 ^ 32 \<Longrightarrow> rd b (int s) = (if s + n \<le> length b then Inr (ret (le_value (rev (window b s n)))) else Inl RangeError)"
  shows "number_access wr rd ret n 0 (256 ^ n) (\<lambda>v. rev (le_bytes n v)) (\<lambda>bs. le_value (rev bs))"
  by unfold_locales (simp_all add: assms le_value_bytes le_bytes_unsigned le_value_bounds le_value_below)

lemma signed_le:
  assumes "\<And>s b v. s < 2 ^ 32 \<Longrightarrow> wr b v (int s) =
      write_result n (- (128 * 256 ^ (n - 1))) (128 * 256 ^ (n - 1)) (le_bytes n) b v s"
    and "\<And>s b. s < 2 ^ 32 \<Longrightarrow> rd b (int s) =
      (if s + n \<le> length b then Inr (ret (signed_value n (le_value (window b s n)))) else Inl RangeError)"
    and "0 < n"
  shows "number_access wr rd ret n (- (128 * 256 ^ (n - 1))) (128 * 256 ^ (n - 1)) (le_bytes n)
    (\<lambda>bs. signed_value n (le_value bs))"
  by unfold_locales (simp_all only: assms length_le_bytes le_value_bytes signed_value_mod le_bytes_signed signed_value_bounds)

lemma signed_be:
  assumes "\<And>s b v. s < 2 ^ 32 \<Longrightarrow> wr b v (int s) =
      write_result n (- (128 * 256 ^ (n - 1))) (128 * 256 ^ (n - 1)) (\<lambda>v. rev (le_bytes n v)) b v s"
    and "\<And>s b. s < 2 ^ 32 \<Longrightarrow> rd b (int s) =
      (if s + n \<le> length b then Inr (ret (signed_value n (le_value (rev (window b s n))))) else Inl RangeError)"
    and "0 < n"
  shows "number_access wr rd ret n (- (128 * 256 ^ (n - 1))) (128 * 256 ^ (n - 1)) (\<lambda>v. rev (le_bytes n v))
    (\<lambda>bs. signed_value n (le_value (rev bs)))"
  by unfold_locales
    (simp_all only: assms length_le_bytes length_rev rev_rev_ident le_value_bytes signed_value_mod
      le_bytes_signed signed_value_bounds)

text \<open>The functions of any number of bytes.\<close>

lemma general_access:
  assumes "0 < n" and "n < 2 ^ 32"
  shows uint_le_access: "number_access (\<lambda>b v s. writeUIntLE b v s (int n) False) (\<lambda>b s. readUIntLE b s (int n) False)
      Some n 0 (256 ^ n) (le_bytes n) le_value"
    and uint_be_access: "number_access (\<lambda>b v s. writeUIntBE b v s (int n) False) (\<lambda>b s. readUIntBE b s (int n) False)
      Some n 0 (256 ^ n) (\<lambda>v. rev (le_bytes n v)) (\<lambda>bs. le_value (rev bs))"
    and int_le_access: "number_access (\<lambda>b v s. writeIntLE b v s (int n) False) (\<lambda>b s. readIntLE b s (int n) False)
      Some n (- (128 * 256 ^ (n - 1))) (128 * 256 ^ (n - 1)) (le_bytes n) (\<lambda>bs. signed_value n (le_value bs))"
    and int_be_access: "number_access (\<lambda>b v s. writeIntBE b v s (int n) False) (\<lambda>b s. readIntBE b s (int n) False)
      Some n (- (128 * 256 ^ (n - 1))) (128 * 256 ^ (n - 1)) (\<lambda>v. rev (le_bytes n v))
      (\<lambda>bs. signed_value n (le_value (rev bs)))"
proof -
  note eqs = writeUIntLE_eq writeUIntBE_eq writeIntLE_eq writeIntBE_eq
    readUIntLE_eq readUIntBE_eq readIntLE_eq readIntBE_eq offset_nat read_result_def
  show "number_access (\<lambda>b v s. writeUIntLE b v s (int n) False) (\<lambda>b s. readUIntLE b s (int n) False)
      Some n 0 (256 ^ n) (le_bytes n) le_value"
    by (rule unsigned_le) (simp_all only: assms eqs)
  show "number_access (\<lambda>b v s. writeUIntBE b v s (int n) False) (\<lambda>b s. readUIntBE b s (int n) False)
      Some n 0 (256 ^ n) (\<lambda>v. rev (le_bytes n v)) (\<lambda>bs. le_value (rev bs))"
    by (rule unsigned_be) (simp_all only: assms eqs)
  show "number_access (\<lambda>b v s. writeIntLE b v s (int n) False) (\<lambda>b s. readIntLE b s (int n) False)
      Some n (- (128 * 256 ^ (n - 1))) (128 * 256 ^ (n - 1)) (le_bytes n) (\<lambda>bs. signed_value n (le_value bs))"
    by (rule signed_le) (simp_all only: assms eqs)
  show "number_access (\<lambda>b v s. writeIntBE b v s (int n) False) (\<lambda>b s. readIntBE b s (int n) False)
      Some n (- (128 * 256 ^ (n - 1))) (128 * 256 ^ (n - 1)) (\<lambda>v. rev (le_bytes n v))
      (\<lambda>bs. signed_value n (le_value (rev bs)))"
    by (rule signed_be) (simp_all only: assms eqs)
qed

text \<open>The fixed widths are the general functions at their size, errors included.\<close>

lemma fixed_reads:
  "readUInt8 b o' False = readUIntLE b o' 1 False"
  "readUInt16LE b o' False = readUIntLE b o' 2 False"
  "readUInt16BE b o' False = readUIntBE b o' 2 False"
  "readUInt32LE b o' False = readUIntLE b o' 4 False"
  "readUInt32BE b o' False = readUIntBE b o' 4 False"
  "readInt8 b o' False = readIntLE b o' 1 False"
  "readInt16LE b o' False = readIntLE b o' 2 False"
  "readInt16BE b o' False = readIntBE b o' 2 False"
  "readInt32LE b o' False = readIntLE b o' 4 False"
  "readInt32BE b o' False = readIntBE b o' 4 False"
  using readUIntLE_eq [of 1 b o'] readUIntLE_eq [of 2 b o'] readUIntBE_eq [of 2 b o'] readUIntLE_eq [of 4 b o']
    readUIntBE_eq [of 4 b o'] readIntLE_eq [of 1 b o'] readIntLE_eq [of 2 b o'] readIntBE_eq [of 2 b o']
    readIntLE_eq [of 4 b o'] readIntBE_eq [of 4 b o']
  by (simp_all add: readUInt8_eq readUInt16LE_eq readUInt16BE_eq readUInt32LE_eq readUInt32BE_eq
      readInt8_eq readInt16LE_eq readInt16BE_eq readInt32LE_eq readInt32BE_eq)

lemma fixed_writes:
  "writeUInt8 b v o' False = writeUIntLE b v o' 1 False"
  "writeUInt16LE b v o' False = writeUIntLE b v o' 2 False"
  "writeUInt16BE b v o' False = writeUIntBE b v o' 2 False"
  "writeUInt32LE b v o' False = writeUIntLE b v o' 4 False"
  "writeUInt32BE b v o' False = writeUIntBE b v o' 4 False"
  "writeInt8 b v o' False = writeIntLE b v o' 1 False"
  "writeInt16LE b v o' False = writeIntLE b v o' 2 False"
  "writeInt16BE b v o' False = writeIntBE b v o' 2 False"
  "writeInt32LE b v o' False = writeIntLE b v o' 4 False"
  "writeInt32BE b v o' False = writeIntBE b v o' 4 False"
  using writeUIntLE_eq [of 1 b v o'] writeUIntLE_eq [of 2 b v o'] writeUIntBE_eq [of 2 b v o']
    writeUIntLE_eq [of 4 b v o'] writeUIntBE_eq [of 4 b v o'] writeIntLE_eq [of 1 b v o']
    writeIntLE_eq [of 2 b v o'] writeIntBE_eq [of 2 b v o'] writeIntLE_eq [of 4 b v o'] writeIntBE_eq [of 4 b v o']
  by (simp_all add: writeUInt8_eq writeUInt16LE_eq writeUInt16BE_eq writeUInt32LE_eq writeUInt32BE_eq
      writeInt8_eq writeInt16LE_eq writeInt16BE_eq writeInt32LE_eq writeInt32BE_eq)

section \<open>The formats of a fixed size\<close>

interpretation u8: number_access "\<lambda>b v s. writeUInt8 b v s False" "\<lambda>b s. readUInt8 b s False"
  Some 1 "0" "256 ^ 1" "le_bytes 1" "le_value"
  using uint_le_access [of 1] by (simp add: fixed_reads fixed_writes)

interpretation i8: number_access "\<lambda>b v s. writeInt8 b v s False" "\<lambda>b s. readInt8 b s False"
  Some 1 "- (128 * 256 ^ (1 - 1))" "128 * 256 ^ (1 - 1)" "le_bytes 1" "\<lambda>bs. signed_value 1 (le_value bs)"
  using int_le_access [of 1] by (simp add: fixed_reads fixed_writes)

interpretation u16le: number_access "\<lambda>b v s. writeUInt16LE b v s False" "\<lambda>b s. readUInt16LE b s False"
  Some 2 "0" "256 ^ 2" "le_bytes 2" "le_value"
  using uint_le_access [of 2] by (simp add: fixed_reads fixed_writes)

interpretation u16be: number_access "\<lambda>b v s. writeUInt16BE b v s False" "\<lambda>b s. readUInt16BE b s False"
  Some 2 "0" "256 ^ 2" "\<lambda>v. rev (le_bytes 2 v)" "\<lambda>bs. le_value (rev bs)"
  using uint_be_access [of 2] by (simp add: fixed_reads fixed_writes)

interpretation i16le: number_access "\<lambda>b v s. writeInt16LE b v s False" "\<lambda>b s. readInt16LE b s False"
  Some 2 "- (128 * 256 ^ (2 - 1))" "128 * 256 ^ (2 - 1)" "le_bytes 2" "\<lambda>bs. signed_value 2 (le_value bs)"
  using int_le_access [of 2] by (simp add: fixed_reads fixed_writes)

interpretation i16be: number_access "\<lambda>b v s. writeInt16BE b v s False" "\<lambda>b s. readInt16BE b s False"
  Some 2 "- (128 * 256 ^ (2 - 1))" "128 * 256 ^ (2 - 1)" "\<lambda>v. rev (le_bytes 2 v)" "\<lambda>bs. signed_value 2 (le_value (rev bs))"
  using int_be_access [of 2] by (simp add: fixed_reads fixed_writes)

interpretation u32le: number_access "\<lambda>b v s. writeUInt32LE b v s False" "\<lambda>b s. readUInt32LE b s False"
  Some 4 "0" "256 ^ 4" "le_bytes 4" "le_value"
  using uint_le_access [of 4] by (simp add: fixed_reads fixed_writes)

interpretation u32be: number_access "\<lambda>b v s. writeUInt32BE b v s False" "\<lambda>b s. readUInt32BE b s False"
  Some 4 "0" "256 ^ 4" "\<lambda>v. rev (le_bytes 4 v)" "\<lambda>bs. le_value (rev bs)"
  using uint_be_access [of 4] by (simp add: fixed_reads fixed_writes)

interpretation i32le: number_access "\<lambda>b v s. writeInt32LE b v s False" "\<lambda>b s. readInt32LE b s False"
  Some 4 "- (128 * 256 ^ (4 - 1))" "128 * 256 ^ (4 - 1)" "le_bytes 4" "\<lambda>bs. signed_value 4 (le_value bs)"
  using int_le_access [of 4] by (simp add: fixed_reads fixed_writes)

interpretation i32be: number_access "\<lambda>b v s. writeInt32BE b v s False" "\<lambda>b s. readInt32BE b s False"
  Some 4 "- (128 * 256 ^ (4 - 1))" "128 * 256 ^ (4 - 1)" "\<lambda>v. rev (le_bytes 4 v)" "\<lambda>bs. signed_value 4 (le_value (rev bs))"
  using int_be_access [of 4] by (simp add: fixed_reads fixed_writes)

interpretation u64le: number_access writeBigUInt64LE readBigUInt64LE
  id 8 "0" "256 ^ 8" "le_bytes 8" "le_value"
  by (rule unsigned_le)
    (simp_all add: writeBigUInt64LE_def wrtBigUInt64LE_eq readBigUInt64LE_eq offset_nat Let_def)

interpretation u64be: number_access writeBigUInt64BE readBigUInt64BE
  id 8 "0" "256 ^ 8" "\<lambda>v. rev (le_bytes 8 v)" "\<lambda>bs. le_value (rev bs)"
  by (rule unsigned_be)
    (simp_all add: writeBigUInt64BE_def wrtBigUInt64BE_eq readBigUInt64BE_eq offset_nat Let_def)

interpretation i64le: number_access writeBigInt64LE readBigInt64LE
  id 8 "- (128 * 256 ^ (8 - 1))" "128 * 256 ^ (8 - 1)" "le_bytes 8" "\<lambda>bs. signed_value 8 (le_value bs)"
  by (rule signed_le)
    (simp_all add: writeBigInt64LE_def wrtBigUInt64LE_eq readBigInt64LE_eq offset_nat Let_def)

interpretation i64be: number_access writeBigInt64BE readBigInt64BE
  id 8 "- (128 * 256 ^ (8 - 1))" "128 * 256 ^ (8 - 1)" "\<lambda>v. rev (le_bytes 8 v)" "\<lambda>bs. signed_value 8 (le_value (rev bs))"
  by (rule signed_be)
    (simp_all add: writeBigInt64BE_def wrtBigUInt64BE_eq readBigInt64BE_eq offset_nat Let_def)

section \<open>Properties\<close>

text \<open>
  C38. Writing and reading integers of 1 to 6 bytes, in both byte orders, signed and unsigned: a
  write succeeds exactly when the value is in the range of its format and the bytes are inside
  the buffer, and throws \<open>RangeError\<close> otherwise; it then changes no other byte, returns the
  offset behind the number, and the read gives the value back.
\<close>

theorem integer_access_correct:
  assumes "0 < n" and "n \<le> 6" and "s < 2 ^ 32"
    and "(wr, rd, lo, hi) \<in> {(writeUIntLE, readUIntLE, 0, 256 ^ n), (writeUIntBE, readUIntBE, 0, 256 ^ n),
      (writeIntLE, readIntLE, - (128 * 256 ^ (n - 1)), 128 * 256 ^ (n - 1)),
      (writeIntBE, readIntBE, - (128 * 256 ^ (n - 1)), 128 * 256 ^ (n - 1))}"
  shows "(case wr b v (int s) (int n) False of
      Inl e \<Rightarrow> e = RangeError \<and> \<not> (lo \<le> v \<and> v < hi \<and> s + n \<le> length b)
    | Inr (b', k) \<Rightarrow> lo \<le> v \<and> v < hi \<and> s + n \<le> length b \<and> k = int (s + n) \<and> length b' = length b
        \<and> (\<forall>j < length b. j < s \<or> s + n \<le> j \<longrightarrow> b' ! j = b ! j) \<and> rd b' (int s) (int n) False = Inr (Some v))"
proof -
  have "n < 2 ^ 32" using assms(2) by simp
  note access = general_access [OF assms(1) this, THEN number_access.write_correct, OF assms(3)]
  from assms(4) show ?thesis by (auto simp only: insert_iff empty_iff prod.inject intro!: access)
qed

theorem integer_access_correct_witness:
  "\<exists>b'. writeIntLE [1, 2, 3, 4, 5] (- 200000) 1 3 False = Inr (b', 4)
    \<and> readIntLE b' 1 3 False = Inr (Some (- 200000)) \<and> b' ! 0 = 1 \<and> b' ! 4 = 5"
proof -
  have "(writeIntLE, readIntLE, - (128 * 256 ^ (3 - 1)), 128 * 256 ^ (3 - 1)) \<in>
    {(writeUIntLE, readUIntLE, 0, 256 ^ 3), (writeUIntBE, readUIntBE, 0, 256 ^ 3),
      (writeIntLE, readIntLE, - (128 * 256 ^ (3 - 1)), 128 * 256 ^ (3 - 1)),
      (writeIntBE, readIntBE, - (128 * 256 ^ (3 - 1)), 128 * (256 :: int) ^ (3 - 1))}" by simp
  from integer_access_correct [of 3 1, OF _ _ _ this, where b = "[1, 2, 3, 4, 5]" and v = "- 200000"]
  show ?thesis by (auto split: sum.splits)
qed

text \<open>
  The functions of 8, 16 and 32 bits, written with shifts and masks, are the general loops
  at 1, 2 and 4 bytes: on every buffer, offset and value the same result or the same error.
\<close>

lemma fixed_widths_agree:
  "readUInt8 b o' False = readUIntLE b o' 1 False
   \<and> readUInt16LE b o' False = readUIntLE b o' 2 False \<and> readUInt16BE b o' False = readUIntBE b o' 2 False
   \<and> readUInt32LE b o' False = readUIntLE b o' 4 False \<and> readUInt32BE b o' False = readUIntBE b o' 4 False
   \<and> readInt8 b o' False = readIntLE b o' 1 False
   \<and> readInt16LE b o' False = readIntLE b o' 2 False \<and> readInt16BE b o' False = readIntBE b o' 2 False
   \<and> readInt32LE b o' False = readIntLE b o' 4 False \<and> readInt32BE b o' False = readIntBE b o' 4 False
   \<and> writeUInt8 b v o' False = writeUIntLE b v o' 1 False
   \<and> writeUInt16LE b v o' False = writeUIntLE b v o' 2 False
   \<and> writeUInt16BE b v o' False = writeUIntBE b v o' 2 False
   \<and> writeUInt32LE b v o' False = writeUIntLE b v o' 4 False
   \<and> writeUInt32BE b v o' False = writeUIntBE b v o' 4 False
   \<and> writeInt8 b v o' False = writeIntLE b v o' 1 False
   \<and> writeInt16LE b v o' False = writeIntLE b v o' 2 False
   \<and> writeInt16BE b v o' False = writeIntBE b v o' 2 False
   \<and> writeInt32LE b v o' False = writeIntLE b v o' 4 False
   \<and> writeInt32BE b v o' False = writeIntBE b v o' 4 False"
  by (simp only: fixed_reads fixed_writes simp_thms)

end
