(* ===== verification/SwaggerBytes.thy ===== *)
theory SwaggerBytes
  imports SwaggerNumbers
begin

text \<open>
  What \<open>Buffer\<close> of the bundled Swagger UI (webpack module 48287) does with whole buffers:
  comparison, \<open>slice\<close>, the byte swaps, the searches, \<open>copy\<close>, \<open>fill\<close> and \<open>concat\<close>. A buffer is the
  list of its bytes and a method returns the changed buffer; a missing or undefined argument is
  \<open>None\<close>. \<open>slice\<close> shares its memory with its receiver in the code, which shows only in later
  writes. Arguments have the right types, so the type checks do not appear.
\<close>

section \<open>compare and equals\<close>

text \<open>The values at the first difference, the lengths if there is none.\<close>

function compare_loop :: "byte list \<Rightarrow> byte list \<Rightarrow> nat \<Rightarrow> nat \<Rightarrow> int \<times> int \<Rightarrow> int \<times> int" where
  "compare_loop o' s k w d =
     (if k < w then
        if js_byte o' k \<noteq> js_byte s k then (js_byte o' k, js_byte s k) else compare_loop o' s (k + 1) w d
      else d)"
  by pat_completeness auto
termination by (relation "measure (\<lambda>(_, _, k, w, _). w - k)") auto

declare compare_loop.simps [simp del]

definition three_way :: "int \<times> int \<Rightarrow> int" where
  "three_way d = (case d of (i, u) \<Rightarrow> if i < u then - 1 else if u < i then 1 else 0)"

definition Buffer_compare :: "byte list \<Rightarrow> byte list \<Rightarrow> int" where
  "Buffer_compare o' s =
     three_way (compare_loop o' s 0 (min (length o') (length s)) (int (length o'), int (length s)))"

definition Buffer_equals :: "byte list \<Rightarrow> byte list \<Rightarrow> bool" where
  "Buffer_equals this o' \<longleftrightarrow> Buffer_compare this o' = 0"

section \<open>slice\<close>

text \<open>\<open>(o=~~o)<0?(o+=i)<0&&(o=0):o>i&&(o=i)\<close>, for a buffer of \<open>i\<close> bytes.\<close>

definition clamp_index :: "int \<Rightarrow> int \<Rightarrow> int" where
  "clamp_index i o' =
     (let o' = to_int32 o'
      in if o' < 0 then (if o' + i < 0 then 0 else o' + i) else if o' > i then i else o')"

definition Buffer_slice :: "byte list \<Rightarrow> int \<Rightarrow> int option \<Rightarrow> byte list" where
  "Buffer_slice this o' s =
     (let i = int (length this);
          o' = clamp_index i o';
          s = (case s of None \<Rightarrow> i | Some s \<Rightarrow> clamp_index i s);
          s = (if s < o' then o' else s)
      in drop (nat o') (take (nat s) this))"

text \<open>
  \<open>compare\<close> with ranges: \<open>s\<close> to \<open>i\<close> of the target, \<open>u\<close> to \<open>e\<close> of the receiver; \<open>same\<close> if both
  are one object.
\<close>

definition Buffer_prototype_compare ::
  "byte list \<Rightarrow> bool \<Rightarrow> byte list \<Rightarrow> int option \<Rightarrow> int option \<Rightarrow> int option \<Rightarrow> int option \<Rightarrow> js_error + int"
where
  "Buffer_prototype_compare this same o' s i u e =
     (let s = (case s of None \<Rightarrow> 0 | Some s \<Rightarrow> s);
          i = (case i of None \<Rightarrow> int (length o') | Some i \<Rightarrow> i);
          u = (case u of None \<Rightarrow> 0 | Some u \<Rightarrow> u);
          e = (case e of None \<Rightarrow> int (length this) | Some e \<Rightarrow> e)
      in if s < 0 \<or> i > int (length o') \<or> u < 0 \<or> e > int (length this) then Inl RangeError
         else if u \<ge> e \<and> s \<ge> i then Inr 0
         else if u \<ge> e then Inr (- 1)
         else if s \<ge> i then Inr 1
         else if same then Inr 0
         else
           (let e = to_uint32 e; u = to_uint32 u; i = to_uint32 i; s = to_uint32 s;
                w = e - u; x = i - s;
                j = Buffer_slice this u (Some e); l = Buffer_slice o' s (Some i)
            in Inr (three_way (compare_loop j l 0 (nat (min w x)) (w, x)))))"

section \<open>Byte swaps\<close>

definition js_swap :: "byte list \<Rightarrow> nat \<Rightarrow> nat \<Rightarrow> byte list" where
  "js_swap o' s i = (let u = o' ! s in o'[s := o' ! i, i := u])"

function swap_loop :: "nat \<Rightarrow> (byte list \<Rightarrow> nat \<Rightarrow> byte list) \<Rightarrow> byte list \<Rightarrow> nat \<Rightarrow> nat \<Rightarrow> byte list" where
  "swap_loop k f this o' s =
     (if s < o' \<and> 0 < k then swap_loop k f (f this s) o' (s + k) else this)"
  by pat_completeness auto
termination by (relation "measure (\<lambda>(_, _, _, o', s). o' - s)") auto

declare swap_loop.simps [simp del]

definition swap16 :: "byte list \<Rightarrow> js_error + byte list" where
  "swap16 this =
     (if length this mod 2 \<noteq> 0 then Inl RangeError
      else Inr (swap_loop 2 (\<lambda>this s. js_swap this s (s + 1)) this (length this) 0))"

definition swap32 :: "byte list \<Rightarrow> js_error + byte list" where
  "swap32 this =
     (if length this mod 4 \<noteq> 0 then Inl RangeError
      else Inr (swap_loop 4 (\<lambda>this s. js_swap (js_swap this s (s + 3)) (s + 1) (s + 2)) this (length this) 0))"

definition swap64 :: "byte list \<Rightarrow> js_error + byte list" where
  "swap64 this =
     (if length this mod 8 \<noteq> 0 then Inl RangeError
      else Inr (swap_loop 8
        (\<lambda>this s. js_swap (js_swap (js_swap (js_swap this s (s + 7)) (s + 1) (s + 6)) (s + 2) (s + 5)) (s + 3) (s + 4))
        this (length this) 0))"

section \<open>indexOf and lastIndexOf\<close>

text \<open>
  The search for a UTF-16 text (\<open>x\<close> is 2 in the code, here \<open>x\<close> holds) halves the lengths and the
  offset and compares pairs of bytes. The positions are kept in bytes here: where the code has
  the unit \<open>w\<close>, the model has the byte \<open>w*x\<close>.
\<close>

definition unit_size :: "bool \<Rightarrow> nat" where
  "unit_size x = (if x then 2 else 1)"

definition read_unit :: "bool \<Rightarrow> byte list \<Rightarrow> int \<Rightarrow> js_error + int option" where
  "read_unit x o' s = (if x then readUInt16BE o' s False else Inr (js_elem o' s))"

definition same_unit :: "bool \<Rightarrow> byte list \<Rightarrow> int \<Rightarrow> byte list \<Rightarrow> int \<Rightarrow> js_error + bool" where
  "same_unit x o' w s u =
     (case read_unit x o' w of
        Inl e \<Rightarrow> Inl e
      | Inr a \<Rightarrow> (case read_unit x s u of Inl e \<Rightarrow> Inl e | Inr b \<Rightarrow> Inr (a = b)))"

text \<open>Forwards, with the start \<open>u\<close> of the match under way: a mismatch goes back behind it.\<close>

function index_loop :: "bool \<Rightarrow> byte list \<Rightarrow> byte list \<Rightarrow> nat \<Rightarrow> nat option \<Rightarrow> js_error + int" where
  "index_loop x o' s w u =
     (if w < length o' then
        let u' = (case u of None \<Rightarrow> w | Some u \<Rightarrow> u)
        in (case same_unit x o' (int w) s (int w - int u') of
              Inl e \<Rightarrow> Inl e
            | Inr m \<Rightarrow>
                if m then
                  if int w - int u' + int (unit_size x) = int (length s) then Inr (int u')
                  else index_loop x o' s (w + unit_size x) (Some u')
                else index_loop x o' s (u' + unit_size x) None)
      else Inr (- 1))"
  by pat_completeness auto
termination
  by (relation "measures [\<lambda>(_, o', _, w, u). length o' - (case u of None \<Rightarrow> w | Some u \<Rightarrow> u),
      \<lambda>(_, o', _, w, _). length o' - w]")
    (auto simp: unit_size_def split: option.splits)

declare index_loop.simps [simp del]

text \<open>Backwards: the inner loop compares the whole needle; the result is not scaled back.\<close>

function match_at_loop :: "bool \<Rightarrow> byte list \<Rightarrow> int \<Rightarrow> byte list \<Rightarrow> nat \<Rightarrow> js_error + bool" where
  "match_at_loop x o' w s u =
     (if u < length s then
        (case same_unit x o' (w + int u) s (int u) of
           Inl e \<Rightarrow> Inl e
         | Inr m \<Rightarrow> if \<not> m then Inr False else match_at_loop x o' w s (u + unit_size x))
      else Inr True)"
  by pat_completeness auto
termination by (relation "measure (\<lambda>(_, _, _, s, u). length s - u)") (auto simp: unit_size_def)

declare match_at_loop.simps [simp del]

function last_loop :: "bool \<Rightarrow> byte list \<Rightarrow> byte list \<Rightarrow> int \<Rightarrow> js_error + real" where
  "last_loop x o' s w =
     (if w \<ge> 0 then
        (case match_at_loop x o' w s 0 of
           Inl e \<Rightarrow> Inl e
         | Inr m \<Rightarrow> if m then Inr (of_int w / of_nat (unit_size x)) else last_loop x o' s (w - int (unit_size x)))
      else Inr (- 1))"
  by pat_completeness auto
termination by (relation "measure (\<lambda>(_, _, _, w). nat (w + 1))") (auto simp: unit_size_def)

declare last_loop.simps [simp del]

definition arrayIndexOf :: "byte list \<Rightarrow> byte list \<Rightarrow> nat \<Rightarrow> bool \<Rightarrow> bool \<Rightarrow> js_error + real" where
  "arrayIndexOf o' s i x forwards =
     (if x \<and> (length o' < 2 \<or> length s < 2) then Inr (- 1)
      else if forwards then map_sum id of_int (index_loop x o' s i None)
      else last_loop x o' s (if i + length s > length o' then int (length o') - int (length s) else int i))"

text \<open>What is searched: a buffer, or a byte given as a number. A text is converted first.\<close>

datatype needle = Needle_buffer "byte list" | Needle_number int

text \<open>\<open>Uint8Array.prototype.indexOf\<close> and \<open>lastIndexOf\<close>.\<close>

definition typed_indexOf :: "byte list \<Rightarrow> int \<Rightarrow> nat \<Rightarrow> bool \<Rightarrow> real" where
  "typed_indexOf o' s i forwards =
     (let hits = filter (\<lambda>k. uint (o' ! k) = s) (if forwards then [i..<length o'] else rev [0..<min (i + 1) (length o')])
      in if hits = [] then - 1 else of_nat (hd hits))"

definition bidirectionalIndexOf ::
  "byte list \<Rightarrow> needle \<Rightarrow> int option \<Rightarrow> bool \<Rightarrow> bool \<Rightarrow> js_error + real"
where
  "bidirectionalIndexOf o' s i x forwards =
     (if length o' = 0 then Inr (- 1)
      else
        (let i = map_option (\<lambda>i. if i > 2147483647 then 2147483647 else if i < - 2147483648 then - 2147483648 else i) i;
             i = (case i of None \<Rightarrow> if forwards then 0 else int (length o') - 1 | Some i \<Rightarrow> i);
             i = (if i < 0 then int (length o') + i else i)
         in if i \<ge> int (length o') \<and> forwards then Inr (- 1)
            else if i < 0 \<and> \<not> forwards then Inr (- 1)
            else
              (let i = (if i \<ge> int (length o') then int (length o') - 1 else if i < 0 then 0 else i)
               in (case s of
                     Needle_buffer s \<Rightarrow> if length s = 0 then Inr (- 1) else arrayIndexOf o' s (nat i) x forwards
                   | Needle_number s \<Rightarrow> Inr (typed_indexOf o' (js_and s 255) (nat i) forwards)))))"

definition Buffer_indexOf :: "byte list \<Rightarrow> needle \<Rightarrow> int option \<Rightarrow> bool \<Rightarrow> js_error + real" where
  "Buffer_indexOf this o' s x = bidirectionalIndexOf this o' s x True"

definition Buffer_lastIndexOf :: "byte list \<Rightarrow> needle \<Rightarrow> int option \<Rightarrow> bool \<Rightarrow> js_error + real" where
  "Buffer_lastIndexOf this o' s x = bidirectionalIndexOf this o' s x False"

definition Buffer_includes :: "byte list \<Rightarrow> needle \<Rightarrow> int option \<Rightarrow> bool \<Rightarrow> js_error + bool" where
  "Buffer_includes this o' s x = map_sum id (\<lambda>r. r \<noteq> - 1) (Buffer_indexOf this o' s x)"

section \<open>copy, fill and concat\<close>

text \<open>
  \<open>copy\<close> to \<open>o'\<close> from \<open>s\<close> on, of the bytes \<open>i\<close> to \<open>u\<close> of the receiver: the changed target and the
  count. Both ways of moving the bytes, \<open>set\<close> and \<open>copyWithin\<close>, read all of them first.
\<close>

definition Buffer_copy ::
  "byte list \<Rightarrow> byte list \<Rightarrow> int option \<Rightarrow> int option \<Rightarrow> int option \<Rightarrow> js_error + (byte list \<times> int)"
where
  "Buffer_copy this o' s i u =
     (let i = js_num i;
          u = (case u of None \<Rightarrow> int (length this) | Some u \<Rightarrow> u);
          s = js_num s;
          s = (if s \<ge> int (length o') then int (length o') else s);
          u = (if u > 0 \<and> u < i then i else u)
      in if u = i then Inr (o', 0)
         else if length o' = 0 \<or> length this = 0 then Inr (o', 0)
         else if s < 0 then Inl RangeError
         else if i < 0 \<or> i \<ge> int (length this) then Inl RangeError
         else if u < 0 then Inl RangeError
         else
           (let u = (if u > int (length this) then int (length this) else u);
                u = (if int (length o') - s < u - i then int (length o') - s + i else u)
            in Inr (patch o' (nat s) (drop (nat i) (take (nat u) this)), u - i)))"

text \<open>The value of \<open>fill\<close>: a number, or the bytes of a buffer or of a text of other than one byte.\<close>

datatype fill_value = Fill_number int | Fill_bytes "byte list"

function fill_loop :: "(nat \<Rightarrow> int) \<Rightarrow> byte list \<Rightarrow> nat \<Rightarrow> nat \<Rightarrow> byte list" where
  "fill_loop v this k i =
     (if k < i then fill_loop v (js_put this k (v k)) (k + 1) i else this)"
  by pat_completeness auto
termination by (relation "measure (\<lambda>(_, _, k, i). i - k)") auto

declare fill_loop.simps [simp del]

definition Buffer_fill :: "byte list \<Rightarrow> fill_value \<Rightarrow> int option \<Rightarrow> int option \<Rightarrow> js_error + byte list" where
  "Buffer_fill this o' s i =
     (let len = int (length this);
          below = (\<lambda>x y. case x of None \<Rightarrow> False | Some a \<Rightarrow> a < (y :: int));
          above = (\<lambda>x y. case x of None \<Rightarrow> False | Some a \<Rightarrow> a > (y :: int))
      in if below s 0 \<or> above s len \<or> above i len then Inl RangeError
         else if (case (i, s) of (Some i, Some s) \<Rightarrow> i \<le> s | _ \<Rightarrow> False) then Inr this
         else
           (let s = nat (to_uint32 (js_num s));
                i = (case i of None \<Rightarrow> length this | Some i \<Rightarrow> nat (to_uint32 i))
            in (case o' of
                  Fill_number v \<Rightarrow> Inr (fill_loop (\<lambda>_. js_and v 255) this s i)
                | Fill_bytes w \<Rightarrow>
                    if length w = 0 then Inl TypeError
                    else Inr (fill_loop (\<lambda>k. uint (w ! ((k - s) mod length w))) this s i))))"

definition kMaxLength :: int where
  "kMaxLength = 2147483647"

definition createBuffer :: "int \<Rightarrow> js_error + byte list" where
  "createBuffer o' = (if o' > kMaxLength then Inl RangeError else new_Uint8Array o')"

text \<open>\<open>assertSize\<close> and \<open>checked\<close>; the memory is zeroed in any case.\<close>

definition allocUnsafe :: "int \<Rightarrow> js_error + byte list" where
  "allocUnsafe o' =
     (if o' < 0 then Inl RangeError
      else if o' \<ge> kMaxLength then Inl RangeError
      else createBuffer o')"

definition Buffer_alloc :: "int \<Rightarrow> fill_value option \<Rightarrow> js_error + byte list" where
  "Buffer_alloc o' s =
     (if o' < 0 then Inl RangeError
      else if o' \<le> 0 then createBuffer o'
      else (case s of
              None \<Rightarrow> createBuffer o'
            | Some v \<Rightarrow> (case createBuffer o' of Inl e \<Rightarrow> Inl e | Inr b \<Rightarrow> Buffer_fill b v None None)))"

fun concat_loop :: "byte list list \<Rightarrow> byte list \<Rightarrow> nat \<Rightarrow> js_error + byte list" where
  "concat_loop [] u k = Inr u"
| "concat_loop (s # r) u k =
     (if k + length s > length u then
        (case Buffer_copy s u (Some (int k)) None None of
           Inl e \<Rightarrow> Inl e
         | Inr (u, _) \<Rightarrow> concat_loop r u (k + length s))
      else concat_loop r (patch u k s) (k + length s))"

definition Buffer_concat :: "byte list list \<Rightarrow> int option \<Rightarrow> js_error + byte list" where
  "Buffer_concat o' s =
     (if length o' = 0 then Buffer_alloc 0 None
      else
        (case allocUnsafe (case s of None \<Rightarrow> int (sum_list (map length o')) | Some s \<Rightarrow> s) of
           Inl e \<Rightarrow> Inl e
         | Inr u \<Rightarrow> concat_loop o' u 0))"

section \<open>Comparison is lexicographic\<close>

lemma js_byte_uint: "k < length b \<Longrightarrow> js_byte b k = uint (b ! k)"
  by (simp add: js_byte_def js_num_def js_at_def)

fun compare_bytes :: "byte list \<Rightarrow> byte list \<Rightarrow> int" where
  "compare_bytes [] [] = 0"
| "compare_bytes [] (y # ys) = - 1"
| "compare_bytes (x # xs) [] = 1"
| "compare_bytes (x # xs) (y # ys) = (if x < y then - 1 else if y < x then 1 else compare_bytes xs ys)"

lemma compare_bytes_lexord: "compare_bytes xs ys = (if xs = ys then 0 else if ord_class.lexordp xs ys then - 1 else 1)"
  by (induction xs ys rule: compare_bytes.induct) auto

lemma three_way_lengths: "xs = [] \<or> ys = [] \<Longrightarrow> three_way (int k + int (length xs), int k + int (length ys)) = compare_bytes xs ys"
  by (cases xs; cases ys) (auto simp: three_way_def)

lemma compare_loop_drop:
  "k \<le> min (length o') (length s) \<Longrightarrow>
     three_way (compare_loop o' s k (min (length o') (length s)) (int (length o'), int (length s)))
       = compare_bytes (drop k o') (drop k s)"
proof (induction "min (length o') (length s) - k" arbitrary: k)
  case 0
  then have "k = length o' \<or> k = length s" "k \<le> length o'" "k \<le> length s" by auto
  then show ?case
    using three_way_lengths [of "drop k o'" "drop k s" k] by (subst compare_loop.simps) auto
next
  case (Suc d)
  then have k: "k < length o'" "k < length s" by auto
  show ?case
  proof (cases "o' ! k = s ! k")
    case True
    have "d = min (length o') (length s) - (k + 1)" using Suc.hyps(2) by simp
    from Suc.hyps(1) [OF this] k True show ?thesis
      by (subst compare_loop.simps) (simp add: js_byte_uint Cons_nth_drop_Suc [symmetric, of k])
  next
    case False
    then show ?thesis using k
      by (subst compare_loop.simps)
        (auto simp: js_byte_uint Cons_nth_drop_Suc [symmetric, of k] three_way_def word_less_def
          word_uint_eq_iff)
  qed
qed

lemma Buffer_compare_bytes: "Buffer_compare o' s = compare_bytes o' s"
  using compare_loop_drop [of 0 o' s] by (simp add: Buffer_compare_def)

lemma Buffer_slice_window:
  assumes "s \<le> e" and "e \<le> length b" and "length b < 2 ^ 31"
  shows "Buffer_slice b (int s) (Some (int e)) = window b s (e - s)"
  using assms by (auto simp: Buffer_slice_def clamp_index_def to_int32_id Let_def window_def drop_take)

text \<open>With ranges, \<open>compare\<close> compares the two parts, unless both buffers are one object.\<close>

lemma compare_ranges:
  assumes "s < i" and "i \<le> length b" and "u < e" and "e \<le> length a" and "length a < 2 ^ 31" and "length b < 2 ^ 31"
  shows "Buffer_prototype_compare a same b (Some (int s)) (Some (int i)) (Some (int u)) (Some (int e))
    = Inr (if same then 0 else Buffer_compare (window a u (e - u)) (window b s (i - s)))"
proof -
  have "nat (min (int e - int u) (int i - int s)) = min (e - u) (i - s)"
    using assms(1,3) by (auto simp: min_def)
  with assms show ?thesis
    by (simp add: Buffer_prototype_compare_def Buffer_compare_def Let_def to_uint32_nat Buffer_slice_window
        of_nat_diff)
qed

lemma same_object_compared:
  "Buffer_prototype_compare [1, 2] True [1, 2] (Some 0) (Some 1) (Some 1) (Some 2) = Inr 0"
  "Buffer_prototype_compare [1, 2] False [1, 2] (Some 0) (Some 1) (Some 1) (Some 2) = Inr 1"
  by (simp_all add: Buffer_prototype_compare_def Buffer_slice_def clamp_index_def to_uint32_def to_int32_id
      compare_loop.simps js_byte_def js_num_def js_at_def three_way_def)

section \<open>The swaps\<close>

definition mirror :: "nat \<Rightarrow> nat \<Rightarrow> nat" where
  "mirror k j = k * (j div k) + (k - 1 - j mod k)"

lemma mirror_less: "0 < k \<Longrightarrow> k dvd n \<Longrightarrow> j < n \<Longrightarrow> mirror k j < n"
proof -
  assume "0 < k" "k dvd n" "j < n"
  then obtain m where n: "n = k * m" by auto
  with \<open>j < n\<close> have "j div k < m" by (simp add: less_mult_imp_div_less mult.commute)
  then have "k * (j div k) + k \<le> k * m" by (metis Suc_leI mult_Suc_right mult_le_mono2 add.commute)
  moreover have "k - 1 - j mod k < k" using \<open>0 < k\<close> by simp
  ultimately show ?thesis unfolding mirror_def n by linarith
qed

lemma mirror_div_mod:
  assumes "0 < k"
  shows "mirror k j div k = j div k" and "mirror k j mod k = k - 1 - j mod k"
proof -
  have "k - 1 - j mod k < k" using assms by simp
  then show "mirror k j div k = j div k" "mirror k j mod k = k - 1 - j mod k"
    by (simp_all add: mirror_def)
qed

lemma mirror_mirror: "0 < k \<Longrightarrow> mirror k (mirror k j) = j"
proof -
  assume k: "0 < k"
  then have "j mod k < k" by simp
  then have "k - 1 - (k - 1 - j mod k) = j mod k" by simp
  then show ?thesis by (simp add: mirror_def [of k "mirror k j"] mirror_div_mod [OF k])
qed

lemma mirror_window: "0 < k \<Longrightarrow> j < k \<Longrightarrow> mirror k (k * m + j) = k * m + (k - 1 - j)"
  by (simp add: mirror_def)

lemma nth_window: "j < n \<Longrightarrow> s + n \<le> length b \<Longrightarrow> window b s n ! j = b ! (s + j)"
  by (simp add: window_def)

lemma swap_loop_nth:
  assumes f: "\<And>b s. s + k \<le> length b \<Longrightarrow> f b s = patch b s (rev (window b s k))" and k: "0 < k"
  shows "k dvd length b \<Longrightarrow> length (swap_loop k f b (length b) (k * m)) = length b
    \<and> (\<forall>j < length b. swap_loop k f b (length b) (k * m) ! j = (if j < k * m then b ! j else b ! mirror k j))"
proof (induction "length b - k * m" arbitrary: b m rule: less_induct)
  case less
  show ?case
  proof (cases "k * m < length b")
    case False
    then show ?thesis by (subst swap_loop.simps) (simp add: swap_loop.simps)
  next
    case True
    from less.prems obtain q where q: "length b = k * q" by auto
    with True have "Suc m \<le> q" by simp
    then have "k * Suc m \<le> k * q" by (rule mult_le_mono2)
    then have le: "k * m + k \<le> length b" by (simp add: q add.commute)
    let ?b = "f b (k * m)"
    have b: "?b = patch b (k * m) (rev (window b (k * m) k))" by (rule f [OF le])
    then have len: "length ?b = length b" using le by simp
    have step: "swap_loop k f b (length b) (k * m) = swap_loop k f ?b (length ?b) (k * Suc m)"
      using True k len by (subst swap_loop.simps) (simp add: add.commute)
    have IH: "length (swap_loop k f ?b (length ?b) (k * Suc m)) = length ?b
        \<and> (\<forall>j < length ?b. swap_loop k f ?b (length ?b) (k * Suc m) ! j
             = (if j < k * Suc m then ?b ! j else ?b ! mirror k j))"
      by (rule less.hyps) (use True k less.prems len in simp_all)
    have "(if j < k * Suc m then ?b ! j else ?b ! mirror k j) = (if j < k * m then b ! j else b ! mirror k j)"
      if j: "j < length b" for j
    proof -
      have nth: "?b ! i = (if k * m \<le> i \<and> i < k * m + k then rev (window b (k * m) k) ! (i - k * m) else b ! i)"
        if "i < length b" for i
        unfolding b using that le nth_patch [of "k * m" "rev (window b (k * m) k)" b i] by simp
      consider "j < k * m" | i where "j = k * m + i" "i < k" | "k * m + k \<le> j"
        by (metis le_add_diff_inverse linorder_not_le nat_add_left_cancel_less)
      then show ?thesis
      proof cases
        case 2
        then show ?thesis using nth [OF j] le k by (simp add: rev_nth nth_window mirror_window)
      next
        case 3
        have "m < j div k" using 3 k by (metis Suc_le_lessD div_le_mono mult_Suc_right
              nonzero_mult_div_cancel_left less_nat_zero_code add.commute neq0_conv)
        then have "k * Suc m \<le> k * (j div k)" by (intro mult_le_mono2) simp
        then have "k * m + k \<le> mirror k j" by (simp add: mirror_def)
        moreover have "mirror k j < length b" by (rule mirror_less [OF k less.prems j])
        ultimately show ?thesis using 3 nth [of "mirror k j"] by simp
      qed (use nth [OF j] k in simp)
    qed
    with IH step len show ?thesis by simp
  qed
qed

lemma window_swapped:
  assumes "\<And>b s. s + k \<le> length b \<Longrightarrow> f b s = patch b s (rev (window b s k))" and "0 < k"
    and "k dvd length b" and "b' = swap_loop k f b (length b) 0"
  shows "length b' = length b" and "swap_loop k f b' (length b') 0 = b"
    and "k * m + k \<le> length b \<Longrightarrow> window b' (k * m) k = rev (window b (k * m) k)"
proof -
  note once = swap_loop_nth [of k f b 0, OF assms(1-3)]
  then show len: "length b' = length b" by (simp add: assms(4))
  have nth: "b' ! j = b ! mirror k j" if "j < length b" for j using once that by (simp add: assms(4))
  have "k dvd length b'" using assms(3) len by simp
  note twice = swap_loop_nth [of k f b' 0, OF assms(1,2) this]
  show "swap_loop k f b' (length b') 0 = b"
    using twice len assms(2,3) by (intro nth_equalityI) (simp_all add: nth mirror_less mirror_mirror)
  assume le: "k * m + k \<le> length b"
  show "window b' (k * m) k = rev (window b (k * m) k)"
  proof (rule nth_equalityI)
    fix i assume "i < length (window b' (k * m) k)"
    then have "i < k" using le len by simp
    then show "window b' (k * m) k ! i = rev (window b (k * m) k) ! i"
      using le len assms(2) by (simp add: nth_window rev_nth nth mirror_window)
  qed (use le len in simp)
qed

lemma js_swaps:
  "s + 2 \<le> length b \<Longrightarrow> js_swap b s (s + 1) = patch b s (rev (window b s 2))"
  "s + 4 \<le> length b \<Longrightarrow> js_swap (js_swap b s (s + 3)) (s + 1) (s + 2) = patch b s (rev (window b s 4))"
  "s + 8 \<le> length b \<Longrightarrow>
     js_swap (js_swap (js_swap (js_swap b s (s + 7)) (s + 1) (s + 6)) (s + 2) (s + 5)) (s + 3) (s + 4)
       = patch b s (rev (window b s 8))"
proof -
  have upto: "\<And>i. i < 2 \<longleftrightarrow> i = 0 \<or> i = (1 :: nat)" "\<And>i. i < 4 \<longleftrightarrow> i = 0 \<or> i = 1 \<or> i = 2 \<or> i = (3 :: nat)"
    "\<And>i. i < 8 \<longleftrightarrow> i = 0 \<or> i = 1 \<or> i = 2 \<or> i = 3 \<or> i = 4 \<or> i = 5 \<or> i = 6 \<or> i = (7 :: nat)" by auto
  have ext: "c = patch b s (rev (window b s k))"
    if "length c = length b" "s + k \<le> length b"
      and "\<And>i. i < k \<Longrightarrow> c ! (s + i) = b ! (s + (k - 1 - i))"
      and "\<And>j. j < length b \<Longrightarrow> \<not> (s \<le> j \<and> j < s + k) \<Longrightarrow> c ! j = b ! j" for c k
  proof (rule nth_equalityI)
    fix j assume "j < length c"
    then have "j < length b" using that(1) by simp
    then show "c ! j = patch b s (rev (window b s k)) ! j"
      using that(2) that(3) [of "j - s"] that(4) [of j] by (auto simp: nth_patch rev_nth nth_window ac_simps)
  qed (use that in simp)
  show "js_swap b s (s + 1) = patch b s (rev (window b s 2))" if "s + 2 \<le> length b"
    using that by (intro ext) (auto simp: js_swap_def upto)
  show "js_swap (js_swap b s (s + 3)) (s + 1) (s + 2) = patch b s (rev (window b s 4))" if "s + 4 \<le> length b"
    using that by (intro ext) (auto simp: js_swap_def upto)
  show "js_swap (js_swap (js_swap (js_swap b s (s + 7)) (s + 1) (s + 6)) (s + 2) (s + 5)) (s + 3) (s + 4)
       = patch b s (rev (window b s 8))" if "s + 8 \<le> length b"
    using that by (intro ext) (auto simp: js_swap_def upto)
qed

section \<open>The searches\<close>

definition occurs :: "byte list \<Rightarrow> byte list \<Rightarrow> nat \<Rightarrow> bool" where
  "occurs o' s p \<longleftrightarrow> p + length s \<le> length o' \<and> (\<forall>i < length s. o' ! (p + i) = s ! i)"

text \<open>The first occurrence from \<open>p\<close> on, and the last one up to \<open>p\<close>; -1 if there is none.\<close>

definition first_at :: "byte list \<Rightarrow> byte list \<Rightarrow> nat \<Rightarrow> real \<Rightarrow> bool" where
  "first_at o' s p r \<longleftrightarrow> r = - 1 \<and> (\<forall>q \<ge> p. \<not> occurs o' s q)
     \<or> (\<exists>q \<ge> p. r = of_nat q \<and> occurs o' s q \<and> (\<forall>t. p \<le> t \<and> t < q \<longrightarrow> \<not> occurs o' s t))"

definition last_at :: "byte list \<Rightarrow> byte list \<Rightarrow> nat \<Rightarrow> real \<Rightarrow> bool" where
  "last_at o' s p r \<longleftrightarrow> r = - 1 \<and> (\<forall>q \<le> p. \<not> occurs o' s q)
     \<or> (\<exists>q \<le> p. r = of_nat q \<and> occurs o' s q \<and> (\<forall>t. q < t \<and> t \<le> p \<longrightarrow> \<not> occurs o' s t))"

lemma first_at_here: "occurs o' s p \<Longrightarrow> first_at o' s p (of_nat p)"
  by (auto simp: first_at_def)

lemma first_at_skip: "\<not> occurs o' s p \<Longrightarrow> first_at o' s (Suc p) r \<Longrightarrow> first_at o' s p r"
  unfolding first_at_def by (metis Suc_leD Suc_leI le_neq_implies_less)

lemma same_unit_bytes:
  "w < length o' \<Longrightarrow> i < length s \<Longrightarrow> same_unit False o' (int w) s (int i) = Inr (o' ! w = s ! i)"
  by (simp add: same_unit_def read_unit_def js_elem_in word_uint_eq_iff)

lemma index_loop_first:
  assumes "p = (case u of None \<Rightarrow> w | Some u \<Rightarrow> u)" and "p \<le> w" and "w - p < length s"
    and "\<And>i. i < w - p \<Longrightarrow> o' ! (p + i) = s ! i"
  shows "\<exists>r. index_loop False o' s w u = Inr r \<and> first_at o' s p (of_int r)"
  using assms
proof (induction "(length o' - p, length o' - w)" arbitrary: p w u rule: wf_induct_rule [OF wf_lex_prod [OF wf_less wf_less]])
  case 1
  note IH = 1(1)
  show ?case
  proof (cases "w < length o'")
    case False
    then have "\<not> occurs o' s q" if "p \<le> q" for q using 1(3,4) that by (auto simp: occurs_def)
    then show ?thesis using False by (subst index_loop.simps) (simp add: first_at_def)
  next
    case True
    have unit: "same_unit False o' (int w) s (int w - int p) = Inr (o' ! w = s ! (w - p))"
      using same_unit_bytes [OF True 1(4)] 1(3) by (simp add: of_nat_diff)
    show ?thesis
    proof (cases "o' ! w = s ! (w - p)")
      case eq: True
      show ?thesis
      proof (cases "w - p + 1 = length s")
        case True
        have "occurs o' s p"
          unfolding occurs_def
        proof (intro conjI allI impI)
          show "p + length s \<le> length o'" using True \<open>w < length o'\<close> 1(3) by simp
          fix i assume "i < length s"
          then consider "i < w - p" | "i = w - p" using True by linarith
          then show "o' ! (p + i) = s ! i" using 1(3,5) eq by cases simp_all
        qed
        moreover have "int w - int p + int (unit_size False) = int (length s)"
          using True 1(3) by (simp add: unit_size_def)
        ultimately show ?thesis using \<open>w < length o'\<close> unit eq 1(2)
          by (subst index_loop.simps) (auto simp: Let_def first_at_here)
      next
        case False
        have "\<exists>r. index_loop False o' s (w + 1) (Some p) = Inr r \<and> first_at o' s p (of_int r)"
        proof (rule IH)
          fix i assume "i < w + 1 - p"
          then consider "i < w - p" | "i = w - p" using 1(3) by linarith
          then show "o' ! (p + i) = s ! i" using 1(3,5) eq by cases simp_all
        qed (use \<open>w < length o'\<close> 1(3,4) False in auto)
        moreover have "int w - int p + int (unit_size False) \<noteq> int (length s)"
          using False 1(3) by (simp add: unit_size_def)
        ultimately show ?thesis using \<open>w < length o'\<close> unit eq 1(2)
          by (subst index_loop.simps) (simp add: Let_def unit_size_def)
      qed
    next
      case neq: False
      have "\<not> occurs o' s p" using neq 1(3,4) by (auto simp: occurs_def)
      moreover have "\<exists>r. index_loop False o' s (p + 1) None = Inr r \<and> first_at o' s (p + 1) (of_int r)"
        by (rule IH) (use True 1(3,4) in auto)
      ultimately show ?thesis using True unit neq 1(2)
        by (subst index_loop.simps) (auto simp: Let_def unit_size_def intro: first_at_skip)
    qed
  qed
qed

lemma match_at_loop_bytes:
  assumes "p + length s \<le> length o'"
  shows "match_at_loop False o' (int p) s k = Inr (\<forall>i. k \<le> i \<and> i < length s \<longrightarrow> o' ! (p + i) = s ! i)"
proof (induction "length s - k" arbitrary: k)
  case 0
  then show ?case by (subst match_at_loop.simps) auto
next
  case (Suc d)
  then have k: "k < length s" by simp
  have "same_unit False o' (int p + int k) s (int k) = Inr (o' ! (p + k) = s ! k)"
    using same_unit_bytes [of "p + k" o' k s] k assms by simp
  moreover have "d = length s - (k + 1)" using Suc.hyps(2) by simp
  moreover have "(\<forall>i. k \<le> i \<and> i < length s \<longrightarrow> o' ! (p + i) = s ! i) \<longleftrightarrow>
      o' ! (p + k) = s ! k \<and> (\<forall>i. k + 1 \<le> i \<and> i < length s \<longrightarrow> o' ! (p + i) = s ! i)"
    using k by (metis Suc_eq_plus1 Suc_leI le_neq_implies_less order_refl Suc_leD)
  ultimately show ?case using k Suc.hyps(1) [of "k + 1"]
    by (subst match_at_loop.simps) (simp add: unit_size_def)
qed

lemma last_loop_last:
  "p + length s \<le> length o' \<Longrightarrow> \<exists>r. last_loop False o' s (int p) = Inr r \<and> last_at o' s p r"
proof (induction p)
  case 0
  then show ?case using match_at_loop_bytes [of 0 s o' 0]
    by (subst last_loop.simps, subst last_loop.simps) (auto simp: unit_size_def last_at_def occurs_def)
next
  case (Suc p)
  have match: "match_at_loop False o' (int (Suc p)) s 0 = Inr (occurs o' s (Suc p))"
    using match_at_loop_bytes [of "Suc p" s o' 0] Suc.prems by (simp add: occurs_def)
  show ?case
  proof (cases "occurs o' s (Suc p)")
    case True
    then show ?thesis using match
      by (subst last_loop.simps) (auto simp: unit_size_def last_at_def)
  next
    case False
    obtain r where "last_loop False o' s (int p) = Inr r" "last_at o' s p r"
      using Suc by auto
    moreover have "last_at o' s (Suc p) r" if "last_at o' s p r"
      using that False unfolding last_at_def by (metis le_Suc_eq)
    ultimately show ?thesis using match False
      by (subst last_loop.simps) (auto simp: unit_size_def)
  qed
qed

text \<open>
  A search backwards for a UTF-16 text returns the index of the unit, not of the byte: for the
  one occurrence at byte 2 the two directions differ.
\<close>

lemma last_index_halved:
  "Buffer_indexOf [97, 0, 98, 0] (Needle_buffer [98, 0]) None True = Inr 2"
  "Buffer_lastIndexOf [97, 0, 98, 0] (Needle_buffer [98, 0]) None True = Inr 1"
  by (simp_all add: Buffer_indexOf_def Buffer_lastIndexOf_def bidirectionalIndexOf_def arrayIndexOf_def
      index_loop.simps last_loop.simps match_at_loop.simps same_unit_def read_unit_def unit_size_def
      readUInt16BE_eq read_result_def offset_def to_uint32_def window_def)

text \<open>No occurrence begins in the last bytes, so a search may start before them.\<close>

lemma last_at_restrict:
  assumes "last_at o' s p r" and "p + length s = length o'" and "p \<le> k"
  shows "last_at o' s k r"
proof -
  have "\<not> occurs o' s q" if "p < q" for q using that assms(2) by (simp add: occurs_def)
  with assms show ?thesis unfolding last_at_def
    by (metis le_trans linorder_not_le)
qed

lemma search_loops:
  assumes "s \<noteq> []" and "k < length b" and "length b \<le> 2147483647"
  shows "Buffer_indexOf b (Needle_buffer s) (Some (int k)) False = map_sum id of_int (index_loop False b s k None)"
    and "Buffer_lastIndexOf b (Needle_buffer s) (Some (int k)) False
      = last_loop False b s (if k + length s > length b then int (length b) - int (length s) else int k)"
  using assms
  by (auto simp: Buffer_indexOf_def Buffer_lastIndexOf_def bidirectionalIndexOf_def arrayIndexOf_def Let_def)

section \<open>copy, fill and concat\<close>

lemma Buffer_copy_part:
  assumes "i \<le> u" and "u \<le> length this"
  shows "Buffer_copy this o' (Some (int s)) (Some (int i)) (Some (int u))
    = Inr (patch o' s (take (length o' - s) (window this i (u - i))), int (min (u - i) (length o' - s)))"
proof -
  have none: "patch o' s [] = o'" for s by simp
  consider "i = u" | "i < u" "length o' \<le> s" | "i < u" "s < length o'" using assms by linarith
  then show ?thesis
  proof cases
    case 1
    then show ?thesis by (simp add: Buffer_copy_def js_num_def window_def)
  next
    case 2
    then show ?thesis using assms
      by (auto simp: Buffer_copy_def js_num_def window_def drop_take Let_def)
  next
    case 3
    then show ?thesis using assms
      by (auto simp: Buffer_copy_def js_num_def window_def drop_take min_def nat_diff_distrib' nat_add_distrib Let_def)
  qed
qed

lemma fill_loop_nth:
  "i \<le> length b \<Longrightarrow> length (fill_loop v b k i) = length b \<and>
     (\<forall>j < length b. fill_loop v b k i ! j = (if k \<le> j \<and> j < i then word_of_int (v j) else b ! j))"
proof (induction "i - k" arbitrary: b k)
  case 0
  then show ?case by (subst fill_loop.simps, subst (2) fill_loop.simps) auto
next
  case (Suc d)
  then have k: "k < i" "d = i - (k + 1)" by simp_all
  have "fill_loop v b k i = fill_loop v (js_put b k (v k)) (k + 1) i"
    using k by (subst fill_loop.simps) simp
  moreover note Suc.hyps(1) [OF k(2), of "js_put b k (v k)"]
  ultimately show ?case using Suc.prems k(1)
    by (auto simp: js_put_def nth_list_update not_less_eq_eq dest: le_antisym)
qed

lemma concat_loop_take:
  "concat_loop r (take n (d @ replicate n 0)) (length d) = Inr (take n (d @ concat r @ replicate n 0))"
proof (induction r arbitrary: d)
  case (Cons s r)
  let ?u = "take n (d @ replicate n 0)"
  have len: "length ?u = n" by simp
  have zeros: "drop m (take n (d @ replicate n (0 :: byte))) = replicate (n - m) 0" if "length d \<le> m" for m
    using that by (simp add: drop_take min_def)
  show ?case
  proof (cases "length d + length s > n")
    case False
    then have "patch ?u (length d) s = take n (d @ s @ replicate n 0)"
      using zeros [of "length d + length s"] by (simp add: patch_def min_def)
    then show ?thesis using False Cons.IH [of "d @ s"] by simp
  next
    case True
    have "Buffer_copy s ?u (Some (int (length d))) None None
        = Buffer_copy s ?u (Some (int (length d))) (Some (int 0)) (Some (int (length s)))"
      by (simp add: Buffer_copy_def js_num_def)
    also have "\<dots> = Inr (patch ?u (length d) (take (n - length d) s), int (min (length s) (n - length d)))"
      using Buffer_copy_part [of 0 "length s" s ?u "length d"]
      by (simp only: len window_def drop_0 diff_zero take_all order_refl le0)
    finally have "\<exists>c. Buffer_copy s ?u (Some (int (length d))) None None
        = Inr (patch ?u (length d) (take (n - length d) s), c)" by blast
    moreover have "patch ?u (length d) (take (n - length d) s) = take n (d @ s @ replicate n 0)"
      using True zeros [of "length d + length (take (n - length d) s)"]
      by (cases "length d \<le> n") (simp_all add: patch_def min_def)
    ultimately show ?thesis using True Cons.IH [of "d @ s"] by auto
  qed
qed simp

lemma Buffer_concat_exact:
  "Buffer_concat xs s =
     (let n = (case s of None \<Rightarrow> int (length (concat xs)) | Some n \<Rightarrow> n)
      in if xs = [] then Inr []
         else if n < 0 \<or> kMaxLength \<le> n then Inl RangeError
         else Inr (take (nat n) (concat xs @ replicate (nat n) 0)))"
proof -
  have "concat_loop xs (replicate n 0) 0 = Inr (take n (concat xs @ replicate n 0))" for n
    using concat_loop_take [of xs n "[]"] by simp
  then show ?thesis
    by (auto simp: Buffer_concat_def Buffer_alloc_def createBuffer_def allocUnsafe_def new_Uint8Array_def
        kMaxLength_def length_concat Let_def split: option.splits)
qed

section \<open>Properties\<close>

text \<open>
  \<open>compare\<close> orders buffers lexicographically, bytes as unsigned numbers and a prefix first;
  \<open>equals\<close> holds exactly of equal contents.
\<close>

lemma compare_lexicographic:
  "Buffer_compare o' s = (if o' = s then 0 else if ord_class.lexordp o' s then - 1 else 1)
   \<and> (Buffer_equals o' s \<longleftrightarrow> o' = s)"
  by (simp add: Buffer_equals_def Buffer_compare_bytes compare_bytes_lexord)

text \<open>
  C39. A search for a non-empty byte sequence never throws. \<open>indexOf\<close> returns the first position
  from its offset on where the sequence stands, \<open>lastIndexOf\<close> the last one up to its offset, and
  each -1 exactly if there is none, although the forward search keeps a partial match in one
  variable and starts again behind it.
\<close>

theorem index_of_exact:
  assumes "s \<noteq> []" and "k < length b" and "length b \<le> 2147483647"
  shows "(\<exists>r. Buffer_indexOf b (Needle_buffer s) (Some (int k)) False = Inr r \<and> first_at b s k r)
    \<and> (\<exists>r. Buffer_lastIndexOf b (Needle_buffer s) (Some (int k)) False = Inr r \<and> last_at b s k r)"
proof
  obtain r where "index_loop False b s k None = Inr r" "first_at b s k (of_int r)"
    using index_loop_first [where p = k and w = k and u = None and s = s and o' = b] assms(1) by auto
  then show "\<exists>r. Buffer_indexOf b (Needle_buffer s) (Some (int k)) False = Inr r \<and> first_at b s k r"
    by (simp add: search_loops [OF assms])
  have "\<exists>r. last_loop False b s (if k + length s > length b then int (length b) - int (length s) else int k) = Inr r
    \<and> last_at b s k r"
  proof (cases "k + length s > length b")
    case False
    then show ?thesis using last_loop_last [of k s b] by simp
  next
    case True
    show ?thesis
    proof (cases "length s \<le> length b")
      case le: True
      then obtain r where r: "last_loop False b s (int (length b - length s)) = Inr r"
          "last_at b s (length b - length s) r"
        using last_loop_last [of "length b - length s" s b] by auto
      then have "last_at b s k r"
        using last_at_restrict [OF r(2)] True le by simp
      with r True le show ?thesis by (simp add: of_nat_diff)
    next
      case False
      then have "last_loop False b s (int (length b) - int (length s)) = Inr (- 1)"
        by (subst last_loop.simps) simp
      with True False show ?thesis by (simp add: last_at_def occurs_def)
    qed
  qed
  then show "\<exists>r. Buffer_lastIndexOf b (Needle_buffer s) (Some (int k)) False = Inr r \<and> last_at b s k r"
    by (simp only: search_loops [OF assms])
qed

theorem index_of_exact_witness:
  "(\<exists>r. Buffer_indexOf [1, 1, 2, 1, 1, 2] (Needle_buffer [1, 2]) (Some 2) False = Inr r
      \<and> first_at [1, 1, 2, 1, 1, 2] [1, 2] 2 r)
   \<and> (\<exists>r. Buffer_lastIndexOf [1, 1, 2, 1, 1, 2] (Needle_buffer [1, 2]) (Some 2) False = Inr r
      \<and> last_at [1, 1, 2, 1, 1, 2] [1, 2] 2 r)"
  using index_of_exact [of "[1, 2]" 2 "[1, 1, 2, 1, 1, 2]"] by simp

text \<open>
  The swaps exchange the byte orders: a swap undoes itself, and a big-endian read of the swapped
  buffer is the little-endian read of the original one.
\<close>

lemma swaps_exchange_byte_order:
  "swap16 b = Inr b' \<Longrightarrow> swap16 b' = Inr b \<and> readUInt16BE b' (2 * int m) False = readUInt16LE b (2 * int m) False"
  if "length b < 2 ^ 31" and "m < 2 ^ 29"
proof -
  assume "swap16 b = Inr b'"
  then have dvd: "2 dvd length b"
    and b': "b' = swap_loop 2 (\<lambda>this s. js_swap this s (s + 1)) b (length b) 0"
    by (auto simp: swap16_def split: if_splits)
  from dvd have even: "length b mod 2 = 0" by simp
  note w = window_swapped [OF js_swaps(1) _ dvd b']
  have "offset (2 * int m) = 2 * m" using offset_nat [of "2 * m"] that by simp
  then show ?thesis using w even
    by (auto simp: swap16_def readUInt16BE_eq readUInt16LE_eq read_result_def)
qed

end
