(* ===== verification/SwaggerText.thy ===== *)
theory SwaggerText
  imports SwaggerBuffer SwaggerBytes
begin

text \<open>
  Texts in and out of a \<open>Buffer\<close> of the bundled Swagger UI (webpack module 48287): the encodings
  by name, \<open>byteLength\<close>, \<open>write\<close>, \<open>toString\<close> and \<open>Buffer.from\<close> of a text, with the functions each
  encoding goes to. The lemmas show which texts and which bytes survive the way there and back.
\<close>

section \<open>Encodings\<close>

datatype encoding = Hex | Utf8 | Ascii | Latin1 | Base64 | Utf16le

definition encoding_names :: "(jstring \<times> encoding) list" where
  "encoding_names =
     [(js ''hex'', Hex), (js ''utf8'', Utf8), (js ''utf-8'', Utf8), (js ''ascii'', Ascii),
      (js ''latin1'', Latin1), (js ''binary'', Latin1), (js ''base64'', Base64), (js ''ucs2'', Utf16le),
      (js ''ucs-2'', Utf16le), (js ''utf16le'', Utf16le), (js ''utf-16le'', Utf16le)]"

text \<open>
  The \<open>switch\<close> on the name and, if that fails, on its lower case. Of the characters beyond
  ASCII only the Kelvin sign has a lower case in ASCII, a letter of no name.
\<close>

definition js_lower :: "jchar \<Rightarrow> jchar" where
  "js_lower c = (if 65 \<le> c \<and> c \<le> 90 then c + 32 else c)"

definition encoding_of :: "jstring \<Rightarrow> encoding option" where
  "encoding_of s = map_of encoding_names (map js_lower s)"

definition isEncoding :: "jstring \<Rightarrow> bool" where
  "isEncoding o' \<longleftrightarrow> encoding_of o' \<noteq> None"

text \<open>A missing or empty name is \<open>utf8\<close>.\<close>

definition name_or_utf8 :: "jstring option \<Rightarrow> jstring" where
  "name_or_utf8 u = (case u of None \<Rightarrow> js ''utf8'' | Some u \<Rightarrow> if u = [] then js ''utf8'' else u)"

definition Buffer_byteLength :: "jstring \<Rightarrow> jstring option \<Rightarrow> js_error + nat" where
  "Buffer_byteLength o' s =
     (if length o' = 0 then Inr 0
      else (case encoding_of (case s of None \<Rightarrow> js ''undefined'' | Some s \<Rightarrow> s) of
              Some Ascii \<Rightarrow> Inr (length o')
            | Some Latin1 \<Rightarrow> Inr (length o')
            | Some Utf8 \<Rightarrow> map_sum id length (utf8ToBytes o' None)
            | Some Utf16le \<Rightarrow> Inr (2 * length o')
            | Some Hex \<Rightarrow> Inr (length o' div 2)
            | Some Base64 \<Rightarrow> map_sum id length (base64ToBytes o')
            | None \<Rightarrow> map_sum id length (utf8ToBytes o' None)))"

section \<open>write\<close>

function blit_loop :: "int list \<Rightarrow> byte list \<Rightarrow> int \<Rightarrow> int \<Rightarrow> nat \<Rightarrow> byte list \<times> nat" where
  "blit_loop o' s i u k =
     (if int k < u \<and> \<not> (int k + i \<ge> int (length s) \<or> k \<ge> length o')
      then blit_loop o' (js_store s (int k + i) (o' ! k)) i u (k + 1)
      else (s, k))"
  by pat_completeness auto
termination by (relation "measure (\<lambda>(o', _, _, _, k). length o' - k)") auto

declare blit_loop.simps [simp del]

definition blitBuffer :: "int list \<Rightarrow> byte list \<Rightarrow> int \<Rightarrow> int \<Rightarrow> byte list \<times> nat" where
  "blitBuffer o' s i u = blit_loop o' s i u 0"

text \<open>\<open>parseInt(s,16)\<close>: white space, a sign and \<open>0x\<close> before the digits; \<open>None\<close> is \<open>NaN\<close>.\<close>

definition hex_value :: "jchar \<Rightarrow> int option" where
  "hex_value c =
     (let n = uint c in
      if 48 \<le> n \<and> n \<le> 57 then Some (n - 48)
      else if 97 \<le> n \<and> n \<le> 102 then Some (n - 87)
      else if 65 \<le> n \<and> n \<le> 70 then Some (n - 55)
      else None)"

definition parseInt_16 :: "jstring \<Rightarrow> int option" where
  "parseInt_16 s =
     (let s = dropWhile js_space s;
          sign = (if s \<noteq> [] \<and> hd s = 45 then - 1 else 1);
          s = (if s \<noteq> [] \<and> (hd s = 45 \<or> hd s = 43) then tl s else s);
          s = (if length s \<ge> 2 \<and> s ! 0 = 48 \<and> (s ! 1 = 120 \<or> s ! 1 = 88) then drop 2 s else s);
          ds = takeWhile (\<lambda>c. hex_value c \<noteq> None) s
      in if ds = [] then None else Some (sign * foldl (\<lambda>a c. 16 * a + js_num (hex_value c)) 0 ds))"

text \<open>\<open>for(u>w/2&&(u=w/2),x=0;x<u;++x)\<close>: with an odd length the last digit stands alone.\<close>

function hex_loop :: "byte list \<Rightarrow> jstring \<Rightarrow> int \<Rightarrow> int \<Rightarrow> nat \<Rightarrow> byte list \<times> nat" where
  "hex_loop o' s i u x =
     (if int x < u \<and> 2 * x < length s then
        (case parseInt_16 (take 2 (drop (2 * x) s)) of
           None \<Rightarrow> (o', x)
         | Some v \<Rightarrow> hex_loop (js_store o' (i + int x) v) s i u (x + 1))
      else (o', x))"
  by pat_completeness auto
termination by (relation "measure (\<lambda>(_, s, _, _, x). length s - 2 * x)") auto

declare hex_loop.simps [simp del]

definition hexWrite :: "byte list \<Rightarrow> jstring \<Rightarrow> int \<Rightarrow> int \<Rightarrow> byte list \<times> nat" where
  "hexWrite o' s i u =
     (let rest = int (length o') - i;
          u = (if u \<noteq> 0 then (if u > rest then rest else u) else rest)
      in hex_loop o' s i u 0)"

definition utf8Write :: "byte list \<Rightarrow> jstring \<Rightarrow> int \<Rightarrow> int \<Rightarrow> js_error + (byte list \<times> nat)" where
  "utf8Write o' s i u =
     map_sum id (\<lambda>b. blitBuffer b o' i u) (utf8ToBytes s (Some (int (length o') - i)))"

definition asciiToBytes :: "jstring \<Rightarrow> int list" where
  "asciiToBytes o' = map (\<lambda>c. js_and 255 (uint c)) o'"

definition asciiWrite :: "byte list \<Rightarrow> jstring \<Rightarrow> int \<Rightarrow> int \<Rightarrow> byte list \<times> nat" where
  "asciiWrite o' s i u = blitBuffer (asciiToBytes s) o' i u"

definition base64Write :: "byte list \<Rightarrow> jstring \<Rightarrow> int \<Rightarrow> int \<Rightarrow> js_error + (byte list \<times> nat)" where
  "base64Write o' s i u = map_sum id (\<lambda>b. blitBuffer (map uint b) o' i u) (base64ToBytes s)"

fun utf16leToBytes :: "jstring \<Rightarrow> int \<Rightarrow> int list" where
  "utf16leToBytes [] s = []"
| "utf16leToBytes (c # r) s =
     (if s - 2 < 0 then [] else uint c mod 256 # js_sar (uint c) 8 # utf16leToBytes r (s - 2))"

definition ucs2Write :: "byte list \<Rightarrow> jstring \<Rightarrow> int \<Rightarrow> int \<Rightarrow> byte list \<times> nat" where
  "ucs2Write o' s i u = blitBuffer (utf16leToBytes s (int (length o') - i)) o' i u"

text \<open>
  \<open>write\<close> of \<open>o'\<close> at \<open>s\<close>, at most \<open>i\<close> bytes, in the encoding \<open>u\<close>: the changed buffer and the
  count. The forms with fewer arguments are this one at offset 0.
\<close>

definition Buffer_write ::
  "byte list \<Rightarrow> jstring \<Rightarrow> int \<Rightarrow> int option \<Rightarrow> jstring option \<Rightarrow> js_error + (byte list \<times> nat)"
where
  "Buffer_write this o' s i u =
     (let s = to_uint32 s;
          rest = int (length this) - s;
          i = (case map_option to_uint32 i of None \<Rightarrow> rest | Some i \<Rightarrow> if i > rest then rest else i)
      in if length o' > 0 \<and> (i < 0 \<or> s < 0) \<or> s > int (length this) then Inl RangeError
         else (case encoding_of (name_or_utf8 u) of
                 Some Hex \<Rightarrow> Inr (hexWrite this o' s i)
               | Some Utf8 \<Rightarrow> utf8Write this o' s i
               | Some Ascii \<Rightarrow> Inr (asciiWrite this o' s i)
               | Some Latin1 \<Rightarrow> Inr (asciiWrite this o' s i)
               | Some Base64 \<Rightarrow> base64Write this o' s i
               | Some Utf16le \<Rightarrow> Inr (ucs2Write this o' s i)
               | None \<Rightarrow> Inl TypeError))"

definition Buffer_from_string :: "jstring \<Rightarrow> jstring option \<Rightarrow> js_error + byte list" where
  "Buffer_from_string o' s =
     (let s = name_or_utf8 s
      in if \<not> isEncoding s then Inl TypeError
         else (case Buffer_byteLength o' (Some s) of
                 Inl e \<Rightarrow> Inl e
               | Inr i \<Rightarrow>
                   (case createBuffer (to_int32 (int i)) of
                      Inl e \<Rightarrow> Inl e
                    | Inr u \<Rightarrow>
                        (case Buffer_write u o' 0 None (Some s) of
                           Inl e \<Rightarrow> Inl e
                         | Inr (u, n) \<Rightarrow>
                             Inr (if int n \<noteq> to_int32 (int i) then Buffer_slice u 0 (Some (int n)) else u)))))"

section \<open>toString\<close>

definition asciiSlice :: "byte list \<Rightarrow> nat \<Rightarrow> nat \<Rightarrow> jstring" where
  "asciiSlice o' s i = map (\<lambda>k. word_of_int (js_and 127 (uint (o' ! k)))) [s..<min (length o') i]"

definition latin1Slice :: "byte list \<Rightarrow> nat \<Rightarrow> nat \<Rightarrow> jstring" where
  "latin1Slice o' s i = map (\<lambda>k. word_of_int (uint (o' ! k))) [s..<min (length o') i]"

definition hexSliceLookupTable :: "jstring list" where
  "hexSliceLookupTable =
     (let o' = js ''0123456789abcdef'' in concat (map (\<lambda>i. map (\<lambda>j. [o' ! i, o' ! j]) [0..<16]) [0..<16]))"

definition hexSlice :: "byte list \<Rightarrow> nat \<Rightarrow> nat \<Rightarrow> jstring" where
  "hexSlice o' s i =
     (let u = length o';
          i = (if i = 0 \<or> i > u then u else i)
      in concat (map (\<lambda>k. hexSliceLookupTable ! unat (o' ! k)) [s..<i]))"

definition base64Slice :: "byte list \<Rightarrow> nat \<Rightarrow> nat \<Rightarrow> jstring" where
  "base64Slice o' s i =
     (if s = 0 \<and> i = length o' then fromByteArray o'
      else fromByteArray (Buffer_slice o' (int s) (Some (int i))))"

fun utf16le_units :: "byte list \<Rightarrow> jstring" where
  "utf16le_units (x # y # r) = word_of_int (uint x + 256 * uint y) # utf16le_units r"
| "utf16le_units _ = []"

definition utf16leSlice :: "byte list \<Rightarrow> nat \<Rightarrow> nat \<Rightarrow> jstring" where
  "utf16leSlice o' s i = utf16le_units (Buffer_slice o' (int s) (Some (int i)))"

definition slowToString :: "byte list \<Rightarrow> jstring option \<Rightarrow> int option \<Rightarrow> int option \<Rightarrow> js_error + jstring" where
  "slowToString this o' s i =
     (let s = (case s of None \<Rightarrow> 0 | Some s \<Rightarrow> if s < 0 then 0 else s)
      in if s > int (length this) then Inr []
         else
           (let i = (case i of None \<Rightarrow> int (length this)
                     | Some i \<Rightarrow> if i > int (length this) then int (length this) else i)
            in if i \<le> 0 then Inr []
               else
                 (let i = to_uint32 i; s = to_uint32 s
                  in if i \<le> s then Inr []
                     else (case encoding_of (name_or_utf8 o') of
                             Some Hex \<Rightarrow> Inr (hexSlice this (nat s) (nat i))
                           | Some Utf8 \<Rightarrow> Inr (utf8Slice this (nat s) (nat i))
                           | Some Ascii \<Rightarrow> Inr (asciiSlice this (nat s) (nat i))
                           | Some Latin1 \<Rightarrow> Inr (latin1Slice this (nat s) (nat i))
                           | Some Base64 \<Rightarrow> Inr (base64Slice this (nat s) (nat i))
                           | Some Utf16le \<Rightarrow> Inr (utf16leSlice this (nat s) (nat i))
                           | None \<Rightarrow> Inl TypeError))))"

definition Buffer_toString :: "byte list \<Rightarrow> jstring option \<Rightarrow> int option \<Rightarrow> int option \<Rightarrow> js_error + jstring" where
  "Buffer_toString this o' s i = (if length this = 0 then Inr [] else slowToString this o' s i)"

section \<open>Writing into a buffer\<close>

lemma blit_loop_patch:
  assumes "n = min (length o') (min (length s - i) u)" and "i \<le> length s"
  shows "k \<le> n \<Longrightarrow> blit_loop o' (patch s i (map word_of_int (take k o'))) (int i) (int u) k
           = (patch s i (map word_of_int (take n o')), n)"
proof (induction "n - k" arbitrary: k)
  case 0
  then have "\<not> (k < u \<and> k + i < length s \<and> k < length o')"
    using assms by (auto simp: min_def split: if_splits)
  moreover have "k \<le> length s - i" using 0 assms by simp
  with assms(2) have "i + k \<le> length s" by linarith
  then have "length (patch s i (map word_of_int (take k o'))) = length s"
    by (intro length_patch) (simp add: min_def)
  ultimately show ?case using 0
    by (subst blit_loop.simps) (auto simp flip: of_nat_add of_nat_le_iff)
next
  case (Suc d)
  then have k: "k < n" "d = n - (k + 1)" by simp_all
  with assms have lt: "k < u" "k + i < length s" "k < length o'" by auto
  have "js_store (patch s i (map word_of_int (take k o'))) (int k + int i) (o' ! k)
      = patch s i (map word_of_int (take (k + 1) o'))"
    using js_store_end [of i "map word_of_int (take k o')" s "int k + int i" "o' ! k"] lt
    by (simp add: take_Suc_conv_app_nth)
  moreover have "length (patch s i (map word_of_int (take k o'))) = length s" using lt by simp
  moreover note Suc.hyps(1) [OF k(2)]
  ultimately show ?case using lt k
    by (subst blit_loop.simps) (simp add: not_le flip: of_nat_add)
qed

lemma blitBuffer_patch:
  "i \<le> length s \<Longrightarrow> blitBuffer o' s (int i) (int u)
     = (let n = min (length o') (min (length s - i) u) in (patch s i (map word_of_int (take n o')), n))"
  using blit_loop_patch [of "min (length o') (min (length s - i) u)" o' s i u 0]
  by (simp add: blitBuffer_def Let_def)

lemma patch_whole: "length bs = n \<Longrightarrow> patch (replicate n 0) 0 bs = bs"
  by (simp add: patch_def)

text \<open>A text whose encoding fills the new buffer.\<close>

lemma blit_whole:
  "length o' = n \<Longrightarrow> blitBuffer o' (replicate n 0) 0 (int n) = (map word_of_int o', n)"
  using blitBuffer_patch [of 0 "replicate n 0" o' n] by (simp add: patch_whole)

lemma from_string_written:
  assumes "encoding_of e = Some enc" and "e \<noteq> []" and "Buffer_byteLength s (Some e) = Inr n" and "n \<le> 2147483647"
    and "Buffer_write (replicate n 0) s 0 None (Some e) = Inr (b, n)"
  shows "Buffer_from_string s (Some e) = Inr b"
proof -
  have "to_int32 (int n) = int n" using assms(4) by (intro to_int32_id) simp_all
  then show ?thesis using assms
    by (simp add: Buffer_from_string_def name_or_utf8_def isEncoding_def createBuffer_def kMaxLength_def
        new_Uint8Array_def)
qed

section \<open>Each encoding\<close>

lemma byte_char: "word_of_int (uint (word_of_int (js_and 255 (uint c)) :: byte)) = (c :: jchar)" if "uint c < 256"
  using that by (simp only: byte_store byte_of_int) simp

lemma byte_ucast: "ucast (word_of_int (js_and 255 (uint c)) :: byte) = (c :: jchar)" if "uint c < 256"
  using byte_char [OF that] by simp

lemma low_char: "word_of_int (js_and 127 (uint (word_of_int (js_and 255 (uint c)) :: byte))) = (c :: jchar)"
  if "uint c < 128"
proof -
  have "uint (word_of_int (js_and 255 (uint c)) :: byte) = uint c"
    using that by (simp only: byte_store byte_of_int) simp
  moreover have "js_and 127 (uint c) = uint c"
    using that js_and_mod(2) [of "uint c" 7] by (simp add: mask_eq_exp_minus_1)
  ultimately show ?thesis by simp
qed

lemma map_nth_upt: "map (\<lambda>k. f (b ! k)) [0..<length b] = map f b"
  by (rule nth_equalityI) simp_all

lemma char_of_int: "uint (word_of_int v :: jchar) = v mod 65536"
  by (simp add: unsigned_of_int take_bit_eq_mod)

lemma utf16le_bytes_full:
  "2 * int (length s) \<le> n \<Longrightarrow> length (utf16leToBytes s n) = 2 * length s
     \<and> utf16le_units (map word_of_int (utf16leToBytes s n)) = s"
proof (induction s arbitrary: n)
  case (Cons c s)
  have c: "uint c < 65536" using uint_bounded [of c] by simp
  then have "js_sar (uint c) 8 = uint c div 256" by (simp add: js_sar_div)
  moreover have "uint c div 256 < 256" "0 \<le> uint c div 256"
    using c by (presburger, simp add: pos_imp_zdiv_nonneg_iff)
  then have "uint c div 256 mod 256 = uint c div 256" by simp
  ultimately have "uint (word_of_int (uint c mod 256) :: byte) + 256 * uint (word_of_int (js_sar (uint c) 8) :: byte) = uint c"
    using c by (simp add: byte_of_int)
  with Cons show ?case by simp
qed simp

lemma utf16le_units_bytes:
  "even (length b) \<Longrightarrow> int (length b) \<le> n \<Longrightarrow> map word_of_int (utf16leToBytes (utf16le_units b) n) = b
     \<and> 2 * length (utf16le_units b) = length b"
proof (induction b arbitrary: n rule: utf16le_units.induct)
  case (1 x y r)
  have u: "uint (word_of_int (uint x + 256 * uint y) :: jchar) = uint x + 256 * uint y"
    using byte_bound [of x] byte_bound [of y] by (subst char_of_int) simp
  moreover have "js_sar (uint x + 256 * uint y) 8 = uint y"
    using byte_bound [of x] byte_bound [of y] by (simp add: js_sar_div)
  ultimately show ?case using 1(1) [of "n - 2"] 1(2,3) byte_bound [of x]
    by (simp only: utf16le_units.simps utf16leToBytes.simps) simp
qed simp_all

lemma utf8_encode_Nil: "utf8_encode [] = []"
  by (simp add: utf8_encode_def)

lemma utf8_all:
  assumes "utf16_ok s"
  shows "utf8ToBytes s None = Inr (map uint (utf8_encode s))"
    and "utf8ToBytes s (Some (int (length (utf8_encode s)))) = Inr (map uint (utf8_encode s))"
proof -
  have len: "length (utf8_encode s) = length (utf8_units s)" by (simp add: utf8_encode_def)
  have bytes: "map int (utf8_units s) = map uint (utf8_encode s)"
    unfolding utf8_encode_units [symmetric] by simp
  have first: "length (utf8_units (first_point u)) \<le> length (utf8_units u)" if "utf16_ok u" for u
    using that
  proof (induction u rule: utf16_ok_induct)
    case (single c cs)
    then show ?case using utf8_units_single [OF single(1,2)] utf8_units_single [OF single(1,2), of "[]"]
      by (cases cs) (simp_all add: first_point_def del: utf8_units.simps, simp_all)
  next
    case (pair c d ds)
    then show ?case using utf8_units_pair [OF pair(1,2)] utf8_units_pair [OF pair(1,2), of "[]"]
      by (simp add: first_point_def del: utf8_units.simps) simp
  qed (simp add: first_point_def)
  have full: "utf8_loop s None l [] = Inr (map int (utf8_units s))"
    if l: "l = None \<or> l = Some (int (length (utf8_units s)))" for l
  proof -
    have "enough l" using l by (auto simp: enough_def)
    from utf8_loop_fits [OF assms this, of "[]"] obtain t u where
      t: "s = t @ u" "utf16_ok t" "utf16_ok u" "utf8_loop s None l [] = Inr (map int (utf8_units t))"
        "u \<noteq> [] \<longrightarrow> \<not> enough (spend (int (length (utf8_units t @ utf8_units (first_point u)))) l)"
      unfolding append_Nil by blast
    have "u = []"
    proof (rule ccontr)
      assume "u \<noteq> []"
      with t(5) have "\<not> enough (spend (int (length (utf8_units t @ utf8_units (first_point u)))) l)" by simp
      with l first [OF t(3)] utf16_ok_append_first [OF t(2), of u] t(1) show False
        by (auto simp: enough_def spend_def)
    qed
    with t show ?thesis by simp
  qed
  show "utf8ToBytes s None = Inr (map uint (utf8_encode s))"
    using full [of None] by (simp add: utf8ToBytes_def units_of_def bytes)
  have "units_of (Some (int (length (utf8_units s)))) = None
      \<or> units_of (Some (int (length (utf8_units s)))) = Some (int (length (utf8_units s)))"
    by (simp add: units_of_def)
  from full [OF this] show "utf8ToBytes s (Some (int (length (utf8_encode s)))) = Inr (map uint (utf8_encode s))"
    by (simp only: utf8ToBytes_def len bytes)
qed

text \<open>The table of hexadecimal digits, read back entry by entry.\<close>

lemma concat_nth:
  assumes "\<And>i. i < m \<Longrightarrow> length (f i) = k" and "n < m * k"
  shows "concat (map f [0..<m]) ! n = f (n div k) ! (n mod k)"
  using assms
proof (induction m)
  case (Suc m)
  have len: "length (concat (map f [0..<m])) = m * k"
  proof -
    have "map length (map f [0..<m]) = replicate m k"
      using Suc.prems(1) by (intro nth_equalityI) simp_all
    then show ?thesis by (simp only: length_concat sum_list_replicate) simp
  qed
  show ?case
  proof (cases "n < m * k")
    case True
    with Suc len show ?thesis by (simp add: nth_append)
  next
    case False
    then have "n div k = m"
      using Suc.prems(2) by (intro div_nat_eqI) (simp_all add: mult.commute)
    moreover from this have "n mod k = n - m * k" by (simp add: modulo_nat_def)
    ultimately show ?thesis using False len by (simp add: nth_append)
  qed
qed simp

lemma hex_alphabet: "js ''0123456789abcdef''
    = [48, 49, 50, 51, 52, 53, 54, 55, 56, 57, 97, 98, 99, 100, 101, 102]"
  by code_simp

lemma hex_digit:
  assumes "n < 16"
  shows "hex_value (js ''0123456789abcdef'' ! n) = Some (int n)"
    and "\<not> js_space (js ''0123456789abcdef'' ! n)"
    and "js ''0123456789abcdef'' ! n \<notin> {43, 45, 120, 88}"
proof -
  have "n \<in> {0, 1, 2, 3, 4, 5, 6, 7, 8, 9, 10, 11, 12, 13, 14, 15}"
    unfolding insert_iff empty_iff using assms by presburger
  then show "hex_value (js ''0123456789abcdef'' ! n) = Some (int n)"
    "\<not> js_space (js ''0123456789abcdef'' ! n)" "js ''0123456789abcdef'' ! n \<notin> {43, 45, 120, 88}"
    unfolding hex_alphabet by (auto simp: hex_value_def js_space_def)
qed

lemma hex_entry:
  "parseInt_16 (hexSliceLookupTable ! unat (b :: byte)) = Some (uint b)"
  "length (hexSliceLookupTable ! unat (b :: byte)) = 2"
proof -
  let ?d = "\<lambda>n. js ''0123456789abcdef'' ! n"
  have b: "unat b < 16 * 16" using unsigned_less [of b] by simp
  then have entry: "hexSliceLookupTable ! unat b = [?d (unat b div 16), ?d (unat b mod 16)]"
    unfolding hexSliceLookupTable_def Let_def by (subst concat_nth [where k = 16]) simp_all
  have "unat b div 16 < 16" "unat b mod 16 < 16" using b by simp_all
  note d = hex_digit [OF this(1)] hex_digit [OF this(2)]
  have "parseInt_16 [?d (unat b div 16), ?d (unat b mod 16)] = Some (16 * int (unat b div 16) + int (unat b mod 16))"
    using d by (simp add: parseInt_16_def js_num_def)
  also have "16 * int (unat b div 16) + int (unat b mod 16) = int (16 * (unat b div 16) + unat b mod 16)"
    by (simp only: of_nat_add of_nat_mult of_nat_numeral)
  also have "\<dots> = uint b" by (simp only: mult_div_mod_eq) simp
  finally show "parseInt_16 (hexSliceLookupTable ! unat b) = Some (uint b)"
    by (simp only: entry)
  show "length (hexSliceLookupTable ! unat b) = 2" by (simp add: entry)
qed

definition hex_digits :: "byte list \<Rightarrow> jstring" where
  "hex_digits b = concat (map (\<lambda>x. hexSliceLookupTable ! unat x) b)"

lemma hexSlice_digits: "hexSlice b 0 (length b) = hex_digits b"
  using map_nth_upt [of "\<lambda>x. hexSliceLookupTable ! unat x" b] by (simp add: hexSlice_def hex_digits_def)

lemma length_hex_digits: "length (hex_digits b) = 2 * length b"
  by (induction b) (simp_all add: hex_digits_def hex_entry)

lemma hex_digits_pair: "x < length b \<Longrightarrow> take 2 (drop (2 * x) (hex_digits b)) = hexSliceLookupTable ! unat (b ! x)"
proof (induction b arbitrary: x)
  case (Cons c b)
  have "hex_digits (c # b) = hexSliceLookupTable ! unat c @ hex_digits b" by (simp add: hex_digits_def)
  with Cons show ?case using hex_entry(2) [of c] by (cases x) simp_all
qed simp

lemma hex_loop_digits:
  "length b \<le> length o' \<Longrightarrow> x \<le> length b \<Longrightarrow>
     hex_loop (patch o' 0 (take x b)) (hex_digits b) 0 (int (length b)) x = (patch o' 0 b, length b)"
proof (induction "length b - x" arbitrary: x)
  case 0
  then show ?case by (subst hex_loop.simps) simp
next
  case (Suc d)
  then have x: "x < length b" "d = length b - (x + 1)" by simp_all
  have "js_store (patch o' 0 (take x b)) (int x) (uint (b ! x)) = patch o' 0 (take (x + 1) b)"
    using js_store_end [of 0 "take x b" o' "int x" "uint (b ! x)"] x Suc.prems
    by (simp add: take_Suc_conv_app_nth)
  with Suc.hyps(1) [OF x(2)] x Suc.prems show ?case
    by (subst hex_loop.simps) (simp add: hex_digits_pair hex_entry length_hex_digits)
qed

section \<open>There and back\<close>

lemma base64ToBytes_decoded: "b64_decode url s = Inr bs \<Longrightarrow> base64ToBytes s = Inr bs"
  using base64clean_decoded [of url s] toByteArray_decoded [of url "base64clean s"]
  by (auto simp: b64_decode_def of_option_Inr_iff base64ToBytes_def)

lemma base64ToBytes_encoded: "base64ToBytes (fromByteArray b) = Inr b"
  by (rule base64ToBytes_decoded [where url = False]) (simp add: fromByteArray_std base64_std_def b64_decode_encode)

text \<open>The texts and the bytes that an encoding keeps.\<close>

definition keeps_text :: "encoding \<Rightarrow> jstring \<Rightarrow> bool" where
  "keeps_text enc s =
     (case enc of
        Utf8 \<Rightarrow> utf16_ok s
      | Ascii \<Rightarrow> list_all (\<lambda>c. uint c < 128) s
      | Latin1 \<Rightarrow> list_all (\<lambda>c. uint c < 256) s
      | Utf16le \<Rightarrow> True
      | Hex \<Rightarrow> False
      | Base64 \<Rightarrow> False)"

definition keeps_bytes :: "encoding \<Rightarrow> byte list \<Rightarrow> bool" where
  "keeps_bytes enc b =
     (case enc of
        Utf8 \<Rightarrow> False
      | Ascii \<Rightarrow> list_all (\<lambda>x. uint x < 128) b
      | Latin1 \<Rightarrow> True
      | Utf16le \<Rightarrow> even (length b)
      | Hex \<Rightarrow> True
      | Base64 \<Rightarrow> True)"

lemma encoding_of_Nil: "encoding_of [] = None"
  by code_simp

lemma write_whole:
  assumes "encoding_of e = Some enc"
  shows "Buffer_write (replicate n 0) s 0 None (Some e) =
    (case enc of
       Hex \<Rightarrow> Inr (hexWrite (replicate n 0) s 0 (int n))
     | Utf8 \<Rightarrow> utf8Write (replicate n 0) s 0 (int n)
     | Ascii \<Rightarrow> Inr (asciiWrite (replicate n 0) s 0 (int n))
     | Latin1 \<Rightarrow> Inr (asciiWrite (replicate n 0) s 0 (int n))
     | Base64 \<Rightarrow> base64Write (replicate n 0) s 0 (int n)
     | Utf16le \<Rightarrow> Inr (ucs2Write (replicate n 0) s 0 (int n)))"
  using assms encoding_of_Nil
  by (auto simp: Buffer_write_def name_or_utf8_def to_uint32_def Let_def split: encoding.split)

lemma Buffer_slice_whole: "length b < 2 ^ 31 \<Longrightarrow> Buffer_slice b 0 (Some (int (length b))) = b"
  using Buffer_slice_window [of 0 "length b" b] by (simp add: window_def)

lemma toString_whole:
  assumes "encoding_of e = Some enc" and "length b < 2 ^ 31"
  shows "Buffer_toString b (Some e) None None = Inr
    (case enc of
       Hex \<Rightarrow> hex_digits b
     | Utf8 \<Rightarrow> utf8Slice b 0 (length b)
     | Ascii \<Rightarrow> map (\<lambda>x. word_of_int (js_and 127 (uint x))) b
     | Latin1 \<Rightarrow> map (\<lambda>x. word_of_int (uint x)) b
     | Base64 \<Rightarrow> fromByteArray b
     | Utf16le \<Rightarrow> utf16le_units b)"
proof (cases "b = []")
  case True
  have "utf8Slice [] 0 0 = []"
    by (simp add: utf8Slice_def slice_loop.simps decodeCodePointsArray_map fromCharCode_def)
  moreover have "base64_std [] = []" by simp
  ultimately show ?thesis using True
    by (simp add: Buffer_toString_def hex_digits_def fromByteArray_std del: base64_std_Nil_iff split: encoding.split)
next
  case False
  have u: "to_uint32 (int (length b)) = int (length b)" "to_uint32 0 = 0"
    using assms(2) to_uint32_nat [of "length b"] by (simp_all add: to_uint32_def)
  have e: "name_or_utf8 (Some e) = e" using assms(1) encoding_of_Nil by (auto simp: name_or_utf8_def)
  show ?thesis using False assms map_nth_upt [of "\<lambda>x. word_of_int (js_and 127 (uint x)) :: jchar" b]
      map_nth_upt [of "\<lambda>x. word_of_int (uint x) :: jchar" b]
    by (simp add: Buffer_toString_def slowToString_def Let_def u e hexSlice_digits asciiSlice_def latin1Slice_def
        base64Slice_def utf16leSlice_def Buffer_slice_whole split: encoding.split)
qed

lemma asciiWrite_whole: "asciiWrite (replicate (length s) 0) s 0 (int (length s))
    = (map (\<lambda>c. word_of_int (js_and 255 (uint c))) s, length s)"
  using blit_whole [of "asciiToBytes s" "length s"] by (simp add: asciiWrite_def asciiToBytes_def comp_def)

lemma hexWrite_whole: "hexWrite (replicate (length b) 0) (hex_digits b) 0 (int (length b)) = (b, length b)"
  using hex_loop_digits [of b "replicate (length b) 0" 0]
  by (cases "b = []") (simp_all add: hexWrite_def patch_whole Let_def)

section \<open>Properties\<close>

text \<open>
  C40. \<open>Buffer.from\<close> and \<open>toString\<close> in the same encoding, by any of its names, give a text back:
  in UTF-8 every well-formed text, in UTF-16 every text, in Latin-1 and ASCII those of their
  characters.
\<close>

theorem text_roundtrip:
  assumes "encoding_of e = Some enc" and "keeps_text enc s"
    and "Buffer_byteLength s (Some e) = Inr n" and "n < 2147483647"
  shows "\<exists>b. Buffer_from_string s (Some e) = Inr b \<and> length b = n \<and> Buffer_toString b (Some e) None None = Inr s"
proof -
  have e: "e \<noteq> []" using assms(1) encoding_of_Nil by auto
  have n: "n \<le> 2147483647" using assms(4) by simp
  have "\<exists>b. Buffer_write (replicate n 0) s 0 None (Some e) = Inr (b, n) \<and> length b = n
      \<and> Buffer_toString b (Some e) None None = Inr s"
  proof (cases enc)
    case Utf8
    let ?b = "utf8_encode s"
    have ok: "utf16_ok s" using assms(2) by (simp add: keeps_text_def Utf8)
    then have len: "length ?b = n"
      using assms(1,3) Utf8 utf8_encode_Nil by (auto simp: Buffer_byteLength_def utf8_all split: if_splits)
    have "utf8Write (replicate n 0) s 0 (int n) = Inr (?b, n)"
      using utf8_all(2) [OF ok] blit_whole [of "map uint ?b" n] len by (simp add: utf8Write_def comp_def)
    then show ?thesis
      using utf8Slice_encode [OF ok] len assms(1,4) by (auto simp: write_whole toString_whole Utf8)
  next
    case Utf16le
    have len: "n = 2 * length s"
      using assms(1,3) Utf16le by (auto simp: Buffer_byteLength_def split: if_splits)
    note full = utf16le_bytes_full [of s "int n"]
    have "ucs2Write (replicate n 0) s 0 (int n) = (map word_of_int (utf16leToBytes s (int n)), n)"
      using blit_whole [of "utf16leToBytes s (int n)" n] full len by (simp add: ucs2Write_def)
    then show ?thesis using full len assms(1,4) by (auto simp: write_whole toString_whole Utf16le)
  next
    case Ascii
    then have "n = length s" using assms(1,3) by (auto simp: Buffer_byteLength_def split: if_splits)
    then show ?thesis using assms(1,2,4) asciiWrite_whole [of s] Ascii
      by (auto simp: write_whole toString_whole keeps_text_def list_all_iff low_char intro!: map_idI)
  next
    case Latin1
    then have "n = length s" using assms(1,3) by (auto simp: Buffer_byteLength_def split: if_splits)
    then show ?thesis using assms(1,2,4) asciiWrite_whole [of s] Latin1
      by (auto simp: write_whole toString_whole keeps_text_def list_all_iff byte_ucast intro!: map_idI)
  qed (use assms(2) in \<open>simp_all add: keeps_text_def\<close>)
  then show ?thesis using from_string_written [OF assms(1) e assms(3) n] by blast
qed

theorem text_roundtrip_witness:
  "\<exists>b. Buffer_from_string [0xE9, 0x20AC] (Some (js ''UTF-8'')) = Inr b \<and> length b = 5
    \<and> Buffer_toString b (Some (js ''UTF-8'')) None None = Inr [0xE9, 0x20AC]"
proof -
  have e: "encoding_of (js ''UTF-8'') = Some Utf8" by code_simp
  have ok: "utf16_ok [0xE9, 0x20AC]" by (simp add: is_high_def is_low_def)
  have "length (utf8_encode [0xE9, 0x20AC]) = 5"
    by (simp add: utf8_encode_def is_high_def is_low_def)
  then have "Buffer_byteLength [0xE9, 0x20AC] (Some (js ''UTF-8'')) = Inr 5"
    by (simp add: Buffer_byteLength_def e utf8_all [OF ok])
  from text_roundtrip [OF e _ this] ok show ?thesis by (simp add: keeps_text_def)
qed

text \<open>
  \<open>toString\<close> and \<open>Buffer.from\<close> give the bytes back in hexadecimal, Base64 and Latin-1, in
  UTF-16 those of even length, in ASCII those below 128.
\<close>

lemma bytes_roundtrip:
  assumes "encoding_of e = Some enc" and "keeps_bytes enc b" and "length b < 2147483647"
  shows "\<exists>s. Buffer_toString b (Some e) None None = Inr s \<and> Buffer_from_string s (Some e) = Inr b"
proof -
  have e: "e \<noteq> []" using assms(1) encoding_of_Nil by auto
  have n: "length b \<le> 2147483647" using assms(3) by simp
  have "\<exists>s. Buffer_toString b (Some e) None None = Inr s \<and> Buffer_byteLength s (Some e) = Inr (length b)
      \<and> Buffer_write (replicate (length b) 0) s 0 None (Some e) = Inr (b, length b)"
  proof (cases enc)
    case Hex
    then show ?thesis using assms(1,3) hexWrite_whole [of b] length_hex_digits [of b]
      by (auto simp: write_whole toString_whole Buffer_byteLength_def)
  next
    case Base64
    have "base64Write (replicate (length b) 0) (fromByteArray b) 0 (int (length b)) = Inr (b, length b)"
      using blit_whole [of "map uint b" "length b"] by (simp add: base64Write_def base64ToBytes_encoded comp_def)
    moreover have "fromByteArray b = [] \<longleftrightarrow> b = []" by (simp add: fromByteArray_std)
    ultimately show ?thesis using assms(1,3) Base64
      by (auto simp: write_whole toString_whole Buffer_byteLength_def base64ToBytes_encoded)
  next
    case Utf16le
    then have even: "even (length b)" using assms(2) by (simp add: keeps_bytes_def)
    note full = utf16le_units_bytes [OF even, of "int (length b)"]
    have "length (utf16leToBytes (utf16le_units b) (int (length b))) = length b"
      using full by (metis length_map order_refl)
    then have "ucs2Write (replicate (length b) 0) (utf16le_units b) 0 (int (length b)) = (b, length b)"
      using blit_whole [of "utf16leToBytes (utf16le_units b) (int (length b))" "length b"] full
      by (simp add: ucs2Write_def)
    then show ?thesis using assms(1,3) Utf16le full
      by (auto simp: write_whole toString_whole Buffer_byteLength_def)
  next
    case Latin1
    have "word_of_int (js_and 255 (uint (word_of_int (uint x) :: jchar))) = x" for x :: byte
      using byte_bound [of x] by (simp only: byte_store char_of_int) simp
    then have "asciiWrite (replicate (length b) 0) (map (\<lambda>x. word_of_int (uint x)) b) 0 (int (length b)) = (b, length b)"
      using asciiWrite_whole [of "map (\<lambda>x. word_of_int (uint x)) b"] by (simp add: comp_def)
    then show ?thesis using assms(1,3) Latin1
      by (auto simp: write_whole toString_whole Buffer_byteLength_def)
  next
    case Ascii
    have "word_of_int (js_and 255 (uint (word_of_int (js_and 127 (uint x)) :: jchar))) = x" if "uint x < 128" for x :: byte
      using that js_and_mod(2) [of "uint x" 7]
      by (simp only: byte_store char_of_int) (simp add: mask_eq_exp_minus_1)
    then have "asciiWrite (replicate (length b) 0) (map (\<lambda>x. word_of_int (js_and 127 (uint x))) b) 0 (int (length b)) = (b, length b)"
      using asciiWrite_whole [of "map (\<lambda>x. word_of_int (js_and 127 (uint x))) b"] assms(2) Ascii
      by (simp add: comp_def keeps_bytes_def list_all_iff map_idI)
    then show ?thesis using assms(1,3) Ascii
      by (auto simp: write_whole toString_whole Buffer_byteLength_def)
  qed (use assms(2) in \<open>simp add: keeps_bytes_def\<close>)
  then show ?thesis using from_string_written [OF assms(1) e _ n] by blast
qed

lemma bytes_roundtrip_example:
  "\<exists>s. Buffer_toString [0, 171, 255] (Some (js ''hex'')) None None = Inr s
    \<and> Buffer_from_string s (Some (js ''hex'')) = Inr [0, 171, 255]"
proof -
  have "encoding_of (js ''hex'') = Some Hex" by code_simp
  from bytes_roundtrip [OF this] show ?thesis by (simp add: keeps_bytes_def)
qed

end
