(* ===== verification/Spec2Isabelle.thy ===== *)
theory Spec2Isabelle
  imports AuditTrail Concurrency Durability Exchange SwaggerText
begin

text \<open>
  A model of mini-idp, a single-machine OAuth identity provider in Java, and the proofs that
  make it correct. The Java sources are under \<open>src/core\<close> (the library: model, services, tokens,
  keys, secrets, stores) and \<open>src/server\<close> (the HTTP server over it); \<open>src/server\<close> also carries
  a vendored Swagger UI bundle in JavaScript.

  \<^bold>\<open>How the program works.\<close> Four services hold the state, each an in-memory collection and
  one JSON file: the client registry, the signing keys, the denylist of revoked token ids, and
  the audit log. An administrator, who presents a bearer token fixed at start-up, registers
  clients (each gets an id and a secret, hashed with Argon2id), sets their grants, rotates the
  signing key and revokes tokens. A client posts its id and secret and receives a signed
  token (a compact JWS with Ed25519) that lists its grants; anyone can fetch the public keys
  (the JWKS) and verify the token offline; with the admin token one may also poll the denylist.
  The published contract is the OpenAPI document the server hands out. Requests run on
  their own threads; the methods of a service are synchronized, so the unit of execution is
  one service call.

  \<^bold>\<open>Which theory models what.\<close>
  \<^item> \<open>Prelude\<close>: Java's types at their widths (\<open>long\<close> is a 64-bit word, a \<open>String\<close> a list of
    UTF-16 code units), the exceptions, the three shapes of a result (\<open>exn + 'a\<close>; with the state
    after it; sequencing by \<open>and_then\<close>, \<open>st_then\<close>), and the lemmas on them.
  \<^item> \<open>Containers\<close>, \<open>JavaText\<close>, \<open>Encodings\<close>: what the code uses of \<open>java.util\<close>,
    \<open>String\<close>, UTF-8, \<open>URLDecoder\<close> and \<open>Base64\<close> (with \<open>token/Base64Url.java\<close>).
  \<^item> \<open>JsonTree\<close>, \<open>JsonBytes\<close>: JSON documents as trees, and a codec that witnesses the laws
    assumed of Jackson.
  \<^item> \<open>Auth\<close>: \<open>auth/*.java\<close> and \<open>token/GrantsClaim.java\<close>.
  \<^item> \<open>Store\<close>: \<open>store/JsonStore.java\<close> on a file system with failures and crashes at every step,
    refined to the abstract \<open>cell\<close> that the services keep.
  \<^item> \<open>Secrets\<close>: \<open>secret/*.java\<close>, \<open>util/RandomIds.java\<close>.
  \<^item> \<open>Clients\<close>, \<open>Keys\<close>, \<open>Revocations\<close>, \<open>AuditLog\<close>: the four services with their records
    (\<open>service/*.java\<close>, \<open>model/*.java\<close>, \<open>crypto/\<close>, \<open>jwks/\<close>).
  \<^item> \<open>Tokens\<close>: \<open>token/Jws.java\<close>, \<open>JwsHeader\<close>, \<open>JwtClaims\<close>, \<open>service/TokenIssuer.java\<close>,
    \<open>service/TokenVerifier.java\<close>.
  \<^item> \<open>Config\<close>: \<open>server/ServerConfig.java\<close> and the admin-token lookup of \<open>ServerMain\<close>.
  \<^item> \<open>Http\<close>: \<open>server/http/*.java\<close>: routing, exceptions to responses, forms, JSON bodies.
  \<^item> \<open>Docs\<close>: \<open>http/StaticResource.java\<close>, \<open>OpenApiDocument.java\<close>, \<open>SwaggerUiPage.java\<close>.
  \<^item> \<open>Handlers\<close>: \<open>AdminAuthenticator\<close>, \<open>Dtos\<close>, \<open>ApiHandlers\<close>: one definition per handler, the
    route table, and \<open>Idp_handle\<close>, one request from the exchange to the response.
  \<^item> \<open>ApiProps\<close>, \<open>Secrecy\<close>: what the API guarantees, and what it does not reveal.
  \<^item> \<open>Contract\<close>: \<open>server/src/main/resources/openapi.yaml\<close>, its operations and response schemas,
    as the specification that the routes and the responses are checked against.
  \<^item> \<open>Exchange\<close>: \<open>Router.write\<close> over a connection that may break, and the whole of one exchange.
  \<^item> \<open>EndToEnd\<close>: two requests composed: a registration and a token request.
  \<^item> \<open>Server\<close>: \<open>ServerMain.run\<close> and \<open>main\<close> with their exit statuses, \<open>IdpServer.create\<close>, and
    the running system as a step relation.
  \<^item> \<open>Concurrency\<close>: a request as a thread of service calls, one definition per handler, and the
    pool of threads of a server (\<open>IdpServer\<close>'s executor) as a step relation: requests arrive,
    any thread makes its next call, the process restarts.
  \<^item> \<open>Durability\<close>, \<open>AuditTrail\<close>: what survives a restart, with memory and files compared as of a
    time, and what a removal of a client means; the audit log as the history of the changes,
    handler by handler.
  \<^item> \<open>JavaScript\<close>: what the modelled JavaScript uses of the language. \<open>SwaggerBase64\<close>: the Base64
    module of the Swagger UI bundle. Its \<open>buffer\<close> module: \<open>SwaggerBuffer\<close> (Base64 and UTF-8),
    \<open>SwaggerNumbers\<close> (integers in a buffer), \<open>SwaggerBytes\<close> (comparison, swaps, searches, \<open>copy\<close>,
    \<open>fill\<close>, \<open>concat\<close>) and \<open>SwaggerText\<close> (\<open>write\<close>, \<open>toString\<close> and \<open>Buffer.from\<close> in every encoding).
  \<^item> This theory: the properties of the whole server.

  \<^bold>\<open>Interfaces.\<close> \<open>keyed_map\<close> and \<open>keyed_registry\<close> (a map whose values carry their keys) are
  interpreted by the \<open>LinkedHashMap\<close> of the registry and of the denylist; \<open>codec\<close> and
  \<open>codec_chain\<close> (a round trip) by UTF-8, both Base64 alphabets, the two key encodings and the
  grants claim; \<open>document_store\<close> by the abstract cell and by the file operations;
  \<open>restartable\<close> (a service that starts again from its own document as it was) by all four
  services; \<open>number_access\<close> (a write and a read of one number format) by the formats of 8 to 64
  bits of a JavaScript \<open>Buffer\<close>, and proved of those of any number of bytes.

  \<^bold>\<open>What the lemmas show.\<close>
  \<^item> Each service: an invariant that every operation keeps (\<open>clients_inv\<close>, \<open>keys_inv\<close>,
    \<open>revocations_inv\<close>), what each operation does on every branch, and what a restart makes of
    its file.
  \<^item> Tokens: an issued token verifies exactly in its window; an accepted token was signed;
    the order of the verifier's checks; exactly when the verifier throws.
  \<^item> The store: a save is atomic under a crash at any point, leaves the document to its owner
    wherever the file system takes the permissions, and refines the cell.
  \<^item> The API: a registered client gets a token that verifies; the admin guard, the frame of
    an unauthenticated request, the audit of every issued token, one answer for all failed
    credentials, no secret in a response; every request is answered, by a response the contract
    documents (the exceptions are listed), and the client reads that response or nothing
    complete.
  \<^item> The system: every interleaving of the threads of concurrent requests is a sequence of
    service calls; an invariant over every such sequence, with failing saves and restarts; a
    saved signing key stays published for as long as its tokens live; a revoked token stays
    refused; a restart loses nothing that was saved, and everything that was
    acknowledged (no request answered 500) was saved; a removed client stays locked out, but a
    removal whose save failed cannot be repeated; every change is one audit entry.
  \<^item> Encodings and the bundle: round trips, and the agreement of the JavaScript Base64 and
    UTF-8 with the JDK's; \<open>utf8ToBytes\<close> never splits a character at its limit; numbers written
    to a buffer are read back and touch nothing else; the searches find the first and the last
    occurrence.

  \<^bold>\<open>Parameters.\<close> Code that is not in the repository is an argument of the definitions:
  \<open>ed25519\<close> (key pairs, signing, verification; \<open>ed25519_ok\<close> says a signature of a key verifies
  under its public key), \<open>jackson\<close> (\<open>jackson_ok\<close>: what was written is read back),
  \<open>argon2\<close> (\<open>argon2_free\<close>: it does not throw this program's \<open>ApiException\<close>), the JSON writer, the
  YAML parser and the request-body readers (\<open>libs\<close>; \<open>spec_ok\<close>: the OpenAPI resource is a
  mapping), the class path, \<open>Paths.get\<close>. The witnesses
  instantiate all of them with concrete functions (\<open>demo_ed\<close>, \<open>demo_jackson\<close>, \<open>demo_libs\<close>).
  The clock, random bytes and the outcome of each file write are arguments as well; each
  reading of the clock is an argument of its own, so nothing is assumed of how time passes
  within a call.

  \<^bold>\<open>Bounds.\<close> Seconds are 64-bit words. \<open>instant_ok\<close> is the range of \<open>Instant\<close>, which any
  clock reading lies in; with a configuration that passed \<open>resolve\<close> (\<open>wf_config\<close>: a token
  lifetime from 1 to \<open>2 ^ 31 - 1\<close> seconds) no sum or difference of the code wraps, and the
  properties read the words as integers. There is no fuel anywhere: every recursion is
  structural or has a measure.

  \<^bold>\<open>Not modelled.\<close> The socket and its server (\<open>com.sun.net.httpserver\<close>, of which only the
  exchange is a record; that it sends no body to a \<open>HEAD\<close> request is not distinguished),
  \<open>ServerMain\<close>'s messages and its wait for a signal, logging, the request
  schemas and descriptions of the OpenAPI document, and the zeroing of arrays, which no result
  depends on. Two random ids are assumed different
  where the code relies on it, as a hypothesis on the bytes drawn. The Swagger UI bundle is a
  vendored file of two lines, the second of which is the whole minified program; its Base64
  module and its \<open>buffer\<close> module are modelled, the latter without floating-point numbers, error
  messages and the memory that slices share. The rest of the bundle (React, Redux, js-yaml and
  the user interface) is third-party code that the server hands out as a file and never runs.
\<close>

section \<open>Auxiliary facts\<close>

text \<open>Every service's last save succeeded.\<close>

definition all_saved :: "Idp \<Rightarrow> bool" where
  "all_saved s \<longleftrightarrow>
     cs_store (id_clients s) = Doc (lhm_values (cs_clients (id_clients s)))
     \<and> sk_store (id_keys s) = Doc (keys_document (id_keys s))
     \<and> rs_store (id_revocations s) = Doc (lhm_values (rs_byJti (id_revocations s)))
     \<and> au_store (id_audit s) = Doc (au_entries (id_audit s))"

lemma accepted_not_revoked:
  assumes "TokenVerifier_verify ed jx tv t token jwks (Some p) = Inr res" and "rt_valid res"
  shows "\<exists>c. rt_claims res = Some c \<and> \<not> p (jc_tokenId c)"
proof -
  from verify_accepted [OF assms] obtain c where
    c: "verify_claims tv t (Some p) c = Result_success c" "res = Result_success c" by blast
  have "rt_valid (verify_claims tv t (Some p) c)" by (rule verify_claims_success [THEN iffD2, OF c(1)])
  then have "\<not> p (jc_tokenId c)" unfolding verify_claims_valid by simp
  then show ?thesis by (simp add: c(2) Result_success_def)
qed

section \<open>A concrete run\<close>

lemma demo_keys_good: "keys_good demo_ed demo_keys"
  and demo_keys_saved: "sk_store demo_keys = Doc (keys_document demo_keys)"
proof -
  show saved: "sk_store demo_keys = Doc (keys_document demo_keys)"
    by (simp add: demo_keys_def keys_persist_saved keys_document_def)
  show "keys_good demo_ed demo_keys"
    using demo_keys_inv by (auto simp: keys_good_def good_cell_def saved)
qed

lemma demo_config_wf: "wf_config demo_config"
  by (simp add: wf_config_def demo_config_def is_blank_def is_whitespace_def js_def
      wf_settings_def DEFAULT_HOST_def DEFAULT_AUDIENCE_def Let_def)

definition demo_rotated :: SigningKeyService where
  "demo_rotated = snd (SigningKeyService_rotate demo_ed (retiredKeyRetention demo_config) 210
     (replicate 32 2) [2] 210 210 Saved demo_keys)"

lemma demo_rotation:
  assumes "id_keys s = demo_keys" and "a \<le> 210" and "210 \<le> b"
  shows "service_run demo_libs demo_server a b ok s (s\<lparr>id_keys := demo_rotated\<rparr>)"
proof -
  obtain kid k where rot: "SigningKeyService_rotate demo_ed (retiredKeyRetention demo_config) 210
      (replicate 32 2) [2] 210 210 Saved demo_keys = (kid, k)" by (rule prod.exhaust)
  then have "on_keys (SigningKeyService_rotate (lb_ed demo_libs) (retiredKeyRetention (sv_config demo_server))
      210 (replicate 32 2) [2] 210 210 Saved) s = (kid, s\<lparr>id_keys := demo_rotated\<rparr>)"
    by (simp add: on_keys_def assms(1) demo_rotated_def)
  moreover have "newKid [2] \<notin> kr_kid ` set (sk_keys (id_keys s))"
    by (simp add: assms(1) demo_keys_kid rotated_keys_def)
  moreover have "sint (210 :: long) \<in> {a..b}" using assms(2,3) by simp
  moreover have "length (replicate 32 (2 :: byte)) = 32" by simp
  ultimately show ?thesis by (intro r_into_rtranclp) (rule s_rotate [OF _ _ _ _ _ may_throw_any])
qed

lemma demo_sizes:
  "ti_tokenTtl demo_issuer = 300" "ti_issuer demo_issuer = js ''https://idp''"
  "ti_audience demo_issuer = js ''mini-kms''" "sc_tokenTtl demo_config = 300"
  by (simp_all add: demo_issuer_def demo_config_def)

lemma demo_issue:
  "\<exists>tok. TokenIssuer_issue demo_ed demo_jackson demo_issuer 200 [7] demo_keys demo_subject = Inr tok
     \<and> json_plain (claims_json (issued_claims demo_issuer 200 tok demo_subject))
     \<and> issued_claims demo_issuer 200 tok demo_subject
       = issue_claims demo_issuer 200 500 (newJti [7]) demo_subject"
proof -
  have e: "instant_plus 200 (ti_tokenTtl demo_issuer) = Inr 500"
    by (simp add: instant_plus_def demo_issuer_def instant_min_def instant_max_def)
  have h: "json_plain (header_json (JwsHeader_forKid (newKid [1])))"
    by (simp add: json_plain_header plain_newKid)
  have c: "json_plain (claims_json (issue_claims demo_issuer 200 500 (newJti [7]) demo_subject))"
    by (rule demo_claims_plain) simp
  from issue_succeeds [OF demo_jackson_ok demo_keys_inv e demo_keys_kid(1) h c] c show ?thesis
    by (auto simp: issued_claims_def)
qed

definition demo_startup :: startup where
  "demo_startup = \<lparr>su_now = 100, su_kidBytes = [1], su_seed = replicate 32 1, su_save = Saved,
     su_resources = (\<lambda>_. Some (Some [])), su_bind = Inr ()\<rparr>"

definition empty_disk :: disk where
  "empty_disk = \<lparr>dk_clients = Absent, dk_keys = Absent, dk_revocations = Absent, dk_audit = Absent\<rparr>"

definition demo_start :: Idp where
  "demo_start =
     \<lparr>id_clients = \<lparr>cs_clients = [], cs_store = Absent\<rparr>, id_keys = demo_keys,
      id_revocations = \<lparr>rs_byJti = [], rs_store = Absent\<rparr>,
      id_audit = \<lparr>au_entries = [], au_store = Absent\<rparr>\<rparr>"

lemma demo_create:
  "fst (IdpServer_create demo_libs demo_startup demo_config (Some (js ''s3cret'')) empty_disk)
     = Inr (demo_server, demo_start)"
  by (simp add: IdpServer_create_def demo_startup_def empty_disk_def demo_start_def demo_keys_new
      ClientService_new_def RevocationService_new_def AuditService_new_def mk_AdminAuthenticator_def
      demo_server_def create_issuer_def demo_config_def demo_issuer_def demo_openApi)

lemma good_empty_disk: "good_disk ed empty_disk"
  by (simp add: good_disk_def good_cell_def empty_disk_def)

text \<open>The token of \<open>demo_issue\<close> against the key set of the server that issued it.\<close>

lemma demo_outcome:
  assumes tok: "TokenIssuer_issue demo_ed demo_jackson demo_issuer 200 [7] demo_keys demo_subject = Inr tok"
    and jwks: "fst (SigningKeyService_jwkSet 600 210 demo_keys) = Inr jwks"
    and t: "instant_ok t" "200 \<le> sint t" "sint t < 530"
  shows "TokenVerifier_verify demo_ed demo_jackson demo_verifier t (Some (it_accessToken tok)) jwks (Some isr)
     = Inr (if isr (Some (newJti [7])) then Result_failure REVOKED
            else Result_success (issue_claims demo_issuer 200 500 (newJti [7]) demo_subject))"
proof -
  from demo_issue tok have
    c: "json_plain (claims_json (issued_claims demo_issuer 200 tok demo_subject))"
      "issued_claims demo_issuer 200 tok demo_subject
         = issue_claims demo_issuer 200 500 (newJti [7]) demo_subject" by auto
  have h: "json_plain (header_json (JwsHeader_forKid (newKid [1])))"
    by (simp add: json_plain_header plain_newKid)
  have found: "publicKeyFor jwks (Some (kr_kid key)) = Inr (Some (ed_public demo_ed seed))"
    if "key \<in> set (sk_keys demo_keys)" "kr_active key" "length seed = 32" "kr_private key = encodePrivate seed"
    for key seed
    using jwkSet_finds [OF demo_keys_inv demo_ed_ok jwks that(1) _ that(3,4)] that(2) by simp
  have tv: "tv_expectedIssuer demo_verifier \<in> {None, Some (ti_issuer demo_issuer)}"
    "tv_expectedAudience demo_verifier \<in> {None, Some (ti_audience demo_issuer)}" "leeway_ok demo_verifier"
    by (simp_all add: demo_sizes demo_verifier_def leeway_ok_def)
  have w: "\<not> sint t + sint (tv_leewaySeconds demo_verifier) < sint (200 :: long)"
    "\<not> sint (200 :: long) + sint (ti_tokenTtl demo_issuer) + sint (tv_leewaySeconds demo_verifier) \<le> sint t"
    using t(2,3) by (simp_all add: demo_sizes demo_verifier_def)
  show ?thesis
    by (simp only: issued_verify_window [OF demo_ed_ok demo_jackson_ok demo_keys_inv tok demo_keys_kid(1) h
        c(1) found tv t(1)] w c(2) if_False option.case)
qed

lemma demo_start_inv: "system_inv demo_ed demo_start"
proof -
  have "length (su_seed demo_startup) = 32" by (simp add: demo_startup_def)
  from create_system_inv(1) [OF demo_create good_empty_disk this] show ?thesis by simp
qed

lemma demo_rotated_inv: "keys_inv demo_ed demo_rotated"
proof -
  have "service_run demo_libs demo_server 0 300 (\<lambda>_ _. True) demo_start
      (demo_start\<lparr>id_keys := demo_rotated\<rparr>)"
    by (rule demo_rotation) (simp_all add: demo_start_def)
  from run_system_inv [OF this] demo_config_wf demo_start_inv show ?thesis
    by (simp add: system_inv_def keys_good_def wf_config_def)
qed

section \<open>Properties of the whole server\<close>

text \<open>
  C2. The invariant of the system: started from good documents (none at all, or those an
  earlier run left), through any interleaving of service calls with saves that fail anywhere
  and restarts in between, the server has exactly one active signing key, no key id twice, a
  registry whose records verify, a consistent denylist, files it can start from, and a JWKS
  that can be served.
\<close>

theorem system_invariant:
  assumes "fst (IdpServer_create lb su config adminToken d) = Inr (sv, s0)"
    and "good_disk (lb_ed lb) d" and "length (su_seed su) = 32" and "wf_config config"
    and "ed25519_ok (lb_ed lb)" and "service_run lb sv a b ok s0 s"
  shows "system_inv (lb_ed lb) s \<and> good_disk (lb_ed lb) (disk_of s)
     \<and> length (filter kr_active (sk_keys (id_keys s))) = 1
     \<and> distinct (map kr_kid (sk_keys (id_keys s)))
     \<and> (\<exists>jwks. fst (SigningKeyService_jwkSet ret now (id_keys s)) = Inr jwks)"
proof -
  note s0 = create_system_inv [OF assms(1-3)]
  have "wf_settings (sc_argonSettings (sv_config sv))" using assms(4) s0(2) by (simp add: wf_config_def)
  from run_system_inv [OF assms(6) this s0(1)] have inv: "system_inv (lb_ed lb) s" .
  then have k: "keys_inv (lb_ed lb) (id_keys s)" by (simp add: system_inv_def keys_good_def)
  obtain jwks where "fst (SigningKeyService_jwkSet ret now (id_keys s)) = Inr jwks"
    using jwkSet_published [OF k assms(5), of ret now] by blast
  moreover have "good_disk (lb_ed lb) (disk_of s)"
    using inv by (simp add: system_inv_def good_disk_def disk_of_def clients_good_def keys_good_def
        revocations_good_def)
  moreover from one_active [OF k] have "length (filter kr_active (sk_keys (id_keys s))) = 1"
    by (metis length_map length_Cons list.size(3) One_nat_def)
  moreover have "distinct (map kr_kid (sk_keys (id_keys s)))" using k by (simp add: keys_inv_def)
  ultimately show ?thesis using inv by blast
qed

theorem system_invariant_witness:
  "length (filter kr_active (sk_keys demo_rotated)) = 1"
proof -
  have "length (su_seed demo_startup) = 32" by (simp add: demo_startup_def)
  moreover have "ed25519_ok (lb_ed demo_libs)" by (simp add: demo_ed_ok)
  moreover have "service_run demo_libs demo_server 0 300 (\<lambda>_ _. True) demo_start
      (demo_start\<lparr>id_keys := demo_rotated\<rparr>)"
    by (rule demo_rotation) (simp_all add: demo_start_def)
  ultimately show ?thesis
    using system_invariant [OF demo_create good_empty_disk _ demo_config_wf] by fastforce
qed

text \<open>
  A restart loses nothing that was saved: when every file holds what the service has in
  memory, starting again from the files gives the very same state and leaves the files as
  they are; it fails only for an empty admin token, a bad OpenAPI resource or a taken port.
\<close>

lemma restart_lossless:
  assumes "system_inv (lb_ed lb) s" and "all_saved s"
  shows "IdpServer_create lb su config adminToken (disk_of s) =
    (and_then (mk_AdminAuthenticator adminToken) (\<lambda>admin.
     and_then (OpenApiDocument_load (lb_yaml lb) (lb_write lb) (su_resources su)) (\<lambda>openApi.
     and_then (su_bind su) (\<lambda>_.
       Inr (\<lparr>sv_config = config, sv_issuer = create_issuer config, sv_admin = admin,
             sv_openApi = openApi, sv_resources = su_resources su\<rparr>, s)))),
     disk_of s)"
proof -
  have c: "ClientService_new (dk_clients (disk_of s)) = Inr (id_clients s)"
    using assms restart_clients [of "id_clients s"]
    by (simp add: system_inv_def clients_good_def all_saved_def disk_of_def)
  have "fst (SigningKeyService_new (lb_ed lb) (su_seed su) (su_kidBytes su) (su_now su) (su_save su)
      (dk_keys (disk_of s))) = Inr (id_keys s)"
    using assms restart_keys [of "lb_ed lb" "id_keys s" "lb_ed lb" "su_seed su" "su_kidBytes su" "su_now su" "su_save su"]
    by (simp add: system_inv_def keys_good_def all_saved_def disk_of_def keys_document_def)
  then have k: "SigningKeyService_new (lb_ed lb) (su_seed su) (su_kidBytes su) (su_now su) (su_save su)
      (dk_keys (disk_of s)) = (Inr (id_keys s), dk_keys (disk_of s))"
    using new_keys_store by (metis disk.select_convs(2) disk_of_def prod.collapse)
  have r: "RevocationService_new (dk_revocations (disk_of s)) = Inr (id_revocations s)"
    using assms restart_revocations [of "id_revocations s"]
    by (simp add: system_inv_def revocations_good_def all_saved_def disk_of_def)
  have a: "AuditService_new (dk_audit (disk_of s)) = Inr (id_audit s)"
    using assms by (simp add: AuditService_new_def all_saved_def disk_of_def)
  have s: "\<lparr>id_clients = id_clients s, id_keys = id_keys s, id_revocations = id_revocations s,
      id_audit = id_audit s\<rparr> = s" by simp
  show ?thesis unfolding create_returns [OF c k r a] s ..
qed

lemma restart_lossless_example:
  "fst (IdpServer_create demo_libs demo_startup demo_config (Some (js ''s3cret''))
     (disk_of (demo_start\<lparr>id_clients := demo_clients,
        id_revocations := \<lparr>rs_byJti = [], rs_store = Doc []\<rparr>,
        id_audit := \<lparr>au_entries = [], au_store = Doc []\<rparr>\<rparr>)))
   = Inr (demo_server, demo_start\<lparr>id_clients := demo_clients,
        id_revocations := \<lparr>rs_byJti = [], rs_store = Doc []\<rparr>,
        id_audit := \<lparr>au_entries = [], au_store = Doc []\<rparr>\<rparr>)"
proof -
  let ?s = "demo_start\<lparr>id_clients := demo_clients,
        id_revocations := \<lparr>rs_byJti = [], rs_store = Doc []\<rparr>,
        id_audit := \<lparr>au_entries = [], au_store = Doc []\<rparr>\<rparr>"
  have saved: "all_saved ?s"
    by (simp add: all_saved_def demo_start_def demo_keys_saved demo_clients_def lhm_values_def)
  have "clients_good demo_clients"
    using demo_clients_inv by (auto simp: clients_good_def good_cell_def demo_clients_def lhm_values_def)
  moreover have "revocations_good \<lparr>rs_byJti = [], rs_store = Doc []\<rparr>"
    by (auto simp: revocations_good_def good_cell_def revocations_inv_def lhm_values_def
        intro!: exI [of _ demo_denylist] simp: demo_denylist_def)
  ultimately have "system_inv (lb_ed demo_libs) ?s"
    by (simp add: system_inv_def demo_start_def demo_keys_good)
  from restart_lossless [OF this saved, of demo_startup demo_config "Some (js ''s3cret'')"]
  show ?thesis
    by (simp add: demo_startup_def mk_AdminAuthenticator_def demo_server_def create_issuer_def
        demo_config_def demo_issuer_def demo_openApi)
qed

text \<open>
  C17. What was acknowledged is durable: from the first start on, as long as no save fails (so
  through any interleaving of the calls of requests none of which is answered 500, see
  \<open>Concurrency\<close>) and through any restarts in between, starting again from the
  files fails only for an empty admin token, a bad OpenAPI resource or a taken port, writes no
  file, and gives the very same client registry, audit log and active signing key, and at every
  later time the same JWKS, denylist and revocation checks.
\<close>

theorem answered_state_survives_restart:
  assumes "fst (IdpServer_create lb su0 config tok0 d) = Inr (sv0, s0)"
    and "good_disk (lb_ed lb) d" and "length (su_seed su0) = 32" and "wf_config config"
    and "saving_run lb sv0 a (sint b) ok s0 s" and "instant_min \<le> a" and "instant_ok b"
    and "length (su_seed su) = 32"
  shows "\<exists>s'. IdpServer_create lb su config tok (disk_of s) =
       (and_then (mk_AdminAuthenticator tok) (\<lambda>admin.
        and_then (OpenApiDocument_load (lb_yaml lb) (lb_write lb) (su_resources su)) (\<lambda>openApi.
        and_then (su_bind su) (\<lambda>_.
          Inr (\<lparr>sv_config = config, sv_issuer = create_issuer config, sv_admin = admin,
                sv_openApi = openApi, sv_resources = su_resources su\<rparr>, s')))), disk_of s)
     \<and> id_clients s' = id_clients s \<and> id_audit s' = id_audit s
     \<and> sk_activeKid (id_keys s') = sk_activeKid (id_keys s)
     \<and> findActive (id_keys s') = findActive (id_keys s)
     \<and> (\<forall>t. instant_ok t \<and> sint b \<le> sint t \<longrightarrow>
          fst (SigningKeyService_jwkSet (retiredKeyRetention config) t (id_keys s'))
            = fst (SigningKeyService_jwkSet (retiredKeyRetention config) t (id_keys s))
          \<and> fst (RevocationService_activeDenylist t (id_revocations s'))
            = fst (RevocationService_activeDenylist t (id_revocations s))
          \<and> (\<forall>j. fst (RevocationService_isRevoked t j (id_revocations s'))
            = fst (RevocationService_isRevoked t j (id_revocations s))))"
proof -
  let ?ret = "retiredKeyRetention config"
  have ret: "0 \<le> sint ?ret" "sint ?ret < 2 ^ 62"
    using assms(4) retention_sint [of config] by (simp_all add: wf_config_def)
  note config = create_system_inv(2) [OF assms(1-3)]
  have wf: "wf_config (sv_config sv0)" using assms(4) config by simp
  from run_saved [OF assms(5) wf assms(6,7) create_system_inv(1) [OF assms(1-3)] create_saved [OF assms(1-3)]] config have
    good: "clients_good (id_clients s)" "keys_good (lb_ed lb) (id_keys s)" "revocations_good (id_revocations s)" and
    saved: "registry_saved (id_clients s)" "keys_saved ?ret b (id_keys s)" "denylist_saved b (id_revocations s)"
      "audit_saved (id_audit s)" by (simp_all add: system_inv_def saved_as_of_def)
  from restart_signer_returns [OF good(2) saved(2)] obtain k where
    k: "SigningKeyService_new (lb_ed lb) (su_seed su) (su_kidBytes su) (su_now su) (su_save su)
      (dk_keys (disk_of s)) = (Inr k, dk_keys (disk_of s))" by (simp add: disk_of_def) blast
  from restart_denylist_returns [OF saved(3)] obtain r where
    r: "RevocationService_new (dk_revocations (disk_of s)) = Inr r" by (auto simp: disk_of_def)
  note new = create_returns [OF _ k r, of "id_clients s" "id_audit s"]
  note signer = restart_signer [OF _ good(2) saved(2) assms(8)]
  note denylist = restart_denylist [OF _ good(3) saved(3)]
  let ?s = "\<lparr>id_clients = id_clients s, id_keys = k, id_revocations = r, id_audit = id_audit s\<rparr>"
  have same: "sk_activeKid k = sk_activeKid (id_keys s)" "findActive k = findActive (id_keys s)"
    "live_keys ?ret b (sk_keys k) = live_keys ?ret b (sk_keys (id_keys s))"
    using signer k by (simp_all add: disk_of_def)
  have "fst (SigningKeyService_jwkSet ?ret t k) = fst (SigningKeyService_jwkSet ?ret t (id_keys s))
      \<and> rs_byJti (RevocationService_prune t r) = rs_byJti (RevocationService_prune t (id_revocations s))"
    if "instant_ok t" "sint b \<le> sint t" for t
    using live_keys_jwkSet [OF same(3) refl that(1) assms(7) ret that(2)] denylist [OF _ that(2)] r
    by (simp add: disk_of_def)
  with same new restart_registry [OF good(1) saved(1)] restart_audit [OF saved(4)] show ?thesis
    by (intro exI [of _ ?s])
       (simp add: disk_of_def RevocationService_activeDenylist_def RevocationService_isRevoked_def Let_def
         split: option.split)
qed

theorem answered_state_survives_restart_witness:
  "\<exists>resp s s'. Idp_handle demo_libs demo_server demo_inputs (rc_request demo_registration) demo_start = (Inr resp, s)
     \<and> hr_status resp = 201
     \<and> IdpServer_create demo_libs demo_startup demo_config (Some (js ''s3cret'')) (disk_of s)
         = (Inr (demo_server, s'), disk_of s)
     \<and> id_clients s' = id_clients s \<and> id_audit s' = id_audit s"
proof -
  from demo_registers [of demo_start] obtain resp s where
    run: "run_endpoint demo_libs demo_server demo_inputs ERegisterClient demo_registration demo_start = (Inr resp, s)"
    and status: "hr_status resp = 201" by auto
  have h: "Idp_handle demo_libs demo_server demo_inputs (rc_request demo_registration) demo_start = (Inr resp, s)"
    by (rule Idp_handle_found [OF demo_registration_route(1,2)]) (simp only: run demo_registration_route(3,4))
  have i: "inputs_in 100 (sint (300 :: long)) demo_inputs" by (simp add: inputs_in_def) (simp add: demo_inputs_def)
  have k: "newKid (in_bytes demo_inputs 0) \<notin> kr_kid ` set (sk_keys (id_keys demo_start))"
    by (simp add: demo_start_def demo_keys_kid rotated_keys_def)
  have "saving_run demo_libs demo_server 100 (sint (300 :: long)) any_revocation demo_start s"
    by (rule handle_saving_run [OF i k h]) (simp add: status)
  from answered_state_survives_restart [OF demo_create good_empty_disk _ demo_config_wf this, of demo_startup
      "Some (js ''s3cret'')"]
  obtain s' where "IdpServer_create demo_libs demo_startup demo_config (Some (js ''s3cret'')) (disk_of s)
         = (Inr (demo_server, s'), disk_of s)" "id_clients s' = id_clients s" "id_audit s' = id_audit s"
    by (auto simp: demo_startup_def mk_AdminAuthenticator_def demo_server_def create_issuer_def
        demo_config_def demo_issuer_def demo_openApi instant_ok_def instant_min_def instant_max_def)
  with h status show ?thesis by blast
qed

text \<open>
  C3. Rotation does not strand a token. A token issued while the key file holds the keys of the
  service, so signed with a key that is saved, verifies against every JWKS the server serves in
  the two token lifetimes after it was issued, with the outcome its own window gives it,
  whatever service calls, rotations and restarts came in between, with clock readings in those
  two lifetimes. (A key whose save failed is lost by a restart, and its tokens with it.)
\<close>

theorem token_survives_rotation:
  assumes "ed25519_ok (lb_ed lb)" and "jackson_ok (lb_jackson lb)" and "wf_config (sv_config sv)"
    and "keys_good (lb_ed lb) (id_keys s)" and "sk_store (id_keys s) = Doc (keys_document (id_keys s))"
    and "TokenIssuer_issue (lb_ed lb) (lb_jackson lb) ti now jb (id_keys s) client = Inr tok"
    and "sk_activeKid (id_keys s) = Some kid" and "json_plain (header_json (JwsHeader_forKid kid))"
    and "json_plain (claims_json (issued_claims ti now tok client))"
    and "service_run lb sv (sint now) b ok s s'" and "instant_ok now" and "b \<le> instant_max"
    and "b \<le> sint now + 2 * sint (sc_tokenTtl (sv_config sv))" and "sint fetched \<in> {sint now..b}"
    and "fst (SigningKeyService_jwkSet (retiredKeyRetention (sv_config sv)) fetched (id_keys s')) = Inr jwks"
    and "tv_expectedIssuer tv \<in> {None, Some (ti_issuer ti)}"
    and "tv_expectedAudience tv \<in> {None, Some (ti_audience ti)}" and "leeway_ok tv" and "instant_ok t"
  shows "TokenVerifier_verify (lb_ed lb) (lb_jackson lb) tv t (Some (it_accessToken tok)) jwks isr = Inr
       (if sint t + sint (tv_leewaySeconds tv) < sint now then Result_failure NOT_YET_VALID
        else if sint now + sint (ti_tokenTtl ti) + sint (tv_leewaySeconds tv) \<le> sint t then
          Result_failure EXPIRED
        else if (case isr of None \<Rightarrow> False | Some p \<Rightarrow> p (Some (newJti jb))) then
          Result_failure REVOKED
        else Result_success (issued_claims ti now tok client))"
proof -
  let ?ret = "retiredKeyRetention (sv_config sv)"
  have inv: "keys_inv (lb_ed lb) (id_keys s)" using assms(4) by (simp add: keys_good_def)
  have ret: "0 \<le> sint ?ret" "sint ?ret < 2 ^ 62" "sint ?ret = 2 * sint (sc_tokenTtl (sv_config sv))"
    using assms(3) retention_sint [of "sv_config sv"] by (simp_all add: wf_config_def)
  have min: "instant_min \<le> sint now" using assms(11) by (simp add: instant_ok_def)
  have found: "publicKeyFor jwks (Some (kr_kid key)) = Inr (Some (ed_public (lb_ed lb) seed))"
    if key: "key \<in> set (sk_keys (id_keys s))" "kr_active key" "length seed = 32"
      "kr_private key = encodePrivate seed" for key seed
  proof -
    have "key_held (kr_kid key) (kr_private key) (sint now) (sk_keys (id_keys s))"
      using key(1,2) by (auto simp: key_held_def)
    then have "signer_held (kr_kid key) (kr_private key) (sint now) (id_keys s)"
      using assms(5) by (simp add: signer_held_def keys_document_def)
    from run_signer_held [OF assms(10) this assms(4,3) min assms(12,13)]
    obtain key' where key': "key' \<in> set (sk_keys (id_keys s'))" "kr_kid key' = kr_kid key"
      "kr_private key' = kr_private key"
      "kr_active key' \<or> (\<exists>t. kr_retiredAt key' = Some t \<and> sint now \<le> sint t)"
      and inv': "keys_inv (lb_ed lb) (id_keys s')"
      by (auto simp: signer_held_def key_held_def keys_good_def)
    have "instant_ok fetched" using assms(14) min assms(12) by (rule instant_window)
    then have "\<not> expired_retired ?ret fetched key'"
      using key'(4) assms(13,14) ret by (auto simp: expired_retired_iff)
    from jwkSet_finds [OF inv' assms(1,15) key'(1) this key(3)] key'(2,3) key(4) show ?thesis by simp
  qed
  show ?thesis by (rule issued_verify_window [OF assms(1,2) inv assms(6-9) found assms(16-19)])
qed

theorem token_survives_rotation_witness:
  "\<exists>tok jwks. TokenIssuer_issue demo_ed demo_jackson demo_issuer 200 [7] demo_keys demo_subject = Inr tok
     \<and> fst (SigningKeyService_jwkSet (retiredKeyRetention demo_config) 450 demo_rotated) = Inr jwks
     \<and> TokenVerifier_verify demo_ed demo_jackson demo_verifier 499 (Some (it_accessToken tok)) jwks None
       = Inr (Result_success (issue_claims demo_issuer 200 500 (newJti [7]) demo_subject))"
proof -
  from demo_issue obtain tok where
    tok: "TokenIssuer_issue demo_ed demo_jackson demo_issuer 200 [7] demo_keys demo_subject = Inr tok"
      "json_plain (claims_json (issued_claims demo_issuer 200 tok demo_subject))"
      "issued_claims demo_issuer 200 tok demo_subject
         = issue_claims demo_issuer 200 500 (newJti [7]) demo_subject" by blast
  from jwkSet_published [OF demo_rotated_inv demo_ed_ok, of "retiredKeyRetention demo_config" 450]
  obtain jwks where
    jwks: "fst (SigningKeyService_jwkSet (retiredKeyRetention demo_config) 450 demo_rotated) = Inr jwks"
    by blast
  have run: "service_run demo_libs demo_server (sint (200 :: long)) 450 (\<lambda>_ _. True) demo_start
      (demo_start\<lparr>id_keys := demo_rotated\<rparr>)"
    by (rule demo_rotation) (simp_all add: demo_start_def)
  have h: "json_plain (header_json (JwsHeader_forKid (newKid [1])))"
    by (simp add: json_plain_header plain_newKid)
  have "TokenVerifier_verify (lb_ed demo_libs) (lb_jackson demo_libs) demo_verifier 499
      (Some (it_accessToken tok)) jwks None = Inr
       (if sint (499 :: long) + sint (tv_leewaySeconds demo_verifier) < sint (200 :: long) then
          Result_failure NOT_YET_VALID
        else if sint (200 :: long) + sint (ti_tokenTtl demo_issuer)
            + sint (tv_leewaySeconds demo_verifier) \<le> sint (499 :: long) then
          Result_failure EXPIRED
        else if (case None of None \<Rightarrow> False | Some p \<Rightarrow> p (Some (newJti [7]))) then
          Result_failure REVOKED
        else Result_success (issued_claims demo_issuer 200 tok demo_subject))"
    by (rule token_survives_rotation [OF _ _ _ _ _ _ _ h _ run, where fetched = 450])
       (simp_all add: demo_ed_ok demo_jackson_ok demo_config_wf demo_start_def demo_keys_good
          demo_keys_saved demo_keys_kid demo_claims_plain tok jwks demo_sizes demo_verifier_def
          leeway_ok_def instant_ok_def instant_min_def instant_max_def)
  with tok jwks show ?thesis by (simp add: demo_verifier_def demo_sizes)
qed

text \<open>
  C4. A revoked token is refused: once \<open>revoke\<close> has returned, no verifier that asks the server
  accepts a token with that id up to and including the recorded expiry, whatever service
  calls, pruning and restarts come in between, with clock readings up to that expiry and as
  long as nobody revokes the same id again with an earlier expiry. (The later entry replaces
  the first: see \<open>revoke_lookup\<close> in \<open>Revocations\<close>.)
\<close>

theorem revoked_token_refused:
  assumes "revocations_good (id_revocations s)" and "\<not> is_blank j" and "sint pruned \<le> sint ex"
    and "RevocationService_revoke now pruned out (Some j) ex why (id_revocations s) = (Inr v, rv)"
    and "service_run lb sv a b (keeps_entry j (sint ex)) (s\<lparr>id_revocations := rv\<rparr>) s'"
    and "b \<le> sint ex" and "sint t \<le> sint ex"
    and "TokenVerifier_verify ed jx tv t token jwks
           (Some (\<lambda>k. fst (RevocationService_isRevoked t k (id_revocations s')))) = Inr res"
    and "rt_valid res"
  shows "\<exists>c. rt_claims res = Some c \<and> jc_tokenId c \<noteq> Some j"
proof -
  have inv: "revocations_inv (id_revocations s)" using assms(1) by (simp add: revocations_good_def)
  have good: "revocations_good rv"
    using revocations_goodI [OF assms(1) revoke_inv [OF inv assms(4)] revoke_store [OF assms(4)]] .
  from run_entry_held [OF assms(5) _ _ assms(2,6)] revoked_held [OF inv assms(2,3,4)] good
  have held: "entry_held j (sint ex) (id_revocations s')" "revocations_inv (id_revocations s')"
    by (simp_all add: revocations_good_def)
  then have "entry_in j (sint ex) (rs_byJti (RevocationService_prune t (id_revocations s')))"
    using assms(7) by (intro entry_in_prune) (simp_all add: entry_held_def)
  then have "fst (RevocationService_isRevoked t (Some j) (id_revocations s'))"
    by (auto simp: RevocationService_isRevoked_def entry_in_def Let_def)
  with accepted_not_revoked [OF assms(8,9)] show ?thesis by auto
qed

theorem revoked_token_refused_witness:
  "jc_tokenId (issue_claims demo_issuer 200 500 (newJti [7]) demo_subject) \<noteq> Some (newJti [8])"
proof -
  from demo_issue obtain tok where
    tok: "TokenIssuer_issue demo_ed demo_jackson demo_issuer 200 [7] demo_keys demo_subject = Inr tok" by blast
  from jwkSet_published [OF demo_keys_inv demo_ed_ok, of 600 210]
  obtain jwks where jwks: "fst (SigningKeyService_jwkSet 600 210 demo_keys) = Inr jwks" by blast
  let ?c = "issue_claims demo_issuer 200 500 (newJti [7]) demo_subject"
  have g: "revocations_good (id_revocations (demo_start\<lparr>id_revocations := demo_denylist\<rparr>))"
    using demo_denylist_inv by (simp add: revocations_good_def good_cell_def demo_denylist_def)
  have nb: "\<not> is_blank (newJti [8])" by (simp add: newJti_def randomBase64Url_not_blank)
  obtain v rv where r: "RevocationService_revoke 210 210 Saved (Some (newJti [8])) 500 None
      (id_revocations (demo_start\<lparr>id_revocations := demo_denylist\<rparr>)) = (Inr v, rv)"
    using nb by (auto simp: revocation_ops Let_def)
  let ?isr = "\<lambda>k. fst (RevocationService_isRevoked 300 k (id_revocations (demo_start\<lparr>id_revocations := rv\<rparr>)))"
  have "newJti [7] \<noteq> newJti [8]" by (simp add: newJti_def)
  then have "\<not> ?isr (Some (newJti [7]))"
    using revoke_lookup(2) [OF demo_denylist_inv _ nb, of 210 210 Saved 500 None "Inr v" rv 300 "newJti [7]"] r
    by (simp add: RevocationService_isRevoked_def RevocationService_prune_def demo_denylist_def lhm_defs
        word_sle_eq)
  then have ok: "TokenVerifier_verify demo_ed demo_jackson demo_verifier 300 (Some (it_accessToken tok)) jwks
      (Some ?isr) = Inr (Result_success ?c)"
    using demo_outcome [OF tok jwks, of 300 ?isr] by (simp add: instant_ok_def instant_min_def instant_max_def)
  have "\<exists>c. rt_claims (Result_success ?c) = Some c \<and> jc_tokenId c \<noteq> Some (newJti [8])"
  proof (rule revoked_token_refused [OF g nb _ r _ _ _ ok, where b = 500 and a = 0])
    show "service_run demo_libs demo_server 0 500 (keeps_entry (newJti [8]) (sint (500 :: long)))
        (demo_start\<lparr>id_revocations := demo_denylist, id_revocations := rv\<rparr>) (demo_start\<lparr>id_revocations := rv\<rparr>)"
      by simp
  qed (simp_all add: Result_success_def)
  then show ?thesis by (simp add: Result_success_def)
qed

text \<open>
  C20. What a revocation does to a token, to the second: revoked with its own expiry, as the
  administrator is asked to, the token is refused as revoked up to and including its expiry,
  accepted again in the leeway of the verifier after it (the entry has been pruned, the token
  has not expired yet), and expired from there on; without a leeway there is no such gap.
\<close>

theorem revocation_window:
  assumes "ed25519_ok ed" and "jackson_ok jx" and "keys_inv ed ks"
    and "TokenIssuer_issue ed jx ti now jb ks client = Inr tok" and "jb \<noteq> []"
    and "sk_activeKid ks = Some kid" and "json_plain (header_json (JwsHeader_forKid kid))"
    and "json_plain (claims_json (issued_claims ti now tok client))"
    and "fst (SigningKeyService_jwkSet ret fetched ks) = Inr jwks"
    and "tv_expectedIssuer tv \<in> {None, Some (ti_issuer ti)}"
    and "tv_expectedAudience tv \<in> {None, Some (ti_audience ti)}" and "leeway_ok tv" and "instant_ok t"
    and "revocations_inv rv" and "sint pruned \<le> sint t" and "sint now \<le> sint t"
    and "RevocationService_revoke recorded pruned out (Some (it_jti tok)) (it_expiresAt tok) why rv = (r, rv')"
  shows "TokenVerifier_verify ed jx tv t (Some (it_accessToken tok)) jwks
       (Some (\<lambda>k. fst (RevocationService_isRevoked t k rv'))) = Inr
       (if sint (it_expiresAt tok) + sint (tv_leewaySeconds tv) \<le> sint t then Result_failure EXPIRED
        else if sint t \<le> sint (it_expiresAt tok) then Result_failure REVOKED
        else Result_success (issued_claims ti now tok client))"
proof -
  from issue_signed [OF assms(3,4)] have
    tok: "sint (it_expiresAt tok) = sint now + sint (ti_tokenTtl ti)" "it_jti tok = newJti jb" by blast+
  have nb: "\<not> is_blank (newJti jb)"
    using assms(5) by (simp add: newJti_def randomBase64Url_not_blank)
  have "pruned \<le>s t" using assms(15) by (simp add: word_sle_eq)
  from revoke_lookup(1) [OF assms(14,17) [unfolded tok(2)] nb this]
  have revoked: "fst (RevocationService_isRevoked t (Some (newJti jb)) rv') \<longleftrightarrow>
      sint t \<le> sint (it_expiresAt tok)" by (simp add: word_sle_eq)
  have found: "publicKeyFor jwks (Some (kr_kid key)) = Inr (Some (ed_public ed seed))"
    if "key \<in> set (sk_keys ks)" "kr_active key" "length seed = 32" "kr_private key = encodePrivate seed"
    for key seed
    using jwkSet_finds [OF assms(3,1,9) that(1) _ that(3,4)] that(2) by simp
  have "0 \<le> sint (tv_leewaySeconds tv)" using assms(12) by (simp add: leeway_ok_def)
  with assms(16) have w: "\<not> sint t + sint (tv_leewaySeconds tv) < sint now" by simp
  show ?thesis
    by (simp only: issued_verify_window [OF assms(1-4,6-8) found assms(10-13)] w if_False option.case
        revoked tok(1))
qed

theorem revocation_window_witness:
  "\<exists>tok jwks. TokenIssuer_issue demo_ed demo_jackson demo_issuer 200 [7] demo_keys demo_subject = Inr tok
     \<and> TokenVerifier_verify demo_ed demo_jackson demo_verifier 510 (Some (it_accessToken tok)) jwks
         (Some (\<lambda>k. fst (RevocationService_isRevoked 510 k
            (snd (RevocationService_revoke 210 210 Saved (Some (it_jti tok)) (it_expiresAt tok) None demo_denylist)))))
       = Inr (Result_success (issue_claims demo_issuer 200 500 (newJti [7]) demo_subject))"
proof -
  from demo_issue obtain tok where
    tok: "TokenIssuer_issue demo_ed demo_jackson demo_issuer 200 [7] demo_keys demo_subject = Inr tok"
      "json_plain (claims_json (issued_claims demo_issuer 200 tok demo_subject))"
      "issued_claims demo_issuer 200 tok demo_subject
         = issue_claims demo_issuer 200 500 (newJti [7]) demo_subject" by blast
  from jwkSet_published [OF demo_keys_inv demo_ed_ok, of 600 210]
  obtain jwks where jwks: "fst (SigningKeyService_jwkSet 600 210 demo_keys) = Inr jwks" by blast
  have h: "json_plain (header_json (JwsHeader_forKid (newKid [1])))"
    by (simp add: json_plain_header plain_newKid)
  from issue_signed [OF demo_keys_inv tok(1)] have e: "sint (it_expiresAt tok) = 500"
    by (auto simp: demo_sizes)
  have "TokenVerifier_verify demo_ed demo_jackson demo_verifier 510 (Some (it_accessToken tok)) jwks
       (Some (\<lambda>k. fst (RevocationService_isRevoked 510 k (snd (RevocationService_revoke 210 210 Saved
         (Some (it_jti tok)) (it_expiresAt tok) None demo_denylist))))) = Inr
       (if sint (it_expiresAt tok) + sint (tv_leewaySeconds demo_verifier) \<le> sint (510 :: long) then
          Result_failure EXPIRED
        else if sint (510 :: long) \<le> sint (it_expiresAt tok) then Result_failure REVOKED
        else Result_success (issued_claims demo_issuer 200 tok demo_subject))"
    by (rule revocation_window [OF demo_ed_ok demo_jackson_ok demo_keys_inv tok(1) _ demo_keys_kid(1) h tok(2)
          jwks _ _ _ _ demo_denylist_inv _ _ prod.collapse [symmetric]])
       (simp_all add: demo_sizes demo_verifier_def leeway_ok_def instant_ok_def instant_min_def instant_max_def)
  then show ?thesis using tok e by (auto simp: demo_verifier_def)
qed

text \<open>
  C19. A server that runs was configured: its configuration is in bounds (a valid port, a token
  lifetime of at least a second, valid Argon2 costs, a retention of retired keys of exactly
  twice the lifetime, computed without overflow), it issues for the configured issuer and
  audience, and it has a non-empty admin token, resolved from the environment or the file: the
  admin endpoints accept exactly that token, and never a request without one.
\<close>

theorem started_server:
  assumes "ServerMain_main pg userHome lb su readFile args env disks = Running sv s"
  shows "wf_config (sv_config sv)
     \<and> sint (retiredKeyRetention (sv_config sv)) = 2 * sint (sc_tokenTtl (sv_config sv))
     \<and> sv_issuer sv = \<lparr>ti_issuer = sc_issuer (sv_config sv), ti_audience = sc_audience (sv_config sv),
          ti_tokenTtl = sc_tokenTtl (sv_config sv)\<rparr>
     \<and> (\<exists>tok. resolveAdminToken env (map_option readFile (sc_adminTokenFilePath (sv_config sv))) = Inr tok
          \<and> tok \<noteq> [] \<and> \<not> isValid (sv_admin sv) None
          \<and> (\<forall>h. isValid (sv_admin sv) h \<longleftrightarrow>
               (\<exists>p. bearerToken h = Some p \<and> utf8_encode p = utf8_encode tok))
          \<and> (java_trim tok = tok \<longrightarrow> isValid (sv_admin sv) (Some (js ''Bearer '' @ tok))))"
proof -
  from assms obtain config tok where
    config: "resolve pg userHome args env = Inr config"
    and tok: "resolveAdminToken env (map_option readFile (sc_adminTokenFilePath config)) = Inr tok"
    and run: "fst (IdpServer_create lb su config (Some tok) (disks (sc_dataDir config))) = Inr (sv, s)"
    by (auto simp: ServerMain_main_def ServerMain_run_def Let_def split: sum.splits prod.splits exn.splits)
  note new = create_Inr [OF run]
  from new(7) have admin: "tok \<noteq> []" "aa_expectedToken (sv_admin sv) = utf8_encode tok"
    by (auto simp: mk_AdminAuthenticator_def split: if_splits dest: arg_cong [of _ _ aa_expectedToken])
  have valid: "isValid (sv_admin sv) h \<longleftrightarrow> (\<exists>p. bearerToken h = Some p \<and> utf8_encode p = utf8_encode tok)" for h
    by (auto simp: isValid_def admin(2) split: option.splits)
  have "wf_config (sv_config sv)" using resolve_wf [OF config] new(5) by simp
  moreover from this have "sint (retiredKeyRetention (sv_config sv)) = 2 * sint (sc_tokenTtl (sv_config sv))"
    by (simp add: wf_config_def retention_sint)
  moreover have "isValid (sv_admin sv) (Some (js ''Bearer '' @ tok))" if "java_trim tok = tok"
    using valid bearerToken_presented [OF admin(1) that] by blast
  moreover have "\<not> isValid (sv_admin sv) None" by (simp add: isValid_def bearerToken_def)
  ultimately show ?thesis using tok admin(1) valid new(5,6) by (simp add: create_issuer_def)
qed

lemma resolve_ignores_admin_token:
  "resolve pg userHome args (env(js ''MINIIDP_ADMIN_TOKEN'' := t)) = resolve pg userHome args env"
proof -
  let ?env = "env(js ''MINIIDP_ADMIN_TOKEN'' := t)"
  have dir: "defaultDataDir pg userHome ?env = defaultDataDir pg userHome env"
    by (simp add: defaultDataDir_def split: option.split)
  have settings: "env_settings ?env = env_settings env" by (simp add: env_settings_def envInt_def)
  show ?thesis unfolding resolve_def dir settings ..
qed

definition demo_env :: env where
  "demo_env = (\<lambda>_. None)(js ''MINIIDP_ADMIN_TOKEN'' := Some (js ''s3cret''))"

definition demo_args :: "jstring list" where
  "demo_args = [js ''--port'', js ''9000'', js ''--issuer'', js ''https://idp/'']"

lemma demo_resolve_env: "resolve demo_paths (js ''/root'') demo_args demo_env = Inr demo_config"
  unfolding demo_env_def demo_args_def resolve_ignores_admin_token by (rule demo_resolve)

lemma demo_token_env: "resolveAdminToken demo_env f = Inr (js ''s3cret'')"
proof -
  have "java_trim (js ''s3cret'') = js ''s3cret''"
    unfolding java_trim_def by (rule trim_by_id) (simp add: js_def)
  then show ?thesis
    by (simp add: resolveAdminToken_def demo_env_def) (simp add: is_blank_def is_whitespace_def js_def)
qed

theorem started_server_witness:
  "wf_config demo_config \<and> \<not> isValid (sv_admin demo_server) None"
proof -
  obtain r d where c: "IdpServer_create demo_libs demo_startup demo_config (Some (js ''s3cret'')) empty_disk
      = (r, d)" by (rule prod.exhaust)
  with demo_create have "r = Inr (demo_server, demo_start)" by simp
  with c have "ServerMain_main demo_paths (js ''/root'') demo_libs demo_startup (\<lambda>_. None) demo_args
      demo_env (\<lambda>_. empty_disk) = Running demo_server demo_start"
    by (simp add: ServerMain_main_def ServerMain_run_def demo_resolve_env demo_token_env)
  from started_server [OF this] show ?thesis by auto
qed

text \<open>
  C32. A document that cannot be read ends the start, but not as an I/O error: the store wraps
  the exception, \<open>main\<close> only catches the unwrapped one, and the process dies of an uncaught
  exception instead of reporting the error and exiting with status 74.
\<close>

theorem unreadable_document_uncaught:
  assumes "resolve pg userHome args env = Inr config"
    and "resolveAdminToken env (map_option readFile (sc_adminTokenFilePath config)) = Inr tok"
    and "disks (sc_dataDir config) = d"
    and "dk_clients d = Unreadable \<or> dk_keys d = Unreadable \<or> dk_revocations d = Unreadable
      \<or> dk_audit d = Unreadable"
  shows "\<exists>m. ServerMain_main pg userHome lb su readFile args env disks = Uncaught (UncheckedIOException m)"
proof -
  have "\<exists>m. fst (IdpServer_create lb su config (Some tok) d) = Inl (UncheckedIOException m)"
  proof (cases "ClientService_new (dk_clients d)")
    case (Inl e)
    then show ?thesis
      by (cases "dk_clients d") (auto simp: IdpServer_create_def ClientService_new_def load_error_def)
  next
    case (Inr clients)
    then have c: "dk_clients d \<noteq> Unreadable" by (auto simp: ClientService_new_def)
    obtain r k where k: "SigningKeyService_new (lb_ed lb) (su_seed su) (su_kidBytes su) (su_now su)
        (su_save su) (dk_keys d) = (r, k)" by (rule prod.exhaust)
    show ?thesis
    proof (cases r)
      case (Inl e)
      with k have "\<exists>m. e = UncheckedIOException m"
        by (cases "dk_keys d"; cases "su_save su")
           (auto simp: SigningKeyService_new_def SigningKeyService_persist_def Let_def load_error_def
             save_error_def split: if_splits)
      then show ?thesis by (auto simp: IdpServer_create_def Inr k Inl)
    next
      case (Inr signingKeys)
      with k have "dk_keys d \<noteq> Unreadable" by (auto simp: SigningKeyService_new_def)
      with assms(4) c have "dk_revocations d = Unreadable \<or> dk_audit d = Unreadable" by simp
      then show ?thesis
        by (cases "dk_revocations d"; cases "dk_audit d")
           (auto simp: IdpServer_create_def \<open>ClientService_new (dk_clients d) = Inr clients\<close> k Inr
             RevocationService_new_def AuditService_new_def load_error_def)
    qed
  qed
  then show ?thesis
    by (auto simp: ServerMain_main_def ServerMain_run_def assms(1-3) Let_def split: prod.splits)
qed

theorem unreadable_document_uncaught_witness:
  "\<exists>m. ServerMain_main demo_paths (js ''/root'') demo_libs demo_startup (\<lambda>_. None) demo_args demo_env
     (\<lambda>_. empty_disk\<lparr>dk_audit := Unreadable\<rparr>) = Uncaught (UncheckedIOException m)"
  by (rule unreadable_document_uncaught [OF demo_resolve_env demo_token_env refl]) simp

end
